(* ===== verification/Prelude.thy ===== *)
theory Prelude
  imports Main "HOL-Library.Word" "HOL-Library.Code_Target_Nat"
begin

unbundle bit_operations_syntax

text \<open>
  Shared vocabulary of the development: the machine integer types of the firmware, the named
  collections of rewrite rules the component theories fill, reachable states of a transition
  system with the one locale every state-machine component interprets, and a few facts on lists,
  ranges and words.
\<close>

section \<open>Machine integers\<close>

type_synonym uint8_t = "8 word"
type_synonym uint16_t = "16 word"
type_synonym uint32_t = "32 word"
type_synonym uint64_t = "64 word"
type_synonym u_register_t = "64 word"
type_synonym uintptr_t = "64 word"

text \<open>
  \<open>check_uptr_overflow\<close> of \<open>include/lib/utils_def.h\<close>: the pointer-sized sum of the two arguments
  would wrap.
\<close>

definition check_uptr_overflow :: "uintptr_t \<Rightarrow> uintptr_t \<Rightarrow> bool" where
  "check_uptr_overflow p inc \<longleftrightarrow> p > (- 1) - inc"

lemma unat_bound: "unat (w :: 'a :: len word) < 2 ^ LENGTH('a)"
  by (rule unsigned_less)

lemma check_uptr_overflow_iff:
  "check_uptr_overflow p inc \<longleftrightarrow> 2 ^ 64 \<le> unat p + unat inc"
proof -
  have "unat ((- 1 :: uintptr_t) - inc) = unat (- 1 :: uintptr_t) - unat inc"
    by (rule unat_sub) simp
  then have "unat ((- 1 :: uintptr_t) - inc) = 2 ^ 64 - 1 - unat inc"
    by (simp add: unsigned_minus_1_eq_mask mask_eq_exp_minus_1)
  then show ?thesis
    using unat_bound [of inc]
    by (auto simp: check_uptr_overflow_def word_less_nat_alt)
qed

lemma unat_add_no_overflow:
  "\<not> check_uptr_overflow p inc \<Longrightarrow> unat (p + inc) = unat p + unat inc"
  by (simp add: check_uptr_overflow_iff unat_word_ariths)

section \<open>Outcomes of a call into EL3\<close>

text \<open>
  A handler either returns a value, does not return because the CPU enters a power-down
  \<open>wfi\<close>, or stops in \<open>panic()\<close> or in a failed \<open>assert()\<close> (debug builds).
\<close>

datatype 'a outcome =
    Returned 'a
  | Power_down
  | Panicked
  | Assert_failed

section \<open>Reachable states\<close>

inductive reach :: "('s \<Rightarrow> bool) \<Rightarrow> ('s \<Rightarrow> 's \<Rightarrow> bool) \<Rightarrow> 's \<Rightarrow> bool"
  for init :: "'s \<Rightarrow> bool" and step :: "'s \<Rightarrow> 's \<Rightarrow> bool"
where
  reach_init: "init s \<Longrightarrow> reach init step s"
| reach_step: "reach init step s \<Longrightarrow> step s t \<Longrightarrow> reach init step t"

locale inductive_invariant =
  fixes init :: "'s \<Rightarrow> bool"
    and step :: "'s \<Rightarrow> 's \<Rightarrow> bool"
    and inv :: "'s \<Rightarrow> bool"
  assumes inv_init: "init s \<Longrightarrow> inv s"
    and inv_step: "inv s \<Longrightarrow> step s t \<Longrightarrow> inv t"
begin

lemma reach_inv: "reach init step s \<Longrightarrow> inv s"
  by (induction rule: reach.induct) (auto intro: inv_init inv_step)

lemma reach_imp: "reach init step s \<Longrightarrow> (\<And>s. inv s \<Longrightarrow> P s) \<Longrightarrow> P s"
  using reach_inv by blast

end

text \<open>A run given as the list of the states it visits, used to exhibit reachable states.\<close>

fun is_run :: "('s \<Rightarrow> 's \<Rightarrow> bool) \<Rightarrow> 's \<Rightarrow> 's list \<Rightarrow> bool" where
  "is_run step s [] = True"
| "is_run step s (t # ts) = (step s t \<and> is_run step t ts)"

lemma reach_run:
  "reach init step s \<Longrightarrow> is_run step s ts \<Longrightarrow> reach init step (last (s # ts))"
proof (induction ts arbitrary: s)
  case (Cons t ts)
  then have "reach init step t"
    by (auto intro: reach_step)
  with Cons show ?case by simp
qed simp

section \<open>Lists and ranges\<close>

lemma list_update_map_upd:
  "i < length xs \<Longrightarrow> (xs[i := v]) ! j = (if i = j then v else xs ! j)"
  by (simp add: nth_list_update)

lemma min_list_le: "x \<in> set xs \<Longrightarrow> Min (set xs) \<le> (x :: 'a :: linorder)"
  by simp

end
