(* ===== verification/Psci_Types.thy ===== *)
theory Psci_Types
  imports Prelude
begin

text \<open>
  The data of the PSCI library: the constants of \<open>include/lib/psci/psci.h\<close>, the structures of
  \<open>psci.h\<close> and \<open>lib/psci/psci_private.h\<close>, the build options and platform port the library is
  compiled against, and the file-level variables of \<open>psci_common.c\<close>, \<open>psci_setup.c\<close> and
  \<open>psci_stat.c\<close> gathered in one record. Accessors and setters of the per-CPU data follow, with
  the read-after-write laws the other PSCI theories rely on.

  Memory is coherent here: cache maintenance and barriers are not represented. Every lock
  operation and every call out of the library is appended to the event list of the state, in the
  order the code performs it. A hook of the platform or of the secure payload dispatcher that
  returns a value is a function of the events so far and of its arguments; a hook that returns
  nothing is present or not.
\<close>

section \<open>Constants\<close>

abbreviation (input) PSCI_E_SUCCESS :: int where "PSCI_E_SUCCESS \<equiv> 0"
abbreviation (input) PSCI_E_NOT_SUPPORTED :: int where "PSCI_E_NOT_SUPPORTED \<equiv> - 1"
abbreviation (input) PSCI_E_INVALID_PARAMS :: int where "PSCI_E_INVALID_PARAMS \<equiv> - 2"
abbreviation (input) PSCI_E_DENIED :: int where "PSCI_E_DENIED \<equiv> - 3"
abbreviation (input) PSCI_E_ALREADY_ON :: int where "PSCI_E_ALREADY_ON \<equiv> - 4"
abbreviation (input) PSCI_E_ON_PENDING :: int where "PSCI_E_ON_PENDING \<equiv> - 5"
abbreviation (input) PSCI_E_INTERN_FAIL :: int where "PSCI_E_INTERN_FAIL \<equiv> - 6"
abbreviation (input) PSCI_E_NOT_PRESENT :: int where "PSCI_E_NOT_PRESENT \<equiv> - 7"
abbreviation (input) PSCI_E_INVALID_ADDRESS :: int where "PSCI_E_INVALID_ADDRESS \<equiv> - 9"

abbreviation (input) PSCI_TOS_UP_MIG_CAP :: int where "PSCI_TOS_UP_MIG_CAP \<equiv> 0"
abbreviation (input) PSCI_TOS_NOT_UP_MIG_CAP :: int where "PSCI_TOS_NOT_UP_MIG_CAP \<equiv> 1"
abbreviation (input) PSCI_TOS_NOT_PRESENT_MP :: int where "PSCI_TOS_NOT_PRESENT_MP \<equiv> 2"

abbreviation (input) PSCI_CPU_PWR_LVL :: nat where "PSCI_CPU_PWR_LVL \<equiv> 0"
abbreviation (input) PSCI_LOCAL_STATE_RUN :: uint8_t where "PSCI_LOCAL_STATE_RUN \<equiv> 0"
abbreviation (input) PSCI_INVALID_MPIDR :: u_register_t where "PSCI_INVALID_MPIDR \<equiv> - 1"
abbreviation (input) PSTATE_TYPE_STANDBY :: uint32_t where "PSTATE_TYPE_STANDBY \<equiv> 0"
abbreviation (input) PSTATE_TYPE_POWERDOWN :: uint32_t where "PSTATE_TYPE_POWERDOWN \<equiv> 1"

section \<open>Structures\<close>

type_synonym plat_local_state_t = uint8_t

datatype aff_info_state_t = AFF_STATE_ON | AFF_STATE_OFF | AFF_STATE_ON_PENDING

datatype plat_local_state_type_t = STATE_TYPE_RUN | STATE_TYPE_RETN | STATE_TYPE_OFF

text \<open>
  \<open>suspend_mode_t\<close> is the two enumerators \<open>PLAT_COORD\<close> and \<open>OS_INIT\<close>; the variable of that type is
  assigned from an \<open>unsigned int\<close>, so it is kept as the number stored.
\<close>

type_synonym suspend_mode_t = uint32_t

abbreviation (input) PLAT_COORD :: suspend_mode_t where "PLAT_COORD \<equiv> 0"
abbreviation (input) OS_INIT :: suspend_mode_t where "OS_INIT \<equiv> 1"

record psci_power_state_t =
  pwr_domain_state :: "plat_local_state_t list"
  last_at_pwrlvl :: nat

record non_cpu_pd_node_t =
  cpu_start_idx :: nat
  ncpus :: nat
  parent_node :: uint32_t
  nd_local_state :: plat_local_state_t
  nd_level :: nat
  lock_index :: nat

text \<open>The parent as an index; the roots hold \<open>PSCI_PARENT_NODE_INVALID\<close>, all ones.\<close>

definition parent_of :: "non_cpu_pd_node_t \<Rightarrow> nat" where
  "parent_of nd = unat (parent_node nd)"

lemma parent_of_updates [simp]:
  "parent_of (nd\<lparr>nd_local_state := st\<rparr>) = parent_of nd"
  "parent_of (nd\<lparr>cpu_start_idx := i\<rparr>) = parent_of nd"
  "parent_of (nd\<lparr>ncpus := n\<rparr>) = parent_of nd"
  "parent_of (nd\<lparr>nd_level := l\<rparr>) = parent_of nd"
  "parent_of (nd\<lparr>lock_index := i\<rparr>) = parent_of nd"
  "parent_of (nd\<lparr>parent_node := p\<rparr>) = unat p"
  by (simp_all add: parent_of_def)

record cpu_pd_node_t =
  mpidr :: u_register_t
  cpu_parent_node :: nat

record psci_cpu_data_t =
  aff_info_state :: aff_info_state_t
  target_pwrlvl :: nat
  cpu_local_state :: plat_local_state_t

record psci_stat_t =
  residency :: u_register_t
  stat_count :: u_register_t

record entry_point_info_t =
  ep_attr :: uint32_t
  ep_pc :: uintptr_t
  ep_spsr :: uint32_t
  ep_arg0 :: u_register_t

section \<open>Events: locks and calls out of the library\<close>

datatype psci_event =
    Lock_get nat
  | Lock_release nat
  | Cpu_lock nat
  | Cpu_unlock nat
  | Svc_on u_register_t
  | Svc_off
  | Svc_suspend nat
  | Svc_on_finish
  | Svc_suspend_finish nat
  | Svc_migrate u_register_t u_register_t
  | Svc_system_off
  | Svc_system_reset
  | Plat_cpu_standby plat_local_state_t
  | Plat_pwr_domain_on u_register_t
  | Plat_pwr_domain_off_early
  | Plat_pwr_domain_off "plat_local_state_t list"
  | Plat_pwr_domain_validate_suspend
  | Plat_pwr_domain_suspend_pwrdown_early
  | Plat_pwr_domain_suspend "plat_local_state_t list"
  | Plat_pwr_domain_on_finish "plat_local_state_t list"
  | Plat_pwr_domain_on_finish_late
  | Plat_pwr_domain_suspend_finish "plat_local_state_t list"
  | Plat_pwr_down_wfi
  | Plat_system_off
  | Plat_system_reset
  | Plat_system_reset2 int uint32_t u_register_t
  | Plat_write_mem_protect int
  | Stop_func u_register_t
  | Mdelay
  | Pwrdown_cpu nat
  | Psci_arch_setup
  | Wfi
  | Publish_suspend_pwrdown_start
  | Publish_suspend_pwrdown_finish
  | Publish_cpu_on_finish
  | Stat_accounting_start
  | Stat_accounting_stop

section \<open>Platform port, secure payload dispatcher and build options\<close>

record plat_psci_ops_t =
  cpu_standby :: bool
  pwr_domain_on :: "(psci_event list \<Rightarrow> u_register_t \<Rightarrow> int) option"
  pwr_domain_off :: bool
  pwr_domain_off_early :: "(psci_event list \<Rightarrow> psci_power_state_t \<Rightarrow> int) option"
  pwr_domain_validate_suspend :: "(psci_event list \<Rightarrow> psci_power_state_t \<Rightarrow> int) option"
  pwr_domain_suspend_pwrdown_early :: bool
  pwr_domain_suspend :: bool
  pwr_domain_on_finish :: bool
  pwr_domain_on_finish_late :: bool
  pwr_domain_suspend_finish :: bool
  pwr_domain_pwr_down_wfi :: bool
  plat_system_off :: bool
  plat_system_reset :: bool
  validate_power_state :: "(uint32_t \<Rightarrow> psci_power_state_t \<Rightarrow> int \<times> psci_power_state_t) option"
  validate_ns_entrypoint :: "(uintptr_t \<Rightarrow> int) option"
  get_sys_suspend_power_state :: "psci_power_state_t option"
  get_pwr_lvl_state_idx :: "(plat_local_state_t \<Rightarrow> nat \<Rightarrow> nat) option"
  translate_power_state_by_mpidr ::
    "(u_register_t \<Rightarrow> uint32_t \<Rightarrow> psci_power_state_t \<Rightarrow> int \<times> psci_power_state_t) option"
  get_node_hw_state :: "(u_register_t \<Rightarrow> nat \<Rightarrow> int) option"
  mem_protect_chk :: "(uintptr_t \<Rightarrow> u_register_t \<Rightarrow> int) option"
  read_mem_protect :: "(psci_event list \<Rightarrow> int \<times> int) option"
  write_mem_protect :: "(psci_event list \<Rightarrow> int \<Rightarrow> int) option"
  plat_system_reset2 :: "(int \<Rightarrow> uint32_t \<Rightarrow> u_register_t \<Rightarrow> int) option"

record spd_pm_ops_t =
  svc_on :: bool
  svc_off :: "(psci_event list \<Rightarrow> int) option"
  svc_suspend :: bool
  svc_on_finish :: bool
  svc_suspend_finish :: bool
  svc_migrate :: "(psci_event list \<Rightarrow> u_register_t \<Rightarrow> u_register_t \<Rightarrow> int) option"
  svc_migrate_info :: "(psci_event list \<Rightarrow> int \<times> u_register_t) option"
  svc_system_off :: bool
  svc_system_reset :: bool

record psci_env =
  PLAT_MAX_PWR_LVL :: nat
  PLAT_MAX_RET_STATE :: plat_local_state_t
  PLAT_MAX_OFF_STATE :: plat_local_state_t
  PLATFORM_CORE_COUNT :: nat
  PSCI_NUM_NON_CPU_PWR_DOMAINS :: nat
  PLAT_MAX_PWR_LVL_STATES :: nat
  PLAT_MAX_CPU_SUSPEND_PWR_LVL :: "nat option"
  PSCI_OS_INIT_MODE :: bool
  PSCI_EXTENDED_STATE_ID :: bool
  ENABLE_PSCI_STAT :: bool
  ENABLE_ASSERTIONS :: bool
  HW_ASSISTED_COHERENCY :: bool
  psci_plat_pm_ops :: plat_psci_ops_t
  plat_get_target_pwr_state :: "nat \<Rightarrow> plat_local_state_t list \<Rightarrow> nat \<Rightarrow> plat_local_state_t"
  plat_power_domain_tree_desc :: "uint8_t list"
  plat_core_pos_by_mpidr :: "u_register_t \<Rightarrow> int"
  plat_psci_stat_get_residency ::
    "psci_event list \<Rightarrow> nat \<Rightarrow> psci_power_state_t \<Rightarrow> nat \<Rightarrow> u_register_t"
  read_mpidr :: "nat \<Rightarrow> u_register_t"
  read_scr_el3 :: u_register_t
  read_sctlr_el1 :: u_register_t
  read_sctlr_el2 :: u_register_t
  read_isr_el1 :: "psci_event list \<Rightarrow> u_register_t"
  uninitialised_prev :: "plat_local_state_t list"

section \<open>State of the library\<close>

record psci_state =
  psci_non_cpu_pd_nodes :: "non_cpu_pd_node_t list"
  psci_cpu_pd_nodes :: "cpu_pd_node_t list"
  psci_req_local_pwr_states :: "plat_local_state_t list list"
  psci_svc_cpu_data :: "psci_cpu_data_t list"
  psci_plat_core_count :: nat
  psci_caps :: uint32_t
  psci_suspend_mode :: suspend_mode_t
  psci_spd_pm :: "spd_pm_ops_t option"
  psci_ns_context :: "entry_point_info_t option list"
  last_cpu_in_non_cpu_pd :: "nat option list"
  psci_cpu_stat :: "psci_stat_t list list"
  psci_non_cpu_stat :: "psci_stat_t list list"
  events :: "psci_event list"

abbreviation PSCI_INVALID_PWR_LVL :: "psci_env \<Rightarrow> nat" where
  "PSCI_INVALID_PWR_LVL e \<equiv> PLAT_MAX_PWR_LVL e + 1"

definition log_event :: "psci_event \<Rightarrow> psci_state \<Rightarrow> psci_state" where
  "log_event ev s = s\<lparr>events := events s @ [ev]\<rparr>"

definition log_event_if :: "bool \<Rightarrow> psci_event \<Rightarrow> psci_state \<Rightarrow> psci_state" where
  "log_event_if b ev s = (if b then log_event ev s else s)"

text \<open>
  \<open>psci_lock_get\<close> and \<open>psci_lock_release\<close> take the lock named by the node's \<open>lock_index\<close>; the
  CPU node's spinlock is named by the CPU index.
\<close>

definition psci_lock_get :: "nat \<Rightarrow> psci_state \<Rightarrow> psci_state" where
  "psci_lock_get i s = log_event (Lock_get (lock_index (psci_non_cpu_pd_nodes s ! i))) s"

definition psci_lock_release :: "nat \<Rightarrow> psci_state \<Rightarrow> psci_state" where
  "psci_lock_release i s = log_event (Lock_release (lock_index (psci_non_cpu_pd_nodes s ! i))) s"

definition psci_lock_init :: "nat \<Rightarrow> psci_state \<Rightarrow> psci_state" where
  "psci_lock_init i s =
     s\<lparr>psci_non_cpu_pd_nodes :=
         (psci_non_cpu_pd_nodes s)[i := (psci_non_cpu_pd_nodes s ! i)\<lparr>lock_index := i\<rparr>]\<rparr>"

section \<open>Classification of local power states\<close>

definition is_local_state_run :: "plat_local_state_t \<Rightarrow> bool" where
  "is_local_state_run st \<longleftrightarrow> st = PSCI_LOCAL_STATE_RUN"

definition is_local_state_retn :: "psci_env \<Rightarrow> plat_local_state_t \<Rightarrow> bool" where
  "is_local_state_retn e st \<longleftrightarrow> st > PSCI_LOCAL_STATE_RUN \<and> st \<le> PLAT_MAX_RET_STATE e"

definition is_local_state_off :: "psci_env \<Rightarrow> plat_local_state_t \<Rightarrow> bool" where
  "is_local_state_off e st \<longleftrightarrow> st > PLAT_MAX_RET_STATE e \<and> st \<le> PLAT_MAX_OFF_STATE e"

definition find_local_state_type :: "psci_env \<Rightarrow> plat_local_state_t \<Rightarrow> plat_local_state_type_t" where
  "find_local_state_type e state =
     (if state \<noteq> 0 then
        if state > PLAT_MAX_RET_STATE e then STATE_TYPE_OFF else STATE_TYPE_RETN
      else STATE_TYPE_RUN)"

text \<open>The enumerators' numeric values, which the code compares with \<open><\<close>.\<close>

fun state_type_val :: "plat_local_state_type_t \<Rightarrow> nat" where
  "state_type_val STATE_TYPE_RUN = 0"
| "state_type_val STATE_TYPE_RETN = 1"
| "state_type_val STATE_TYPE_OFF = 2"

section \<open>Fields of the power_state parameter\<close>

definition PSTATE_VALID_MASK :: "psci_env \<Rightarrow> uint32_t" where
  "PSTATE_VALID_MASK e = (if PSCI_EXTENDED_STATE_ID e then 0xB0000000 else 0xFCFE0000)"

definition PSTATE_TYPE_SHIFT :: "psci_env \<Rightarrow> nat" where
  "PSTATE_TYPE_SHIFT e = (if PSCI_EXTENDED_STATE_ID e then 30 else 16)"

definition PSTATE_ID_MASK :: "psci_env \<Rightarrow> uint32_t" where
  "PSTATE_ID_MASK e = (if PSCI_EXTENDED_STATE_ID e then 0xfffffff else 0xffff)"

definition psci_get_pstate_id :: "psci_env \<Rightarrow> uint32_t \<Rightarrow> uint32_t" where
  "psci_get_pstate_id e power_state = power_state AND PSTATE_ID_MASK e"

definition psci_get_pstate_type :: "psci_env \<Rightarrow> uint32_t \<Rightarrow> uint32_t" where
  "psci_get_pstate_type e power_state = drop_bit (PSTATE_TYPE_SHIFT e) power_state AND 1"

definition psci_check_power_state :: "psci_env \<Rightarrow> uint32_t \<Rightarrow> uint32_t" where
  "psci_check_power_state e power_state = power_state AND PSTATE_VALID_MASK e"

text \<open>The power level of the original format and the macro that composes a parameter from fields.\<close>

definition psci_get_pstate_pwrlvl :: "uint32_t \<Rightarrow> uint32_t" where
  "psci_get_pstate_pwrlvl pstate = drop_bit 24 pstate AND 3"

definition psci_make_powerstate :: "uint32_t \<Rightarrow> uint32_t \<Rightarrow> uint32_t \<Rightarrow> uint32_t" where
  "psci_make_powerstate state_id type pwrlvl =
     (state_id AND 0xffff) OR push_bit 16 (type AND 1) OR push_bit 24 (pwrlvl AND 3)"

definition define_psci_cap :: "uint32_t \<Rightarrow> uint32_t" where
  "define_psci_cap x = push_bit (unat (x AND 0x1f)) 1"

section \<open>Per-CPU data\<close>

definition upd_cpu_data :: "nat \<Rightarrow> (psci_cpu_data_t \<Rightarrow> psci_cpu_data_t) \<Rightarrow> psci_state \<Rightarrow> psci_state" where
  "upd_cpu_data idx f s =
     s\<lparr>psci_svc_cpu_data := (psci_svc_cpu_data s)[idx := f (psci_svc_cpu_data s ! idx)]\<rparr>"

definition psci_get_aff_info_state_by_idx :: "nat \<Rightarrow> psci_state \<Rightarrow> aff_info_state_t" where
  "psci_get_aff_info_state_by_idx idx s = aff_info_state (psci_svc_cpu_data s ! idx)"

definition psci_set_aff_info_state_by_idx :: "nat \<Rightarrow> aff_info_state_t \<Rightarrow> psci_state \<Rightarrow> psci_state" where
  "psci_set_aff_info_state_by_idx idx st = upd_cpu_data idx (\<lambda>d. d\<lparr>aff_info_state := st\<rparr>)"

text \<open>The variants without an index act on the calling CPU \<open>me\<close>.\<close>

definition psci_get_aff_info_state :: "nat \<Rightarrow> psci_state \<Rightarrow> aff_info_state_t" where
  "psci_get_aff_info_state me s = aff_info_state (psci_svc_cpu_data s ! me)"

definition psci_set_aff_info_state :: "nat \<Rightarrow> aff_info_state_t \<Rightarrow> psci_state \<Rightarrow> psci_state" where
  "psci_set_aff_info_state me st = upd_cpu_data me (\<lambda>d. d\<lparr>aff_info_state := st\<rparr>)"

definition psci_get_suspend_pwrlvl :: "nat \<Rightarrow> psci_state \<Rightarrow> nat" where
  "psci_get_suspend_pwrlvl me s = target_pwrlvl (psci_svc_cpu_data s ! me)"

definition psci_set_suspend_pwrlvl :: "nat \<Rightarrow> nat \<Rightarrow> psci_state \<Rightarrow> psci_state" where
  "psci_set_suspend_pwrlvl me lvl = upd_cpu_data me (\<lambda>d. d\<lparr>target_pwrlvl := lvl\<rparr>)"

definition psci_set_cpu_local_state :: "nat \<Rightarrow> plat_local_state_t \<Rightarrow> psci_state \<Rightarrow> psci_state" where
  "psci_set_cpu_local_state me st = upd_cpu_data me (\<lambda>d. d\<lparr>cpu_local_state := st\<rparr>)"

definition psci_get_cpu_local_state :: "nat \<Rightarrow> psci_state \<Rightarrow> plat_local_state_t" where
  "psci_get_cpu_local_state me s = cpu_local_state (psci_svc_cpu_data s ! me)"

definition psci_get_cpu_local_state_by_idx :: "nat \<Rightarrow> psci_state \<Rightarrow> plat_local_state_t" where
  "psci_get_cpu_local_state_by_idx idx s = cpu_local_state (psci_svc_cpu_data s ! idx)"

definition is_cpu_standby_req :: "uint32_t \<Rightarrow> nat \<Rightarrow> bool" where
  "is_cpu_standby_req is_power_down_state retn_lvl \<longleftrightarrow> is_power_down_state = 0 \<and> retn_lvl = 0"

definition is_valid_mpidr :: "psci_env \<Rightarrow> u_register_t \<Rightarrow> bool" where
  "is_valid_mpidr e m =
     (let pos = plat_core_pos_by_mpidr e m
      in \<not> (pos < 0 \<or> nat pos \<ge> PLATFORM_CORE_COUNT e))"

end
