(* ===== verification/Psci_Common.thy ===== *)
theory Psci_Common
  imports Psci_Types
begin

text \<open>
  The helpers of \<open>lib/psci/psci_common.c\<close>: the power domain tree walk, the requested and target
  local states, state coordination in the platform-coordinated and OS-initiated modes, validation
  of suspend requests, the power domain locks and the non-secure entry point. A C \<open>for\<close> loop that
  climbs the tree is a function recursing on the number of iterations left, with the loop
  variables as arguments.
\<close>

section \<open>Validation hooks\<close>

text \<open>A hook the code asserts to be present, called through a null pointer, is \<open>Assert_failed\<close>.\<close>

definition psci_validate_power_state ::
  "psci_env \<Rightarrow> uint32_t \<Rightarrow> psci_power_state_t \<Rightarrow> (int \<times> psci_power_state_t) outcome" where
  "psci_validate_power_state e power_state state_info =
     (if psci_check_power_state e power_state \<noteq> 0
      then Returned (PSCI_E_INVALID_PARAMS, state_info)
      else (case validate_power_state (psci_plat_pm_ops e) of
              Some f \<Rightarrow> Returned (f power_state state_info)
            | None \<Rightarrow> Assert_failed))"

definition psci_query_sys_suspend_pwrstate :: "psci_env \<Rightarrow> psci_power_state_t outcome" where
  "psci_query_sys_suspend_pwrstate e =
     (case get_sys_suspend_power_state (psci_plat_pm_ops e) of
        Some st \<Rightarrow> Returned st
      | None \<Rightarrow> Assert_failed)"

section \<open>Which CPUs are on\<close>

text \<open>
  The first loop of the C function assigns the same parent at every level. Its assertion that the
  calling CPU is itself marked running is not represented.
\<close>

definition psci_is_last_cpu_to_idle_at_pwrlvl :: "nat \<Rightarrow> nat \<Rightarrow> psci_state \<Rightarrow> bool" where
  "psci_is_last_cpu_to_idle_at_pwrlvl me end_pwrlvl s =
     (if end_pwrlvl = PSCI_CPU_PWR_LVL then True
      else
        let parent_idx = fold (\<lambda>lvl parent_idx. cpu_parent_node (psci_cpu_pd_nodes s ! me))
                              [0..<Suc end_pwrlvl] 0;
            nd = psci_non_cpu_pd_nodes s ! parent_idx
        in list_all (\<lambda>cpu_idx. cpu_idx = me \<or>
                       \<not> is_local_state_run (psci_get_cpu_local_state_by_idx cpu_idx s))
             [cpu_start_idx nd..<cpu_start_idx nd + ncpus nd])"

definition psci_is_last_on_cpu :: "nat \<Rightarrow> psci_state \<Rightarrow> bool" where
  "psci_is_last_on_cpu me s \<longleftrightarrow>
     list_all (\<lambda>cpu_idx. cpu_idx = me \<or> psci_get_aff_info_state_by_idx cpu_idx s = AFF_STATE_OFF)
       [0..<psci_plat_core_count s]"

definition psci_are_all_cpus_on :: "psci_state \<Rightarrow> bool" where
  "psci_are_all_cpus_on s \<longleftrightarrow>
     list_all (\<lambda>cpu_idx. psci_get_aff_info_state_by_idx cpu_idx s \<noteq> AFF_STATE_OFF)
       [0..<psci_plat_core_count s]"

definition get_power_on_target_pwrlvl :: "psci_env \<Rightarrow> nat \<Rightarrow> psci_state \<Rightarrow> nat" where
  "get_power_on_target_pwrlvl e me s =
     (let pwrlvl = psci_get_suspend_pwrlvl me s
      in if pwrlvl = PSCI_INVALID_PWR_LVL e then PLAT_MAX_PWR_LVL e else pwrlvl)"

section \<open>Requested local states\<close>

definition psci_set_req_local_pwr_state ::
  "psci_env \<Rightarrow> nat \<Rightarrow> nat \<Rightarrow> plat_local_state_t \<Rightarrow> psci_state \<Rightarrow> psci_state" where
  "psci_set_req_local_pwr_state e pwrlvl cpu_idx req_pwr_state s =
     (if pwrlvl > PSCI_CPU_PWR_LVL \<and> pwrlvl \<le> PLAT_MAX_PWR_LVL e \<and> cpu_idx < psci_plat_core_count s
      then s\<lparr>psci_req_local_pwr_states :=
               (psci_req_local_pwr_states s)
                 [pwrlvl - 1 := (psci_req_local_pwr_states s ! (pwrlvl - 1))[cpu_idx := req_pwr_state]]\<rparr>
      else s)"

definition psci_init_req_local_pwr_states :: "psci_env \<Rightarrow> psci_state \<Rightarrow> psci_state" where
  "psci_init_req_local_pwr_states e s =
     fold (\<lambda>pwrlvl. fold (\<lambda>core s.
         s\<lparr>psci_req_local_pwr_states :=
             (psci_req_local_pwr_states s)
               [pwrlvl := (psci_req_local_pwr_states s ! pwrlvl)[core := PLAT_MAX_OFF_STATE e]]\<rparr>)
         [0..<psci_plat_core_count s])
       [0..<PLAT_MAX_PWR_LVL e] s"

text \<open>The C function returns a pointer into the array; here it is the rest of the row from there on.\<close>

definition psci_get_req_local_pwr_states ::
  "psci_env \<Rightarrow> nat \<Rightarrow> nat \<Rightarrow> psci_state \<Rightarrow> plat_local_state_t list option" where
  "psci_get_req_local_pwr_states e pwrlvl cpu_idx s =
     (if pwrlvl > PSCI_CPU_PWR_LVL \<and> pwrlvl \<le> PLAT_MAX_PWR_LVL e \<and> cpu_idx < psci_plat_core_count s
      then Some (drop cpu_idx (psci_req_local_pwr_states s ! (pwrlvl - 1)))
      else None)"

definition suspend_max_pwrlvl :: "psci_env \<Rightarrow> nat" where
  "suspend_max_pwrlvl e =
     (case PLAT_MAX_CPU_SUSPEND_PWR_LVL e of Some m \<Rightarrow> m | None \<Rightarrow> PLAT_MAX_PWR_LVL e)"

definition psci_update_req_local_pwr_states ::
  "psci_env \<Rightarrow> nat \<Rightarrow> nat \<Rightarrow> psci_power_state_t \<Rightarrow> psci_state \<Rightarrow> plat_local_state_t list \<times> psci_state" where
  "psci_update_req_local_pwr_states e end_pwrlvl cpu_idx state_info s =
     fold (\<lambda>lvl (prev, s).
         (prev @ [hd (the (psci_get_req_local_pwr_states e lvl cpu_idx s))],
          psci_set_req_local_pwr_state e lvl cpu_idx
            (if lvl \<le> end_pwrlvl then pwr_domain_state state_info ! lvl
             else pwr_domain_state state_info ! end_pwrlvl) s))
       [1..<Suc (suspend_max_pwrlvl e)] ([], s)"

definition psci_restore_req_local_pwr_states ::
  "psci_env \<Rightarrow> nat \<Rightarrow> plat_local_state_t list \<Rightarrow> psci_state \<Rightarrow> psci_state" where
  "psci_restore_req_local_pwr_states e cpu_idx prev s =
     fold (\<lambda>lvl. psci_set_req_local_pwr_state e lvl cpu_idx (prev ! (lvl - 1)))
       [1..<Suc (suspend_max_pwrlvl e)] s"

section \<open>Local states of the power domain nodes\<close>

definition get_non_cpu_pd_node_local_state :: "nat \<Rightarrow> psci_state \<Rightarrow> plat_local_state_t" where
  "get_non_cpu_pd_node_local_state parent_idx s = nd_local_state (psci_non_cpu_pd_nodes s ! parent_idx)"

definition set_non_cpu_pd_node_local_state ::
  "nat \<Rightarrow> plat_local_state_t \<Rightarrow> psci_state \<Rightarrow> psci_state" where
  "set_non_cpu_pd_node_local_state parent_idx state s =
     s\<lparr>psci_non_cpu_pd_nodes :=
         (psci_non_cpu_pd_nodes s)
           [parent_idx := (psci_non_cpu_pd_nodes s ! parent_idx)\<lparr>nd_local_state := state\<rparr>]\<rparr>"

fun get_target_loop :: "psci_state \<Rightarrow> nat \<Rightarrow> nat \<Rightarrow> plat_local_state_t list" where
  "get_target_loop s 0 parent_idx = []"
| "get_target_loop s (Suc n) parent_idx =
     get_non_cpu_pd_node_local_state parent_idx s
       # get_target_loop s n (parent_of (psci_non_cpu_pd_nodes s ! parent_idx))"

definition psci_get_target_local_pwr_states ::
  "psci_env \<Rightarrow> nat \<Rightarrow> nat \<Rightarrow> psci_power_state_t \<Rightarrow> psci_state \<Rightarrow> psci_power_state_t" where
  "psci_get_target_local_pwr_states e me end_pwrlvl target_state s =
     target_state\<lparr>pwr_domain_state :=
       psci_get_cpu_local_state me s
         # get_target_loop s end_pwrlvl (cpu_parent_node (psci_cpu_pd_nodes s ! me))
         @ replicate (PLAT_MAX_PWR_LVL e - end_pwrlvl) PSCI_LOCAL_STATE_RUN\<rparr>"

fun set_target_loop ::
  "plat_local_state_t list \<Rightarrow> nat \<Rightarrow> nat \<Rightarrow> nat \<Rightarrow> psci_state \<Rightarrow> psci_state" where
  "set_target_loop pd_state 0 lvl parent_idx s = s"
| "set_target_loop pd_state (Suc n) lvl parent_idx s =
     (let s = set_non_cpu_pd_node_local_state parent_idx (pd_state ! lvl) s
      in set_target_loop pd_state n (Suc lvl)
           (parent_of (psci_non_cpu_pd_nodes s ! parent_idx)) s)"

definition psci_set_target_local_pwr_states ::
  "nat \<Rightarrow> nat \<Rightarrow> psci_power_state_t \<Rightarrow> psci_state \<Rightarrow> psci_state" where
  "psci_set_target_local_pwr_states me end_pwrlvl target_state s =
     (let pd_state = pwr_domain_state target_state;
          s = psci_set_cpu_local_state me (pd_state ! PSCI_CPU_PWR_LVL) s
      in set_target_loop pd_state end_pwrlvl 1 (cpu_parent_node (psci_cpu_pd_nodes s ! me)) s)"

fun parent_nodes_loop :: "psci_state \<Rightarrow> nat \<Rightarrow> nat \<Rightarrow> nat list" where
  "parent_nodes_loop s 0 parent_node_idx = []"
| "parent_nodes_loop s (Suc n) parent_node_idx =
     parent_node_idx # parent_nodes_loop s n (parent_of (psci_non_cpu_pd_nodes s ! parent_node_idx))"

definition psci_get_parent_pwr_domain_nodes :: "nat \<Rightarrow> nat \<Rightarrow> psci_state \<Rightarrow> nat list" where
  "psci_get_parent_pwr_domain_nodes cpu_idx end_lvl s =
     parent_nodes_loop s end_lvl (cpu_parent_node (psci_cpu_pd_nodes s ! cpu_idx))"

fun set_run_loop :: "psci_env \<Rightarrow> nat \<Rightarrow> nat \<Rightarrow> nat \<Rightarrow> nat \<Rightarrow> psci_state \<Rightarrow> psci_state" where
  "set_run_loop e cpu_idx 0 lvl parent_idx s = s"
| "set_run_loop e cpu_idx (Suc n) lvl parent_idx s =
     (let s = set_non_cpu_pd_node_local_state parent_idx PSCI_LOCAL_STATE_RUN s;
          s = psci_set_req_local_pwr_state e lvl cpu_idx PSCI_LOCAL_STATE_RUN s
      in set_run_loop e cpu_idx n (Suc lvl) (parent_of (psci_non_cpu_pd_nodes s ! parent_idx)) s)"

definition psci_set_pwr_domains_to_run :: "psci_env \<Rightarrow> nat \<Rightarrow> nat \<Rightarrow> psci_state \<Rightarrow> psci_state" where
  "psci_set_pwr_domains_to_run e me end_pwrlvl s =
     (let s = set_run_loop e me end_pwrlvl 1 (cpu_parent_node (psci_cpu_pd_nodes s ! me)) s;
          s = psci_set_aff_info_state me AFF_STATE_ON s
      in psci_set_cpu_local_state me PSCI_LOCAL_STATE_RUN s)"

section \<open>State coordination\<close>

text \<open>
  The first loop of \<open>psci_do_state_coordination\<close>; the level at which it stops is returned, as the
  second loop starts one above it.
\<close>

fun coordination_loop ::
  "psci_env \<Rightarrow> nat \<Rightarrow> nat \<Rightarrow> nat \<Rightarrow> nat \<Rightarrow> psci_power_state_t \<Rightarrow> psci_state
     \<Rightarrow> nat \<times> psci_power_state_t \<times> psci_state" where
  "coordination_loop e cpu_idx 0 lvl parent_idx state_info s = (lvl, state_info, s)"
| "coordination_loop e cpu_idx (Suc n) lvl parent_idx state_info s =
     (let s = psci_set_req_local_pwr_state e lvl cpu_idx (pwr_domain_state state_info ! lvl) s;
          nd = psci_non_cpu_pd_nodes s ! parent_idx;
          req_states = psci_get_req_local_pwr_states e lvl (cpu_start_idx nd) s;
          target_state = plat_get_target_pwr_state e lvl (the req_states) (ncpus nd);
          state_info = state_info\<lparr>pwr_domain_state :=
                         (pwr_domain_state state_info)[lvl := target_state]\<rparr>
      in if is_local_state_run (pwr_domain_state state_info ! lvl) then (lvl, state_info, s)
         else coordination_loop e cpu_idx n (Suc lvl) (parent_of nd) state_info s)"

definition psci_do_state_coordination ::
  "psci_env \<Rightarrow> nat \<Rightarrow> nat \<Rightarrow> psci_power_state_t \<Rightarrow> psci_state \<Rightarrow> psci_power_state_t \<times> psci_state" where
  "psci_do_state_coordination e me end_pwrlvl state_info s =
     (let (lvl, state_info, s) =
            coordination_loop e me end_pwrlvl 1 (cpu_parent_node (psci_cpu_pd_nodes s ! me)) state_info s
      in fold (\<lambda>lvl (state_info, s).
             (state_info\<lparr>pwr_domain_state :=
                (pwr_domain_state state_info)[lvl := PSCI_LOCAL_STATE_RUN]\<rparr>,
              psci_set_req_local_pwr_state e lvl me (pwr_domain_state state_info ! lvl) s))
           [Suc lvl..<Suc end_pwrlvl] (state_info, s))"

text \<open>
  The loop of \<open>psci_validate_state_coordination\<close>. The node index it reads is the one it was
  called with, at every level: the C loop does not move \<open>parent_idx\<close>.
\<close>

fun validate_coordination_loop ::
  "psci_env \<Rightarrow> nat \<Rightarrow> nat \<Rightarrow> nat \<Rightarrow> psci_power_state_t \<Rightarrow> psci_state \<Rightarrow> int" where
  "validate_coordination_loop e 0 lvl parent_idx state_info s = PSCI_E_SUCCESS"
| "validate_coordination_loop e (Suc n) lvl parent_idx state_info s =
     (let nd = psci_non_cpu_pd_nodes s ! parent_idx;
          req_states = psci_get_req_local_pwr_states e lvl (cpu_start_idx nd) s;
          target_state = plat_get_target_pwr_state e lvl (the req_states) (ncpus nd)
      in if pwr_domain_state state_info ! lvl \<noteq> target_state then
           if target_state = PSCI_LOCAL_STATE_RUN then PSCI_E_DENIED else PSCI_E_INVALID_PARAMS
         else validate_coordination_loop e n (Suc lvl) parent_idx state_info s)"

definition psci_validate_state_coordination ::
  "psci_env \<Rightarrow> nat \<Rightarrow> nat \<Rightarrow> psci_power_state_t \<Rightarrow> psci_state \<Rightarrow> int \<times> psci_state" where
  "psci_validate_state_coordination e me end_pwrlvl state_info s =
     (let (prev, s) = psci_update_req_local_pwr_states e end_pwrlvl me state_info s;
          rc = validate_coordination_loop e end_pwrlvl 1
                 (cpu_parent_node (psci_cpu_pd_nodes s ! me)) state_info s;
          rc = (if rc = PSCI_E_SUCCESS
                   \<and> \<not> psci_is_last_cpu_to_idle_at_pwrlvl me (last_at_pwrlvl state_info) s
                then PSCI_E_DENIED else rc)
      in if rc \<noteq> PSCI_E_SUCCESS then (rc, psci_restore_req_local_pwr_states e me prev s) else (rc, s))"

section \<open>Suspend requests\<close>

text \<open>\<open>for (i = n; i >= 0; i--) if (P i) return i;\<close>\<close>

fun find_down :: "(nat \<Rightarrow> bool) \<Rightarrow> nat \<Rightarrow> nat option" where
  "find_down P 0 = (if P 0 then Some 0 else None)"
| "find_down P (Suc i) = (if P (Suc i) then Some (Suc i) else find_down P i)"

definition psci_find_max_off_lvl :: "psci_env \<Rightarrow> psci_power_state_t \<Rightarrow> nat" where
  "psci_find_max_off_lvl e state_info =
     (case find_down (\<lambda>i. is_local_state_off e (pwr_domain_state state_info ! i)) (PLAT_MAX_PWR_LVL e) of
        Some i \<Rightarrow> i | None \<Rightarrow> PSCI_INVALID_PWR_LVL e)"

definition psci_find_target_suspend_lvl :: "psci_env \<Rightarrow> psci_power_state_t \<Rightarrow> nat" where
  "psci_find_target_suspend_lvl e state_info =
     (case find_down (\<lambda>i. \<not> is_local_state_run (pwr_domain_state state_info ! i)) (PLAT_MAX_PWR_LVL e) of
        Some i \<Rightarrow> i | None \<Rightarrow> PSCI_INVALID_PWR_LVL e)"

text \<open>The levels are visited from \<open>i\<close> down to 0; \<open>False\<close> is the early return of an error.\<close>

fun deeper_downwards :: "psci_env \<Rightarrow> psci_power_state_t \<Rightarrow> plat_local_state_type_t \<Rightarrow> nat \<Rightarrow> bool" where
  "deeper_downwards e state_info deepest 0 =
     (\<not> state_type_val (find_local_state_type e (pwr_domain_state state_info ! 0)) < state_type_val deepest)"
| "deeper_downwards e state_info deepest (Suc i) =
     (let req_state_type = find_local_state_type e (pwr_domain_state state_info ! Suc i)
      in if state_type_val req_state_type < state_type_val deepest then False
         else deeper_downwards e state_info req_state_type i)"

definition psci_validate_suspend_req :: "psci_env \<Rightarrow> psci_power_state_t \<Rightarrow> uint32_t \<Rightarrow> int" where
  "psci_validate_suspend_req e state_info is_power_down_state =
     (let target_lvl = psci_find_target_suspend_lvl e state_info
      in if target_lvl = PSCI_INVALID_PWR_LVL e then PSCI_E_INVALID_PARAMS
         else if \<not> deeper_downwards e state_info STATE_TYPE_RUN target_lvl then PSCI_E_INVALID_PARAMS
         else
           let max_off_lvl = psci_find_max_off_lvl e state_info;
               max_retn_lvl = (if target_lvl \<noteq> max_off_lvl then target_lvl else PSCI_INVALID_PWR_LVL e)
           in if is_power_down_state = 0
                 \<and> (max_off_lvl \<noteq> PSCI_INVALID_PWR_LVL e \<or> max_retn_lvl = PSCI_INVALID_PWR_LVL e)
              then PSCI_E_INVALID_PARAMS else PSCI_E_SUCCESS)"

section \<open>Power domain locks\<close>

definition psci_acquire_pwr_domain_locks :: "nat \<Rightarrow> nat list \<Rightarrow> psci_state \<Rightarrow> psci_state" where
  "psci_acquire_pwr_domain_locks end_pwrlvl parent_nodes s =
     fold (\<lambda>level. psci_lock_get (parent_nodes ! (level - 1))) [1..<Suc end_pwrlvl] s"

definition psci_release_pwr_domain_locks :: "nat \<Rightarrow> nat list \<Rightarrow> psci_state \<Rightarrow> psci_state" where
  "psci_release_pwr_domain_locks end_pwrlvl parent_nodes s =
     fold (\<lambda>level. psci_lock_release (parent_nodes ! (level - 1))) (rev [1..<Suc end_pwrlvl]) s"

definition psci_is_last_on_cpu_safe :: "psci_env \<Rightarrow> nat \<Rightarrow> psci_state \<Rightarrow> bool \<times> psci_state" where
  "psci_is_last_on_cpu_safe e me s =
     (let parent_nodes = psci_get_parent_pwr_domain_nodes me (PLAT_MAX_PWR_LVL e) s;
          s = psci_acquire_pwr_domain_locks (PLAT_MAX_PWR_LVL e) parent_nodes s
      in if \<not> psci_is_last_on_cpu me s
         then (False, psci_release_pwr_domain_locks (PLAT_MAX_PWR_LVL e) parent_nodes s)
         else (True, psci_release_pwr_domain_locks (PLAT_MAX_PWR_LVL e) parent_nodes s))"

definition psci_are_all_cpus_on_safe :: "psci_env \<Rightarrow> nat \<Rightarrow> psci_state \<Rightarrow> bool \<times> psci_state" where
  "psci_are_all_cpus_on_safe e me s =
     (let parent_nodes = psci_get_parent_pwr_domain_nodes me (PLAT_MAX_PWR_LVL e) s;
          s = psci_acquire_pwr_domain_locks (PLAT_MAX_PWR_LVL e) parent_nodes s
      in if \<not> psci_are_all_cpus_on s
         then (False, psci_release_pwr_domain_locks (PLAT_MAX_PWR_LVL e) parent_nodes s)
         else (True, psci_release_pwr_domain_locks (PLAT_MAX_PWR_LVL e) parent_nodes s))"

section \<open>Non-secure entry point\<close>

definition SPSR_64 :: "uint64_t \<Rightarrow> uint64_t \<Rightarrow> uint64_t \<Rightarrow> uint64_t" where
  "SPSR_64 el sp daif =
     (push_bit 2 (el AND 3) OR (sp AND 1) OR push_bit 6 (daif AND 0xf)) AND NOT (push_bit 12 1)"

definition SPSR_MODE32 :: "uint64_t \<Rightarrow> uint64_t \<Rightarrow> uint64_t \<Rightarrow> uint64_t \<Rightarrow> uint64_t" where
  "SPSR_MODE32 mode isa endian aif =
     (push_bit 4 1 OR (mode AND 0xf) OR push_bit 5 (isa AND 1) OR push_bit 9 (endian AND 1)
        OR push_bit 6 (aif AND 7)) AND NOT (push_bit 23 1)"

definition SCR_HCE_BIT :: u_register_t where "SCR_HCE_BIT = push_bit 8 1"
definition SCR_RW_BIT :: u_register_t where "SCR_RW_BIT = push_bit 10 1"
definition SCTLR_EE_BIT :: u_register_t where "SCTLR_EE_BIT = push_bit 25 1"

definition psci_get_ns_ep_info ::
  "psci_env \<Rightarrow> uintptr_t \<Rightarrow> u_register_t \<Rightarrow> int \<times> entry_point_info_t" where
  "psci_get_ns_ep_info e entrypoint context_id =
     (let hce = (read_scr_el3 e AND SCR_HCE_BIT \<noteq> 0);
          sctlr = (if hce then read_sctlr_el2 e else read_sctlr_el1 e);
          big = (sctlr AND SCTLR_EE_BIT \<noteq> 0);
          ee = (if big then 1 else 0);
          ep = \<lparr>ep_attr = (if big then 1 OR 2 else 1), ep_pc = entrypoint, ep_spsr = 0,
                ep_arg0 = context_id\<rparr>
      in if read_scr_el3 e AND SCR_RW_BIT \<noteq> 0 then
           if entrypoint AND 1 \<noteq> 0 then (PSCI_E_INVALID_ADDRESS, ep)
           else (PSCI_E_SUCCESS, ep\<lparr>ep_spsr := ucast (SPSR_64 (if hce then 2 else 1) 1 0xf)\<rparr>)
         else
           (PSCI_E_SUCCESS,
            ep\<lparr>ep_spsr := ucast (SPSR_MODE32 (if hce then 0xa else 3) (entrypoint AND 1) ee 7)\<rparr>))"

definition psci_validate_entry_point ::
  "psci_env \<Rightarrow> uintptr_t \<Rightarrow> u_register_t \<Rightarrow> int \<times> entry_point_info_t" where
  "psci_validate_entry_point e entrypoint context_id =
     (let ep0 = \<lparr>ep_attr = 0, ep_pc = 0, ep_spsr = 0, ep_arg0 = 0\<rparr>
      in case validate_ns_entrypoint (psci_plat_pm_ops e) of
           Some f \<Rightarrow> if f entrypoint \<noteq> PSCI_E_SUCCESS then (PSCI_E_INVALID_ADDRESS, ep0)
                     else psci_get_ns_ep_info e entrypoint context_id
         | None \<Rightarrow> psci_get_ns_ep_info e entrypoint context_id)"

end
