(* ===== verification/Psci_Tree.thy ===== *)
theory Psci_Tree
  imports Psci_Common
begin

text \<open>
  The power domain tree as the PSCI helpers see it: the ancestor of a CPU at each level, the
  well-formedness of the node arrays, and for every loop of \<open>psci_common.c\<close> that climbs the tree a
  lemma that says what it reads or writes in terms of ancestors. Depth \<open>k\<close> below is power level
  \<open>Suc k\<close>.
\<close>

section \<open>Ancestors and the shape of the tree\<close>

fun psci_ancestor :: "psci_state \<Rightarrow> nat \<Rightarrow> nat \<Rightarrow> nat" where
  "psci_ancestor s c 0 = cpu_parent_node (psci_cpu_pd_nodes s ! c)"
| "psci_ancestor s c (Suc k) = parent_of (psci_non_cpu_pd_nodes s ! psci_ancestor s c k)"

text \<open>Everything about the tree that no run-time operation changes.\<close>

definition psci_topology ::
  "psci_state \<Rightarrow> (nat \<times> nat \<times> nat \<times> nat \<times> nat) list \<times> nat list \<times> nat" where
  "psci_topology s =
     (map (\<lambda>nd. (cpu_start_idx nd, ncpus nd, parent_of nd, nd_level nd, lock_index nd))
          (psci_non_cpu_pd_nodes s),
      map cpu_parent_node (psci_cpu_pd_nodes s),
      psci_plat_core_count s)"

definition node_state :: "psci_state \<Rightarrow> nat \<Rightarrow> plat_local_state_t" where
  "node_state s i = nd_local_state (psci_non_cpu_pd_nodes s ! i)"

definition req_state :: "psci_state \<Rightarrow> nat \<Rightarrow> nat \<Rightarrow> plat_local_state_t" where
  "req_state s k c = psci_req_local_pwr_states s ! k ! c"

text \<open>
  The node of depth \<open>k\<close> above CPU \<open>c\<close> exists, records its level and its own index as lock, covers
  exactly the CPUs that have it as ancestor, and lies before the node below it in the array.
\<close>

definition ancestor_ok :: "psci_env \<Rightarrow> psci_state \<Rightarrow> nat \<Rightarrow> nat \<Rightarrow> bool" where
  "ancestor_ok e s c k =
     (let a = psci_ancestor s c k; nd = psci_non_cpu_pd_nodes s ! a
      in a < length (psci_non_cpu_pd_nodes s)
         \<and> nd_level nd = Suc k \<and> lock_index nd = a
         \<and> cpu_start_idx nd \<le> c \<and> c < cpu_start_idx nd + ncpus nd
         \<and> cpu_start_idx nd + ncpus nd \<le> psci_plat_core_count s
         \<and> list_all (\<lambda>c'. psci_ancestor s c' k = a) [cpu_start_idx nd..<cpu_start_idx nd + ncpus nd]
         \<and> (Suc k < PLAT_MAX_PWR_LVL e \<longrightarrow> psci_ancestor s c (Suc k) < a))"

definition psci_wf :: "psci_env \<Rightarrow> psci_state \<Rightarrow> bool" where
  "psci_wf e s \<longleftrightarrow>
     length (psci_non_cpu_pd_nodes s) = PSCI_NUM_NON_CPU_PWR_DOMAINS e
     \<and> length (psci_cpu_pd_nodes s) = PLATFORM_CORE_COUNT e
     \<and> length (psci_svc_cpu_data s) = PLATFORM_CORE_COUNT e
     \<and> length (psci_ns_context s) = PLATFORM_CORE_COUNT e
     \<and> length (psci_req_local_pwr_states s) = PLAT_MAX_PWR_LVL e
     \<and> list_all (\<lambda>row. length row = PLATFORM_CORE_COUNT e) (psci_req_local_pwr_states s)
     \<and> psci_plat_core_count s \<le> PLATFORM_CORE_COUNT e
     \<and> list_all (\<lambda>c. list_all (ancestor_ok e s c) [0..<PLAT_MAX_PWR_LVL e]) [0..<psci_plat_core_count s]"

section \<open>Operations keep the topology\<close>

lemma nth_beyond: "length xs \<le> n \<Longrightarrow> xs ! n = [] ! (n - length xs)"
proof (induction xs arbitrary: n)
  case (Cons x xs)
  then show ?case by (cases n) auto
qed simp

lemma map_eq_nth: "map f xs = map f ys \<Longrightarrow> f (xs ! i) = f (ys ! i)"
  by (cases "i < length xs") (metis map_eq_imp_length_eq nth_map nth_beyond not_less)+

lemma topology_nodes:
  assumes "psci_topology s = psci_topology t"
  shows "cpu_start_idx (psci_non_cpu_pd_nodes s ! i) = cpu_start_idx (psci_non_cpu_pd_nodes t ! i)"
    and "ncpus (psci_non_cpu_pd_nodes s ! i) = ncpus (psci_non_cpu_pd_nodes t ! i)"
    and "parent_of (psci_non_cpu_pd_nodes s ! i) = parent_of (psci_non_cpu_pd_nodes t ! i)"
    and "nd_level (psci_non_cpu_pd_nodes s ! i) = nd_level (psci_non_cpu_pd_nodes t ! i)"
    and "lock_index (psci_non_cpu_pd_nodes s ! i) = lock_index (psci_non_cpu_pd_nodes t ! i)"
    and "cpu_parent_node (psci_cpu_pd_nodes s ! i) = cpu_parent_node (psci_cpu_pd_nodes t ! i)"
    and "psci_plat_core_count s = psci_plat_core_count t"
    and "length (psci_non_cpu_pd_nodes s) = length (psci_non_cpu_pd_nodes t)"
    and "length (psci_cpu_pd_nodes s) = length (psci_cpu_pd_nodes t)"
proof -
  from assms have m: "map (\<lambda>nd. (cpu_start_idx nd, ncpus nd, parent_of nd, nd_level nd, lock_index nd))
          (psci_non_cpu_pd_nodes s) =
        map (\<lambda>nd. (cpu_start_idx nd, ncpus nd, parent_of nd, nd_level nd, lock_index nd))
          (psci_non_cpu_pd_nodes t)"
    and p: "map cpu_parent_node (psci_cpu_pd_nodes s) = map cpu_parent_node (psci_cpu_pd_nodes t)"
    and n: "psci_plat_core_count s = psci_plat_core_count t"
    by (auto simp: psci_topology_def)
  from map_eq_nth [OF m, of i] show
    "cpu_start_idx (psci_non_cpu_pd_nodes s ! i) = cpu_start_idx (psci_non_cpu_pd_nodes t ! i)"
    "ncpus (psci_non_cpu_pd_nodes s ! i) = ncpus (psci_non_cpu_pd_nodes t ! i)"
    "parent_of (psci_non_cpu_pd_nodes s ! i) = parent_of (psci_non_cpu_pd_nodes t ! i)"
    "nd_level (psci_non_cpu_pd_nodes s ! i) = nd_level (psci_non_cpu_pd_nodes t ! i)"
    "lock_index (psci_non_cpu_pd_nodes s ! i) = lock_index (psci_non_cpu_pd_nodes t ! i)"
    by simp_all
  from map_eq_nth [OF p] show
    "cpu_parent_node (psci_cpu_pd_nodes s ! i) = cpu_parent_node (psci_cpu_pd_nodes t ! i)" .
  from n show "psci_plat_core_count s = psci_plat_core_count t" .
  from map_eq_imp_length_eq [OF m]
  show "length (psci_non_cpu_pd_nodes s) = length (psci_non_cpu_pd_nodes t)" .
  from map_eq_imp_length_eq [OF p]
  show "length (psci_cpu_pd_nodes s) = length (psci_cpu_pd_nodes t)" .
qed

lemma topology_ancestor:
  assumes "psci_topology s = psci_topology t"
  shows "psci_ancestor s c k = psci_ancestor t c k"
  by (induction k) (simp_all add: topology_nodes [OF assms])

lemma topology_set_node [simp]:
  "psci_topology (set_non_cpu_pd_node_local_state i st s) = psci_topology s"
  by (cases "i < length (psci_non_cpu_pd_nodes s)")
    (auto simp: psci_topology_def set_non_cpu_pd_node_local_state_def map_update list_update_beyond
      intro!: nth_equalityI simp: nth_list_update)

text \<open>The shape adds the sizes of the run-time arrays; well-formedness depends on nothing else.\<close>

definition psci_shape where
  "psci_shape s =
     (psci_topology s, length (psci_svc_cpu_data s), length (psci_ns_context s),
      map length (psci_req_local_pwr_states s))"

lemma shape_topology: "psci_shape s = psci_shape t \<Longrightarrow> psci_topology s = psci_topology t"
  by (simp add: psci_shape_def)

lemma ancestor_ok_topology:
  assumes "psci_topology s = psci_topology t"
  shows "ancestor_ok e s = ancestor_ok e t"
  by (intro ext) (simp only: ancestor_ok_def Let_def topology_ancestor [OF assms] topology_nodes [OF assms])

lemma wf_shape:
  assumes "psci_shape s = psci_shape t"
  shows "psci_wf e s = psci_wf e t"
proof -
  note top = shape_topology [OF assms]
  have rows: "map length (psci_req_local_pwr_states s) = map length (psci_req_local_pwr_states t)"
    using assms by (simp add: psci_shape_def)
  have "list_all (\<lambda>row. length row = n) (psci_req_local_pwr_states s) =
        list_all (\<lambda>row. length row = n) (psci_req_local_pwr_states t)" for n
    using arg_cong [OF rows, of "list_all (\<lambda>m. m = n)"] by (simp add: list.pred_map comp_def)
  moreover have "length (psci_req_local_pwr_states s) = length (psci_req_local_pwr_states t)"
    using rows by (rule map_eq_imp_length_eq)
  moreover have "length (psci_svc_cpu_data s) = length (psci_svc_cpu_data t)"
    "length (psci_ns_context s) = length (psci_ns_context t)"
    using assms by (simp_all add: psci_shape_def)
  ultimately show ?thesis
    by (simp only: psci_wf_def ancestor_ok_topology [OF top] topology_nodes [OF top])
qed

lemma map_length_update: "map length (R[k := (R ! k)[c := v]]) = map length R"
  by (cases "k < length R") (auto simp: map_update list_update_beyond intro!: nth_equalityI
      simp: nth_list_update)

lemma shape_simps [simp]:
  "psci_shape (log_event ev s) = psci_shape s"
  "psci_shape (log_event_if b ev s) = psci_shape s"
  "psci_shape (psci_lock_get i s) = psci_shape s"
  "psci_shape (psci_lock_release i s) = psci_shape s"
  "psci_shape (upd_cpu_data c f s) = psci_shape s"
  "psci_shape (psci_set_req_local_pwr_state e l c st s) = psci_shape s"
  "psci_shape (set_non_cpu_pd_node_local_state i st s) = psci_shape s"
proof -
  show "psci_shape (set_non_cpu_pd_node_local_state i st s) = psci_shape s"
    using topology_set_node [of i st s]
    by (simp add: psci_shape_def set_non_cpu_pd_node_local_state_def del: topology_set_node)
qed (simp_all add: psci_shape_def psci_topology_def log_event_def log_event_if_def psci_lock_get_def
      psci_lock_release_def upd_cpu_data_def psci_set_req_local_pwr_state_def map_length_update)

section \<open>Read-after-write laws\<close>

definition cpu_aff :: "psci_state \<Rightarrow> nat \<Rightarrow> aff_info_state_t" where
  "cpu_aff s c = aff_info_state (psci_svc_cpu_data s ! c)"

definition cpu_lvl :: "psci_state \<Rightarrow> nat \<Rightarrow> nat" where
  "cpu_lvl s c = target_pwrlvl (psci_svc_cpu_data s ! c)"

definition cpu_st :: "psci_state \<Rightarrow> nat \<Rightarrow> plat_local_state_t" where
  "cpu_st s c = cpu_local_state (psci_svc_cpu_data s ! c)"

lemma getters [simp]:
  "psci_get_aff_info_state_by_idx c s = cpu_aff s c"
  "psci_get_aff_info_state c s = cpu_aff s c"
  "psci_get_suspend_pwrlvl c s = cpu_lvl s c"
  "psci_get_cpu_local_state c s = cpu_st s c"
  "psci_get_cpu_local_state_by_idx c s = cpu_st s c"
  "get_non_cpu_pd_node_local_state i s = node_state s i"
  by (simp_all add: psci_get_aff_info_state_by_idx_def psci_get_aff_info_state_def cpu_aff_def
      psci_get_suspend_pwrlvl_def cpu_lvl_def psci_get_cpu_local_state_def
      psci_get_cpu_local_state_by_idx_def cpu_st_def get_non_cpu_pd_node_local_state_def node_state_def)

lemma upd_cpu_data_views [simp]:
  "node_state (upd_cpu_data c f s) i = node_state s i"
  "req_state (upd_cpu_data c f s) k c' = req_state s k c'"
  by (simp_all add: upd_cpu_data_def node_state_def req_state_def)

text \<open>The CPU-data views after a write, for a CPU index in range.\<close>

lemma cpu_views_setters:
  assumes "c < length (psci_svc_cpu_data s)"
  shows "cpu_aff (psci_set_aff_info_state_by_idx c st s) c' = (if c = c' then st else cpu_aff s c')"
    and "cpu_lvl (psci_set_aff_info_state_by_idx c st s) c' = cpu_lvl s c'"
    and "cpu_st (psci_set_aff_info_state_by_idx c st s) c' = cpu_st s c'"
    and "cpu_aff (psci_set_aff_info_state c st s) c' = (if c = c' then st else cpu_aff s c')"
    and "cpu_lvl (psci_set_aff_info_state c st s) c' = cpu_lvl s c'"
    and "cpu_st (psci_set_aff_info_state c st s) c' = cpu_st s c'"
    and "cpu_aff (psci_set_suspend_pwrlvl c l s) c' = cpu_aff s c'"
    and "cpu_lvl (psci_set_suspend_pwrlvl c l s) c' = (if c = c' then l else cpu_lvl s c')"
    and "cpu_st (psci_set_suspend_pwrlvl c l s) c' = cpu_st s c'"
    and "cpu_aff (psci_set_cpu_local_state c x s) c' = cpu_aff s c'"
    and "cpu_lvl (psci_set_cpu_local_state c x s) c' = cpu_lvl s c'"
    and "cpu_st (psci_set_cpu_local_state c x s) c' = (if c = c' then x else cpu_st s c')"
  using assms
  by (auto simp: cpu_aff_def cpu_lvl_def cpu_st_def psci_set_aff_info_state_by_idx_def
      psci_set_aff_info_state_def psci_set_suspend_pwrlvl_def psci_set_cpu_local_state_def
      upd_cpu_data_def nth_list_update)

lemma setters_frame [simp]:
  "psci_shape (psci_set_aff_info_state_by_idx c st s) = psci_shape s"
  "psci_shape (psci_set_aff_info_state c st s) = psci_shape s"
  "psci_shape (psci_set_suspend_pwrlvl c l s) = psci_shape s"
  "psci_shape (psci_set_cpu_local_state c x s) = psci_shape s"
  "node_state (psci_set_aff_info_state_by_idx c st s) i = node_state s i"
  "node_state (psci_set_aff_info_state c st s) i = node_state s i"
  "node_state (psci_set_suspend_pwrlvl c l s) i = node_state s i"
  "node_state (psci_set_cpu_local_state c x s) i = node_state s i"
  "req_state (psci_set_aff_info_state_by_idx c st s) k c' = req_state s k c'"
  "req_state (psci_set_aff_info_state c st s) k c' = req_state s k c'"
  "req_state (psci_set_suspend_pwrlvl c l s) k c' = req_state s k c'"
  "req_state (psci_set_cpu_local_state c x s) k c' = req_state s k c'"
  by (simp_all add: psci_set_aff_info_state_by_idx_def psci_set_aff_info_state_def
      psci_set_suspend_pwrlvl_def psci_set_cpu_local_state_def)

text \<open>Logging changes no view; writing a node or a request changes no CPU data.\<close>

lemma log_views [simp]:
  "node_state (log_event ev s) i = node_state s i"
  "req_state (log_event ev s) k c = req_state s k c"
  "cpu_aff (log_event ev s) c = cpu_aff s c"
  "cpu_lvl (log_event ev s) c = cpu_lvl s c"
  "cpu_st (log_event ev s) c = cpu_st s c"
  "node_state (log_event_if b ev s) i = node_state s i"
  "req_state (log_event_if b ev s) k c = req_state s k c"
  "cpu_aff (log_event_if b ev s) c = cpu_aff s c"
  "cpu_lvl (log_event_if b ev s) c = cpu_lvl s c"
  "cpu_st (log_event_if b ev s) c = cpu_st s c"
  by (simp_all add: log_event_if_def log_event_def node_state_def req_state_def cpu_aff_def
      cpu_lvl_def cpu_st_def)

lemma node_write_views [simp]:
  "req_state (set_non_cpu_pd_node_local_state i st s) k c = req_state s k c"
  "cpu_aff (set_non_cpu_pd_node_local_state i st s) c = cpu_aff s c"
  "cpu_lvl (set_non_cpu_pd_node_local_state i st s) c = cpu_lvl s c"
  "cpu_st (set_non_cpu_pd_node_local_state i st s) c = cpu_st s c"
  by (simp_all add: set_non_cpu_pd_node_local_state_def req_state_def cpu_aff_def cpu_lvl_def cpu_st_def)

lemma req_write_views [simp]:
  "node_state (psci_set_req_local_pwr_state e l c st s) i = node_state s i"
  "cpu_aff (psci_set_req_local_pwr_state e l c st s) c' = cpu_aff s c'"
  "cpu_lvl (psci_set_req_local_pwr_state e l c st s) c' = cpu_lvl s c'"
  "cpu_st (psci_set_req_local_pwr_state e l c st s) c' = cpu_st s c'"
  by (simp_all add: psci_set_req_local_pwr_state_def node_state_def cpu_aff_def cpu_lvl_def cpu_st_def)

lemma node_state_set_node:
  "node_state (set_non_cpu_pd_node_local_state i st s) j =
     (if i = j \<and> i < length (psci_non_cpu_pd_nodes s) then st else node_state s j)"
proof (cases "j < length (psci_non_cpu_pd_nodes s)")
  case False
  then show ?thesis
    using nth_beyond [of "psci_non_cpu_pd_nodes s" j]
      nth_beyond [of "psci_non_cpu_pd_nodes (set_non_cpu_pd_node_local_state i st s)" j]
    by (auto simp: node_state_def set_non_cpu_pd_node_local_state_def)
qed (auto simp: node_state_def set_non_cpu_pd_node_local_state_def nth_list_update)

lemma wf_lengths:
  assumes "psci_wf e s"
  shows "length (psci_non_cpu_pd_nodes s) = PSCI_NUM_NON_CPU_PWR_DOMAINS e"
    and "length (psci_cpu_pd_nodes s) = PLATFORM_CORE_COUNT e"
    and "length (psci_svc_cpu_data s) = PLATFORM_CORE_COUNT e"
    and "length (psci_ns_context s) = PLATFORM_CORE_COUNT e"
    and "length (psci_req_local_pwr_states s) = PLAT_MAX_PWR_LVL e"
    and "psci_plat_core_count s \<le> PLATFORM_CORE_COUNT e"
    and "k < PLAT_MAX_PWR_LVL e \<Longrightarrow> length (psci_req_local_pwr_states s ! k) = PLATFORM_CORE_COUNT e"
  using assms by (auto simp: psci_wf_def list_all_length)

lemma wf_ancestor:
  assumes "psci_wf e s" "c < psci_plat_core_count s" "k < PLAT_MAX_PWR_LVL e"
  shows "ancestor_ok e s c k"
  using assms by (simp add: psci_wf_def list_all_iff)

lemma req_state_set_req:
  assumes "psci_wf e s" "c < psci_plat_core_count s" "k < PLAT_MAX_PWR_LVL e"
  shows "req_state (psci_set_req_local_pwr_state e (Suc k) c st s) k' c' =
           (if k = k' \<and> c = c' then st else req_state s k' c')"
proof -
  have "c < length (psci_req_local_pwr_states s ! k)" "k < length (psci_req_local_pwr_states s)"
    using assms wf_lengths [OF assms(1)] by auto
  with assms show ?thesis
    by (auto simp: req_state_def psci_set_req_local_pwr_state_def nth_list_update)
qed

lemma core_count_shape: "psci_shape s = psci_shape t \<Longrightarrow> psci_plat_core_count s = psci_plat_core_count t"
  by (simp add: psci_shape_def psci_topology_def)

lemma ancestor_shape: "psci_shape s = psci_shape t \<Longrightarrow> psci_ancestor s c k = psci_ancestor t c k"
  by (rule topology_ancestor [OF shape_topology])

text \<open>Two CPUs' ancestors at different depths are different nodes.\<close>

lemma ancestor_level_inj:
  assumes "psci_wf e s" "c < psci_plat_core_count s" "c' < psci_plat_core_count s"
    and "k < PLAT_MAX_PWR_LVL e" "k' < PLAT_MAX_PWR_LVL e"
    and "psci_ancestor s c k = psci_ancestor s c' k'"
  shows "k = k'"
  using wf_ancestor [OF assms(1,2,4)] wf_ancestor [OF assms(1,3,5)] assms(6)
  by (simp add: ancestor_ok_def Let_def)

end
