(* ===== verification/Psci_Coord.thy ===== *)
theory Psci_Coord
  imports Psci_Tree
begin

text \<open>
  What the tree-climbing loops of \<open>psci_common.c\<close> do, in terms of ancestors, and the functional
  specification of state coordination. The weak default of \<open>plat_get_target_pwr_state\<close>
  (\<open>plat/common/plat_psci_common.c\<close>) is modelled here too; it discharges the one law the
  coordination argument needs of a platform: a request to keep a domain running wins.
\<close>

section \<open>The default platform coordination\<close>

text \<open>The \<open>do\<close>-\<open>while\<close> loop over \<open>n\<close> requested states, entered with \<open>n > 0\<close>; \<open>st\<close> is the pointer.\<close>

fun target_pwr_state_loop ::
  "plat_local_state_t \<Rightarrow> plat_local_state_t list \<Rightarrow> nat \<Rightarrow> plat_local_state_t" where
  "target_pwr_state_loop target st 0 = target"
| "target_pwr_state_loop target st (Suc n) =
     (let temp = hd st
      in target_pwr_state_loop (if temp < target then temp else target) (tl st) n)"

definition plat_get_target_pwr_state_default ::
  "plat_local_state_t \<Rightarrow> nat \<Rightarrow> plat_local_state_t list \<Rightarrow> nat \<Rightarrow> plat_local_state_t" where
  "plat_get_target_pwr_state_default max_off_state lvl states ncpu =
     target_pwr_state_loop max_off_state states ncpu"

lemma target_pwr_state_loop_le:
  "target_pwr_state_loop t st n \<le> t"
proof (induction n arbitrary: t st)
  case (Suc n)
  show ?case using Suc [of "if hd st < t then hd st else t" "tl st"] by (auto simp: Let_def split: if_splits)
qed simp

lemma target_pwr_state_loop_lower:
  "i < n \<Longrightarrow> i < length st \<Longrightarrow> target_pwr_state_loop t st n \<le> st ! i"
proof (induction n arbitrary: t st i)
  case (Suc n)
  then obtain x xs where st: "st = x # xs" by (cases st) auto
  show ?case
  proof (cases i)
    case 0
    have "target_pwr_state_loop (if x < t then x else t) xs n \<le> x"
      using target_pwr_state_loop_le [of "if x < t then x else t" xs n] by (auto split: if_splits)
    with 0 show ?thesis by (simp add: st Let_def)
  next
    case (Suc j)
    with Suc.IH [of j xs] Suc.prems show ?thesis by (simp add: st Let_def)
  qed
qed simp

lemma target_pwr_state_loop_in:
  "n \<le> length st \<Longrightarrow> target_pwr_state_loop t st n \<in> insert t (set (take n st))"
proof (induction n arbitrary: t st)
  case (Suc n)
  then obtain x xs where st: "st = x # xs" by (cases st) auto
  with Suc.IH [of xs "if x < t then x else t"] Suc.prems show ?case by (auto simp: Let_def split: if_splits)
qed simp

text \<open>The default is the minimum of the requests, capped by the deepest state.\<close>

lemma target_pwr_state_loop_Min:
  assumes "n \<le> length st"
  shows "target_pwr_state_loop t st n = Min (insert t (set (take n st)))"
proof (rule Min_eqI [symmetric])
  fix y assume "y \<in> insert t (set (take n st))"
  then show "target_pwr_state_loop t st n \<le> y"
    using target_pwr_state_loop_lower [of _ n st t] target_pwr_state_loop_le [of t st n]
    by (auto simp: in_set_conv_nth)
qed (use target_pwr_state_loop_in [OF assms] in auto)

section \<open>The law of a coordinating platform\<close>

locale coordinating_platform =
  fixes get_target :: "nat \<Rightarrow> plat_local_state_t list \<Rightarrow> nat \<Rightarrow> plat_local_state_t"
  assumes run_request_wins:
    "i < n \<Longrightarrow> n \<le> length sts \<Longrightarrow> sts ! i = PSCI_LOCAL_STATE_RUN
       \<Longrightarrow> get_target lvl sts n = PSCI_LOCAL_STATE_RUN"
begin

lemma run_in_window_wins:
  assumes "start \<le> c" "c < start + n" "start + n \<le> length row" "row ! c = PSCI_LOCAL_STATE_RUN"
  shows "get_target lvl (drop start row) n = PSCI_LOCAL_STATE_RUN"
  using assms by (intro run_request_wins [of "c - start"]) auto

end

interpretation default_platform: coordinating_platform "plat_get_target_pwr_state_default max_off"
  for max_off
proof
  fix i n :: nat and sts :: "plat_local_state_t list" and lvl :: nat
  assume "i < n" "n \<le> length sts" "sts ! i = PSCI_LOCAL_STATE_RUN"
  then have "target_pwr_state_loop max_off sts n \<le> 0"
    using target_pwr_state_loop_lower [of i n sts max_off] by simp
  then show "plat_get_target_pwr_state_default max_off lvl sts n = PSCI_LOCAL_STATE_RUN"
    by (simp add: plat_get_target_pwr_state_default_def)
qed

section \<open>Walking up the tree\<close>

lemma parent_nodes_loop_eq:
  "parent_nodes_loop s n (psci_ancestor s c k) = map (psci_ancestor s c) [k..<k + n]"
proof (induction n arbitrary: k)
  case (Suc n)
  then show ?case
    using Suc [of "Suc k"] by (simp add: upt_conv_Cons del: upt_Suc)
qed simp

lemma parent_nodes_eq:
  "psci_get_parent_pwr_domain_nodes c end_lvl s = map (psci_ancestor s c) [0..<end_lvl]"
  using parent_nodes_loop_eq [of s end_lvl c 0] by (simp add: psci_get_parent_pwr_domain_nodes_def)

lemma get_target_loop_eq:
  "get_target_loop s n (psci_ancestor s c k) =
     map (\<lambda>j. node_state s (psci_ancestor s c j)) [k..<k + n]"
proof (induction n arbitrary: k)
  case (Suc n)
  then show ?case
    using Suc [of "Suc k"] by (simp add: upt_conv_Cons del: upt_Suc)
qed simp

lemma get_target_states_eq:
  "pwr_domain_state (psci_get_target_local_pwr_states e me end_pwrlvl t s) =
     cpu_st s me # map (\<lambda>j. node_state s (psci_ancestor s me j)) [0..<end_pwrlvl]
       @ replicate (PLAT_MAX_PWR_LVL e - end_pwrlvl) PSCI_LOCAL_STATE_RUN"
  using get_target_loop_eq [of s end_pwrlvl me 0]
  by (simp add: psci_get_target_local_pwr_states_def)

lemma set_target_loop_frame:
  "psci_shape (set_target_loop pd n l i s) = psci_shape s"
  "req_state (set_target_loop pd n l i s) k c = req_state s k c"
  "cpu_aff (set_target_loop pd n l i s) c = cpu_aff s c"
  "cpu_lvl (set_target_loop pd n l i s) c = cpu_lvl s c"
  "cpu_st (set_target_loop pd n l i s) c = cpu_st s c"
  "events (set_target_loop pd n l i s) = events s"
  by (induction n arbitrary: l i s)
    (simp_all add: Let_def, simp add: set_non_cpu_pd_node_local_state_def)

lemma set_target_loop_nodes:
  assumes "psci_wf e s" "c < psci_plat_core_count s" "k + n \<le> PLAT_MAX_PWR_LVL e"
    and "c' < psci_plat_core_count s" "k' < PLAT_MAX_PWR_LVL e"
  shows "node_state (set_target_loop pd n (Suc k) (psci_ancestor s c k) s) (psci_ancestor s c' k') =
           (if k \<le> k' \<and> k' < k + n \<and> psci_ancestor s c' k' = psci_ancestor s c k'
            then pd ! Suc k' else node_state s (psci_ancestor s c' k'))"
  using assms
proof (induction n arbitrary: k s)
  case (Suc n)
  define a where "a = psci_ancestor s c k"
  define s1 where "s1 = set_non_cpu_pd_node_local_state a (pd ! Suc k) s"
  have sh: "psci_shape s1 = psci_shape s" by (simp add: s1_def)
  have anc: "psci_ancestor s1 d j = psci_ancestor s d j" for d j
    using sh by (rule ancestor_shape)
  have "a < length (psci_non_cpu_pd_nodes s)"
    using wf_ancestor [OF Suc.prems(1,2), of k] Suc.prems(3) by (simp add: ancestor_ok_def Let_def a_def)
  then have n1: "node_state s1 j = (if a = j then pd ! Suc k else node_state s j)" for j
    by (simp add: s1_def node_state_set_node)
  have inj: "a = psci_ancestor s c' k' \<Longrightarrow> k = k'"
    using ancestor_level_inj [OF Suc.prems(1,2,4)] Suc.prems(3,5) by (auto simp: a_def)
  have IH: "node_state (set_target_loop pd n (Suc (Suc k)) (psci_ancestor s1 c (Suc k)) s1)
          (psci_ancestor s1 c' k') =
        (if Suc k \<le> k' \<and> k' < Suc k + n \<and> psci_ancestor s1 c' k' = psci_ancestor s1 c k'
         then pd ! Suc k' else node_state s1 (psci_ancestor s1 c' k'))"
    using Suc.prems by (intro Suc.IH) (auto simp: wf_shape [OF sh] core_count_shape [OF sh])
  have step: "set_target_loop pd (Suc n) (Suc k) (psci_ancestor s c k) s =
      set_target_loop pd n (Suc (Suc k)) (psci_ancestor s1 c (Suc k)) s1"
    by (simp add: Let_def s1_def a_def ancestor_shape [OF shape_simps(7)])
  show ?case
    using IH [unfolded anc n1] inj unfolding step anc
    by (cases "k = k'") (auto simp: a_def)
qed auto

lemma set_run_loop_frame:
  "psci_shape (set_run_loop e c n l i s) = psci_shape s"
  "cpu_aff (set_run_loop e c n l i s) c' = cpu_aff s c'"
  "cpu_lvl (set_run_loop e c n l i s) c' = cpu_lvl s c'"
  "cpu_st (set_run_loop e c n l i s) c' = cpu_st s c'"
  "events (set_run_loop e c n l i s) = events s"
  by (induction n arbitrary: l i s)
    (simp_all add: Let_def,
     simp add: set_non_cpu_pd_node_local_state_def psci_set_req_local_pwr_state_def)

lemma set_run_loop_views:
  assumes "psci_wf e s" "c < psci_plat_core_count s" "k + n \<le> PLAT_MAX_PWR_LVL e"
    and "c' < psci_plat_core_count s" "k' < PLAT_MAX_PWR_LVL e"
  shows "node_state (set_run_loop e c n (Suc k) (psci_ancestor s c k) s) (psci_ancestor s c' k') =
           (if k \<le> k' \<and> k' < k + n \<and> psci_ancestor s c' k' = psci_ancestor s c k'
            then PSCI_LOCAL_STATE_RUN else node_state s (psci_ancestor s c' k')) \<and>
         req_state (set_run_loop e c n (Suc k) (psci_ancestor s c k) s) k' c' =
           (if k \<le> k' \<and> k' < k + n \<and> c' = c then PSCI_LOCAL_STATE_RUN else req_state s k' c')"
  using assms
proof (induction n arbitrary: k s)
  case (Suc n)
  define a where "a = psci_ancestor s c k"
  define s1 where "s1 = psci_set_req_local_pwr_state e (Suc k) c PSCI_LOCAL_STATE_RUN
                         (set_non_cpu_pd_node_local_state a PSCI_LOCAL_STATE_RUN s)"
  have sh: "psci_shape s1 = psci_shape s" by (simp add: s1_def)
  have anc: "psci_ancestor s1 d j = psci_ancestor s d j" for d j
    using sh by (rule ancestor_shape)
  have "a < length (psci_non_cpu_pd_nodes s)"
    using wf_ancestor [OF Suc.prems(1,2), of k] Suc.prems(3) by (simp add: ancestor_ok_def Let_def a_def)
  then have n1: "node_state s1 j = (if a = j then PSCI_LOCAL_STATE_RUN else node_state s j)" for j
    by (simp add: s1_def node_state_set_node)
  have r1: "req_state s1 j d = (if k = j \<and> c = d then PSCI_LOCAL_STATE_RUN else req_state s j d)" for j d
  proof -
    let ?s = "set_non_cpu_pd_node_local_state a PSCI_LOCAL_STATE_RUN s"
    have sh': "psci_shape ?s = psci_shape s" by simp
    from Suc.prems show ?thesis
      by (subst s1_def, subst req_state_set_req) (simp_all add: wf_shape [OF sh'] core_count_shape [OF sh'])
  qed
  have inj: "a = psci_ancestor s c' k' \<Longrightarrow> k = k'"
    using ancestor_level_inj [OF Suc.prems(1,2,4)] Suc.prems(3,5) by (auto simp: a_def)
  have IH: "node_state (set_run_loop e c n (Suc (Suc k)) (psci_ancestor s1 c (Suc k)) s1)
          (psci_ancestor s1 c' k') =
        (if Suc k \<le> k' \<and> k' < Suc k + n \<and> psci_ancestor s1 c' k' = psci_ancestor s1 c k'
         then PSCI_LOCAL_STATE_RUN else node_state s1 (psci_ancestor s1 c' k')) \<and>
        req_state (set_run_loop e c n (Suc (Suc k)) (psci_ancestor s1 c (Suc k)) s1) k' c' =
        (if Suc k \<le> k' \<and> k' < Suc k + n \<and> c' = c then PSCI_LOCAL_STATE_RUN else req_state s1 k' c')"
    using Suc.prems by (intro Suc.IH) (auto simp: wf_shape [OF sh] core_count_shape [OF sh])
  have step: "set_run_loop e c (Suc n) (Suc k) (psci_ancestor s c k) s =
      set_run_loop e c n (Suc (Suc k)) (psci_ancestor s1 c (Suc k)) s1"
    using anc [of c k] by (simp add: Let_def s1_def a_def)
  show ?case
    using IH [unfolded anc n1 r1] inj unfolding step anc
    by (cases "k = k'") (auto simp: a_def)
qed auto

section \<open>State coordination, specified\<close>

text \<open>
  The target the platform returns for the domain at depth \<open>k\<close> above \<open>me\<close>, once the request of
  \<open>me\<close> for that level is recorded, and the state the coordination settles on: that target, unless a
  level below it was told to stay running.
\<close>

definition coord_target :: "psci_env \<Rightarrow> nat \<Rightarrow> psci_power_state_t \<Rightarrow> psci_state \<Rightarrow> nat \<Rightarrow> plat_local_state_t" where
  "coord_target e me info s k =
     (let nd = psci_non_cpu_pd_nodes s ! psci_ancestor s me k
      in plat_get_target_pwr_state e (Suc k)
           (drop (cpu_start_idx nd)
              ((psci_req_local_pwr_states s ! k)[me := pwr_domain_state info ! Suc k]))
           (ncpus nd))"

definition coord_result ::
  "psci_env \<Rightarrow> nat \<Rightarrow> psci_power_state_t \<Rightarrow> psci_state \<Rightarrow> nat \<Rightarrow> nat \<Rightarrow> plat_local_state_t" where
  "coord_result e me info s k0 k =
     (if list_all (\<lambda>j. coord_target e me info s j \<noteq> PSCI_LOCAL_STATE_RUN) [k0..<Suc k]
      then coord_target e me info s k else PSCI_LOCAL_STATE_RUN)"

text \<open>The second loop of \<open>psci_do_state_coordination\<close>, over any list of distinct levels.\<close>

abbreviation coord_rest where
  "coord_rest e me \<equiv> fold (\<lambda>lvl (state_info, s).
     (state_info\<lparr>pwr_domain_state := (pwr_domain_state state_info)[lvl := PSCI_LOCAL_STATE_RUN]\<rparr>,
      psci_set_req_local_pwr_state e lvl me (pwr_domain_state state_info ! lvl) s))"

text \<open>The state changed in nothing but the values of the requested states.\<close>

definition only_req :: "psci_state \<Rightarrow> psci_state \<Rightarrow> bool" where
  "only_req s t \<longleftrightarrow>
     t = s\<lparr>psci_req_local_pwr_states := psci_req_local_pwr_states t\<rparr>
     \<and> map length (psci_req_local_pwr_states t) = map length (psci_req_local_pwr_states s)"

lemma only_req_refl [simp]: "only_req s s"
  by (simp add: only_req_def)

lemma only_req_trans: "only_req s t \<Longrightarrow> only_req t u \<Longrightarrow> only_req s u"
  unfolding only_req_def by (metis psci_state.update_convs(3) psci_state.surjective)

lemma only_req_set_req [simp]: "only_req s (psci_set_req_local_pwr_state e l c st s)"
  by (simp add: only_req_def psci_set_req_local_pwr_state_def map_length_update)

lemma only_reqD:
  assumes "only_req s t"
  shows "psci_shape t = psci_shape s"
    and "psci_non_cpu_pd_nodes t = psci_non_cpu_pd_nodes s"
    and "psci_cpu_pd_nodes t = psci_cpu_pd_nodes s"
    and "psci_svc_cpu_data t = psci_svc_cpu_data s"
    and "events t = events s"
    and "node_state t i = node_state s i"
    and "cpu_aff t c = cpu_aff s c" "cpu_lvl t c = cpu_lvl s c" "cpu_st t c = cpu_st s c"
proof -
  obtain R where R: "t = s\<lparr>psci_req_local_pwr_states := R\<rparr>"
    "map length R = map length (psci_req_local_pwr_states s)"
    using assms by (auto simp: only_req_def)
  then show "psci_shape t = psci_shape s"
    "psci_non_cpu_pd_nodes t = psci_non_cpu_pd_nodes s"
    "psci_cpu_pd_nodes t = psci_cpu_pd_nodes s"
    "psci_svc_cpu_data t = psci_svc_cpu_data s" "events t = events s"
    "node_state t i = node_state s i"
    "cpu_aff t c = cpu_aff s c" "cpu_lvl t c = cpu_lvl s c" "cpu_st t c = cpu_st s c"
    by (simp_all add: psci_shape_def psci_topology_def node_state_def cpu_aff_def cpu_lvl_def cpu_st_def)
qed

lemma coord_rest_views:
  assumes "coord_rest e me ls (info, s) = (info', s')" "distinct ls"
    and "psci_wf e s" "me < psci_plat_core_count s" "\<forall>l\<in>set ls. 0 < l \<and> l \<le> PLAT_MAX_PWR_LVL e"
  shows "only_req s s' \<and>
    (\<forall>k c. req_state s' k c = (if Suc k \<in> set ls \<and> c = me then pwr_domain_state info ! Suc k
                              else req_state s k c)) \<and>
    length (pwr_domain_state info') = length (pwr_domain_state info) \<and>
    last_at_pwrlvl info' = last_at_pwrlvl info \<and>
    (\<forall>j < length (pwr_domain_state info).
       pwr_domain_state info' ! j = (if j \<in> set ls then PSCI_LOCAL_STATE_RUN
                                     else pwr_domain_state info ! j))"
  using assms
proof (induction ls arbitrary: info s)
  case (Cons l ls)
  define info1 where
    "info1 = info\<lparr>pwr_domain_state := (pwr_domain_state info)[l := PSCI_LOCAL_STATE_RUN]\<rparr>"
  define s1 where "s1 = psci_set_req_local_pwr_state e l me (pwr_domain_state info ! l) s"
  obtain k0 where l: "l = Suc k0" "k0 < PLAT_MAX_PWR_LVL e"
    using Cons.prems(5) by (cases l) auto
  have o1: "only_req s s1" by (simp add: s1_def)
  note sh = only_reqD(1) [OF o1]
  have r1: "req_state s1 k c = (if k0 = k \<and> me = c then pwr_domain_state info ! l else req_state s k c)" for k c
    unfolding s1_def l(1) using Cons.prems l by (intro req_state_set_req)
  have run: "coord_rest e me ls (info1, s1) = (info', s')"
    using Cons.prems(1) by (simp add: info1_def s1_def)
  have IH: "only_req s1 s' \<and>
    (\<forall>k c. req_state s' k c = (if Suc k \<in> set ls \<and> c = me then pwr_domain_state info1 ! Suc k
                              else req_state s1 k c)) \<and>
    length (pwr_domain_state info') = length (pwr_domain_state info1) \<and>
    last_at_pwrlvl info' = last_at_pwrlvl info1 \<and>
    (\<forall>j < length (pwr_domain_state info1).
       pwr_domain_state info' ! j = (if j \<in> set ls then PSCI_LOCAL_STATE_RUN
                                     else pwr_domain_state info1 ! j))"
    using Cons.prems by (intro Cons.IH [OF run]) (auto simp: wf_shape [OF sh] core_count_shape [OF sh])
  have i1: "length (pwr_domain_state info1) = length (pwr_domain_state info)"
    "last_at_pwrlvl info1 = last_at_pwrlvl info"
    "Suc k \<in> set ls \<Longrightarrow> pwr_domain_state info1 ! Suc k = pwr_domain_state info ! Suc k"
    "j < length (pwr_domain_state info) \<Longrightarrow>
       pwr_domain_state info1 ! j = (if j = l then 0 else pwr_domain_state info ! j)" for k j
    using Cons.prems(2) l by (auto simp: info1_def nth_list_update) (metis nth_list_update_neq)
  show ?case
    using IH o1 l r1 by (auto simp: i1 intro: only_req_trans)
qed simp

lemma coord_target_frame:
  assumes "only_req s t" "k < PLAT_MAX_PWR_LVL e"
    and "psci_req_local_pwr_states t ! k = psci_req_local_pwr_states s ! k"
    and "pwr_domain_state info' ! Suc k = pwr_domain_state info ! Suc k"
  shows "coord_target e me info' t k = coord_target e me info s k"
  using assms only_reqD [OF assms(1)]
  by (simp add: coord_target_def ancestor_shape [OF only_reqD(1) [OF assms(1)]])

lemma coord_result_step:
  assumes "k0 < k" "coord_target e me info s k0 \<noteq> PSCI_LOCAL_STATE_RUN"
  shows "coord_result e me info s k0 k = coord_result e me info s (Suc k0) k"
  using assms by (simp add: coord_result_def upt_conv_Cons [of k0] del: upt_Suc)

text \<open>Both loops together, from depth \<open>k\<close> for \<open>n\<close> levels.\<close>

lemma coordination_views:
  assumes "coordination_loop e me n (Suc k) (psci_ancestor s me k) info s = (lvl, info1, s1)"
    and "coord_rest e me [Suc lvl..<Suc (k + n)] (info1, s1) = (info', s')"
    and "psci_wf e s" "me < psci_plat_core_count s" "k + n \<le> PLAT_MAX_PWR_LVL e"
    and "k + n < length (pwr_domain_state info)"
  shows "only_req s s' \<and>
    (\<forall>j c. req_state s' j c = (if k \<le> j \<and> j < k + n \<and> c = me then pwr_domain_state info ! Suc j
                              else req_state s j c)) \<and>
    length (pwr_domain_state info') = length (pwr_domain_state info) \<and>
    last_at_pwrlvl info' = last_at_pwrlvl info \<and>
    (\<forall>j. k \<le> j \<and> j < k + n \<longrightarrow> pwr_domain_state info' ! Suc j = coord_result e me info s k j) \<and>
    (\<forall>j < length (pwr_domain_state info). \<not> (k < j \<and> j \<le> k + n) \<longrightarrow>
       pwr_domain_state info' ! j = pwr_domain_state info ! j)"
  using assms
proof (induction n arbitrary: k info s)
  case 0
  then show ?case by auto
next
  case (Suc n)
  define t where "t = psci_set_req_local_pwr_state e (Suc k) me (pwr_domain_state info ! Suc k) s"
  define tg where "tg = coord_target e me info s k"
  define info2 where "info2 = info\<lparr>pwr_domain_state := (pwr_domain_state info)[Suc k := tg]\<rparr>"
  have ot: "only_req s t" by (simp add: t_def)
  note sh = only_reqD(1) [OF ot]
  have k: "k < PLAT_MAX_PWR_LVL e" using Suc.prems by simp
  have rt: "req_state t j c = (if k = j \<and> me = c then pwr_domain_state info ! Suc k else req_state s j c)" for j c
    unfolding t_def using Suc.prems k by (intro req_state_set_req)
  have i2: "length (pwr_domain_state info2) = length (pwr_domain_state info)"
    "last_at_pwrlvl info2 = last_at_pwrlvl info"
    "j < length (pwr_domain_state info) \<Longrightarrow>
       pwr_domain_state info2 ! j = (if j = Suc k then tg else pwr_domain_state info ! j)" for j
    by (auto simp: info2_def nth_list_update)
  have row: "psci_req_local_pwr_states t ! k = (psci_req_local_pwr_states s ! k)[me := pwr_domain_state info ! Suc k]"
    using Suc.prems(3-5) k wf_lengths [OF Suc.prems(3)]
    by (simp add: t_def psci_set_req_local_pwr_state_def)
  have start: "cpu_start_idx (psci_non_cpu_pd_nodes s ! psci_ancestor s me k) < psci_plat_core_count s"
    using wf_ancestor [OF Suc.prems(3,4) k] by (auto simp: ancestor_ok_def Let_def)
  have target: "plat_get_target_pwr_state e (Suc k)
        (the (psci_get_req_local_pwr_states e (Suc k)
                (cpu_start_idx (psci_non_cpu_pd_nodes t ! psci_ancestor s me k)) t))
        (ncpus (psci_non_cpu_pd_nodes t ! psci_ancestor s me k)) = tg"
    using start k only_reqD(2) [OF ot] core_count_shape [OF sh]
    by (simp add: tg_def coord_target_def Let_def psci_get_req_local_pwr_states_def row)
  have step: "coordination_loop e me (Suc n) (Suc k) (psci_ancestor s me k) info s =
      (if is_local_state_run tg then (Suc k, info2, t)
       else coordination_loop e me n (Suc (Suc k)) (psci_ancestor t me (Suc k)) info2 t)"
    using target Suc.prems(6) ancestor_shape [OF sh, of me k]
    by (simp add: Let_def t_def [symmetric] info2_def)
  show ?case
  proof (cases "tg = 0")
    case True
    then have eqs: "lvl = Suc k" "info1 = info2" "s1 = t"
      using Suc.prems(1) unfolding step by (simp_all add: is_local_state_run_def)
    have rest: "coord_rest e me [Suc (Suc k)..<Suc (k + Suc n)] (info2, t) = (info', s')"
      using Suc.prems(2) unfolding eqs .
    have V: "only_req t s' \<and>
      (\<forall>j c. req_state s' j c = (if Suc j \<in> set [Suc (Suc k)..<Suc (k + Suc n)] \<and> c = me
                                then pwr_domain_state info2 ! Suc j else req_state t j c)) \<and>
      length (pwr_domain_state info') = length (pwr_domain_state info2) \<and>
      last_at_pwrlvl info' = last_at_pwrlvl info2 \<and>
      (\<forall>j < length (pwr_domain_state info2).
         pwr_domain_state info' ! j = (if j \<in> set [Suc (Suc k)..<Suc (k + Suc n)]
                                       then PSCI_LOCAL_STATE_RUN else pwr_domain_state info2 ! j))"
      using Suc.prems(3-6)
      by (intro coord_rest_views [OF rest]) (auto simp: wf_shape [OF sh] core_count_shape [OF sh])
    have res: "k \<le> j \<Longrightarrow> coord_result e me info s k j = 0" for j
      using True by (cases "j = k") (auto simp: coord_result_def tg_def list_all_iff)
    show ?thesis
      using V ot rt i2 res True Suc.prems(6) by (auto intro: only_req_trans)
  next
    case False
    then have run: "coordination_loop e me n (Suc (Suc k)) (psci_ancestor t me (Suc k)) info2 t = (lvl, info1, s1)"
      using Suc.prems(1) unfolding step by (simp add: is_local_state_run_def)
    have IH: "only_req t s' \<and>
      (\<forall>j c. req_state s' j c = (if Suc k \<le> j \<and> j < Suc k + n \<and> c = me
                                then pwr_domain_state info2 ! Suc j else req_state t j c)) \<and>
      length (pwr_domain_state info') = length (pwr_domain_state info2) \<and>
      last_at_pwrlvl info' = last_at_pwrlvl info2 \<and>
      (\<forall>j. Suc k \<le> j \<and> j < Suc k + n \<longrightarrow> pwr_domain_state info' ! Suc j = coord_result e me info2 t (Suc k) j) \<and>
      (\<forall>j < length (pwr_domain_state info2). \<not> (Suc k < j \<and> j \<le> Suc k + n) \<longrightarrow>
         pwr_domain_state info' ! j = pwr_domain_state info2 ! j)"
      using Suc.prems(2-6)
      by (intro Suc.IH [OF run]) (auto simp: wf_shape [OF sh] core_count_shape [OF sh] i2)
    have tgs: "coord_target e me info2 t j = coord_target e me info s j" if "Suc k \<le> j" "j < Suc k + n" for j
      using that Suc.prems(5,6) i2(3) [of "Suc j"]
      by (intro coord_target_frame [OF ot])
        (auto simp: t_def psci_set_req_local_pwr_state_def)
    have res: "coord_result e me info2 t (Suc k) j = coord_result e me info s k j"
      if "Suc k \<le> j" "j < Suc k + n" for j
    proof -
      have "coord_result e me info2 t (Suc k) j = coord_result e me info s (Suc k) j"
        using that tgs by (auto simp: coord_result_def list_all_iff)
      also have "\<dots> = coord_result e me info s k j"
        using that False by (intro coord_result_step [symmetric]) (auto simp: tg_def)
      finally show ?thesis .
    qed
    have res0: "coord_result e me info s k k = tg"
      using False by (simp add: coord_result_def tg_def)
    have P: "pwr_domain_state info' ! Suc j = coord_result e me info s k j"
      if "k \<le> j" "j < k + Suc n" for j
      using IH that i2(1) i2(3) [of "Suc j"] res [of j] res0 Suc.prems(6) by (cases "j = k") auto
    show ?thesis
      using IH ot rt i2 P Suc.prems(6) by (auto intro: only_req_trans)
  qed
qed

text \<open>The specification of the coordination: the requests of the CPU are recorded, and the
  states returned are the targets of its domains, bottom up, down to the first one that stays on.\<close>

lemma psci_do_state_coordination_views:
  assumes "psci_do_state_coordination e me L info s = (info', s')"
    and "psci_wf e s" "me < psci_plat_core_count s" "L \<le> PLAT_MAX_PWR_LVL e"
    and "length (pwr_domain_state info) = Suc (PLAT_MAX_PWR_LVL e)"
  shows "only_req s s' \<and>
    (\<forall>j c. req_state s' j c = (if j < L \<and> c = me then pwr_domain_state info ! Suc j
                              else req_state s j c)) \<and>
    length (pwr_domain_state info') = length (pwr_domain_state info) \<and>
    last_at_pwrlvl info' = last_at_pwrlvl info \<and>
    (\<forall>j < L. pwr_domain_state info' ! Suc j = coord_result e me info s 0 j) \<and>
    (\<forall>j < length (pwr_domain_state info). \<not> (0 < j \<and> j \<le> L) \<longrightarrow>
       pwr_domain_state info' ! j = pwr_domain_state info ! j)"
proof -
  obtain lvl info1 s1 where l: "coordination_loop e me L (Suc 0) (psci_ancestor s me 0) info s = (lvl, info1, s1)"
    by (metis prod_cases3)
  have r: "coord_rest e me [Suc lvl..<Suc (0 + L)] (info1, s1) = (info', s')"
    using assms(1) l by (simp add: psci_do_state_coordination_def)
  show ?thesis
    using coordination_views [OF l r] assms(2-5) by simp
qed

text \<open>CPUs below one node read the same window of requests, so a running one keeps it on.\<close>

lemma coord_target_run_request:
  assumes "coordinating_platform (plat_get_target_pwr_state e)"
    and "psci_wf e s" "me < psci_plat_core_count s" "k < PLAT_MAX_PWR_LVL e"
    and "c < psci_plat_core_count s" "psci_ancestor s c k = psci_ancestor s me k"
    and "(if c = me then pwr_domain_state info ! Suc k else req_state s k c) = PSCI_LOCAL_STATE_RUN"
  shows "coord_target e me info s k = PSCI_LOCAL_STATE_RUN"
proof -
  let ?nd = "psci_non_cpu_pd_nodes s ! psci_ancestor s me k"
  let ?row = "(psci_req_local_pwr_states s ! k)[me := pwr_domain_state info ! Suc k]"
  have win: "cpu_start_idx ?nd \<le> c" "c < cpu_start_idx ?nd + ncpus ?nd"
    using wf_ancestor [OF assms(2,5,4)] assms(6) by (auto simp: ancestor_ok_def Let_def)
  have "cpu_start_idx ?nd + ncpus ?nd \<le> psci_plat_core_count s"
    using wf_ancestor [OF assms(2,3,4)] by (simp add: ancestor_ok_def Let_def)
  moreover have len: "length ?row = PLATFORM_CORE_COUNT e" "psci_plat_core_count s \<le> PLATFORM_CORE_COUNT e"
    using wf_lengths [OF assms(2)] assms(4) by simp_all
  moreover have "?row ! c = PSCI_LOCAL_STATE_RUN"
    using assms(3,5,7) len by (auto simp: req_state_def nth_list_update)
  ultimately have "plat_get_target_pwr_state e (Suc k) (drop (cpu_start_idx ?nd) ?row) (ncpus ?nd) = PSCI_LOCAL_STATE_RUN"
    using win by (intro coordinating_platform.run_in_window_wins [OF assms(1)]) simp_all
  then show ?thesis by (simp add: coord_target_def Let_def)
qed

lemma coord_result_run_request:
  assumes "coordinating_platform (plat_get_target_pwr_state e)"
    and "psci_wf e s" "me < psci_plat_core_count s" "k < PLAT_MAX_PWR_LVL e" "k0 \<le> k"
    and "c < psci_plat_core_count s" "psci_ancestor s c k = psci_ancestor s me k"
    and "(if c = me then pwr_domain_state info ! Suc k else req_state s k c) = PSCI_LOCAL_STATE_RUN"
  shows "coord_result e me info s k0 k = PSCI_LOCAL_STATE_RUN"
  using coord_target_run_request [OF assms(1-4,6-8)] by (simp add: coord_result_def)

text \<open>Once a level stays on, so does every level above it.\<close>

lemma coord_result_mono:
  assumes "coord_result e me info s k0 j = PSCI_LOCAL_STATE_RUN" "k0 \<le> j" "j \<le> k"
  shows "coord_result e me info s k0 k = PSCI_LOCAL_STATE_RUN"
proof -
  have "\<exists>i\<in>set [k0..<Suc j]. coord_target e me info s i = PSCI_LOCAL_STATE_RUN"
    using assms(1,2) by (auto simp: coord_result_def list_all_iff split: if_splits)
  moreover have "set [k0..<Suc j] \<subseteq> set [k0..<Suc k]" using assms(3) by auto
  ultimately show ?thesis unfolding coord_result_def list_all_iff by fastforce
qed

end
