(* ===== verification/Psci_Stat.thy ===== *)
theory Psci_Stat
  imports Psci_Coord
begin

text \<open>
  The statistics of \<open>lib/psci/psci_stat.c\<close>: which CPU was last to leave a power domain, and how
  often and how long each domain has been in each low-power state. The conversion of counter
  values to a residency is the one of \<open>plat/common/plat_psci_common.c\<close>. None of these functions
  writes anything but the statistics.
\<close>

section \<open>Definitions\<close>

definition get_stat_idx :: "psci_env \<Rightarrow> plat_local_state_t \<Rightarrow> nat \<Rightarrow> nat" where
  "get_stat_idx e local_state pwr_lvl =
     (case get_pwr_lvl_state_idx (psci_plat_pm_ops e) of
        None \<Rightarrow> if is_local_state_retn e local_state then 0 else 1
      | Some f \<Rightarrow> f local_state pwr_lvl)"

fun stats_pwr_down_loop ::
  "plat_local_state_t list \<Rightarrow> nat \<Rightarrow> nat \<Rightarrow> nat \<Rightarrow> nat \<Rightarrow> psci_state \<Rightarrow> psci_state" where
  "stats_pwr_down_loop pd_state cpu_idx 0 lvl parent_idx s = s"
| "stats_pwr_down_loop pd_state cpu_idx (Suc n) lvl parent_idx s =
     (if is_local_state_run (pd_state ! lvl) then s
      else
        let s = s\<lparr>last_cpu_in_non_cpu_pd := (last_cpu_in_non_cpu_pd s)[parent_idx := Some cpu_idx]\<rparr>
        in stats_pwr_down_loop pd_state cpu_idx n (Suc lvl)
             (parent_of (psci_non_cpu_pd_nodes s ! parent_idx)) s)"

definition psci_stats_update_pwr_down ::
  "nat \<Rightarrow> nat \<Rightarrow> psci_power_state_t \<Rightarrow> psci_state \<Rightarrow> psci_state" where
  "psci_stats_update_pwr_down me end_pwrlvl state_info s =
     stats_pwr_down_loop (pwr_domain_state state_info) me end_pwrlvl 1
       (cpu_parent_node (psci_cpu_pd_nodes s ! me)) s"

text \<open>\<open>stat[row][idx].residency += residency; stat[row][idx].count++\<close>, both wrapping at 64 bits.\<close>

definition bump_stat :: "nat \<Rightarrow> nat \<Rightarrow> u_register_t \<Rightarrow> psci_stat_t list list \<Rightarrow> psci_stat_t list list" where
  "bump_stat row idx res st =
     st[row := (st ! row)[idx := \<lparr>residency = residency (st ! row ! idx) + res,
                                  stat_count = stat_count (st ! row ! idx) + 1\<rparr>]]"

fun stats_pwr_up_loop ::
  "psci_env \<Rightarrow> psci_power_state_t \<Rightarrow> nat \<Rightarrow> nat \<Rightarrow> nat \<Rightarrow> psci_state \<Rightarrow> psci_state" where
  "stats_pwr_up_loop e state_info 0 lvl parent_idx s = s"
| "stats_pwr_up_loop e state_info (Suc n) lvl parent_idx s =
     (let local_state = pwr_domain_state state_info ! lvl
      in if is_local_state_run local_state then s
         else
           let res = plat_psci_stat_get_residency e (events s) lvl state_info
                       (the (last_cpu_in_non_cpu_pd s ! parent_idx));
               s = s\<lparr>last_cpu_in_non_cpu_pd := (last_cpu_in_non_cpu_pd s)[parent_idx := None]\<rparr>;
               stat_idx = get_stat_idx e local_state lvl;
               s = s\<lparr>psci_non_cpu_stat := bump_stat parent_idx stat_idx res (psci_non_cpu_stat s)\<rparr>
           in stats_pwr_up_loop e state_info n (Suc lvl)
                (parent_of (psci_non_cpu_pd_nodes s ! parent_idx)) s)"

definition psci_stats_update_pwr_up ::
  "psci_env \<Rightarrow> nat \<Rightarrow> nat \<Rightarrow> psci_power_state_t \<Rightarrow> psci_state \<Rightarrow> psci_state" where
  "psci_stats_update_pwr_up e me end_pwrlvl state_info s =
     (let stat_idx = get_stat_idx e (pwr_domain_state state_info ! PSCI_CPU_PWR_LVL) PSCI_CPU_PWR_LVL;
          res = plat_psci_stat_get_residency e (events s) PSCI_CPU_PWR_LVL state_info me;
          s = s\<lparr>psci_cpu_stat := bump_stat me stat_idx res (psci_cpu_stat s)\<rparr>;
          parent_idx = cpu_parent_node (psci_cpu_pd_nodes s ! me)
      in if last_cpu_in_non_cpu_pd s ! parent_idx = None then s
         else stats_pwr_up_loop e state_info end_pwrlvl 1 parent_idx s)"

text \<open>\<open>psci_power_state_t state_info = { {PSCI_LOCAL_STATE_RUN} }\<close>: run at every level.\<close>

definition run_state_info :: "psci_env \<Rightarrow> psci_power_state_t" where
  "run_state_info e =
     \<lparr>pwr_domain_state = replicate (Suc (PLAT_MAX_PWR_LVL e)) PSCI_LOCAL_STATE_RUN, last_at_pwrlvl = 0\<rparr>"

definition psci_get_stat ::
  "psci_env \<Rightarrow> u_register_t \<Rightarrow> uint32_t \<Rightarrow> psci_state \<Rightarrow> (int \<times> psci_stat_t) outcome" where
  "psci_get_stat e target_cpu power_state s =
     (let target_idx = nat (plat_core_pos_by_mpidr e target_cpu);
          none = \<lparr>residency = 0, stat_count = 0\<rparr>
      in case (case translate_power_state_by_mpidr (psci_plat_pm_ops e) of
                 None \<Rightarrow> psci_validate_power_state e power_state (run_state_info e)
               | Some f \<Rightarrow> Returned (f target_cpu power_state (run_state_info e))) of
           Returned (rc, state_info) \<Rightarrow>
             if rc \<noteq> PSCI_E_SUCCESS then Returned (PSCI_E_INVALID_PARAMS, none)
             else
               let pwrlvl = psci_find_target_suspend_lvl e state_info
               in if pwrlvl = PSCI_INVALID_PWR_LVL e then Panicked
                  else
                    let stat_idx = get_stat_idx e (pwr_domain_state state_info ! pwrlvl) pwrlvl
                    in if pwrlvl > PSCI_CPU_PWR_LVL then
                         let parent_idx = fold (\<lambda>lvl i. parent_of (psci_non_cpu_pd_nodes s ! i))
                               [1..<pwrlvl] (cpu_parent_node (psci_cpu_pd_nodes s ! target_idx))
                         in Returned (PSCI_E_SUCCESS, psci_non_cpu_stat s ! parent_idx ! stat_idx)
                       else Returned (PSCI_E_SUCCESS, psci_cpu_stat s ! target_idx ! stat_idx)
         | Power_down \<Rightarrow> Power_down | Panicked \<Rightarrow> Panicked | Assert_failed \<Rightarrow> Assert_failed)"

definition psci_stat_residency :: "psci_env \<Rightarrow> u_register_t \<Rightarrow> uint32_t \<Rightarrow> psci_state \<Rightarrow> u_register_t outcome" where
  "psci_stat_residency e target_cpu power_state s =
     (if \<not> is_valid_mpidr e target_cpu then Returned 0
      else map_outcome (\<lambda>(rc, st). if rc = PSCI_E_SUCCESS then residency st else 0)
             (psci_get_stat e target_cpu power_state s))"

definition psci_stat_count :: "psci_env \<Rightarrow> u_register_t \<Rightarrow> uint32_t \<Rightarrow> psci_state \<Rightarrow> u_register_t outcome" where
  "psci_stat_count e target_cpu power_state s =
     (if \<not> is_valid_mpidr e target_cpu then Returned 0
      else map_outcome (\<lambda>(rc, st). if rc = PSCI_E_SUCCESS then stat_count st else 0)
             (psci_get_stat e target_cpu power_state s))"

text \<open>The residency in microseconds between two counter values, for the counter frequency given.\<close>

definition calc_stat_residency :: "u_register_t \<Rightarrow> uint64_t \<Rightarrow> uint64_t \<Rightarrow> u_register_t" where
  "calc_stat_residency cntfrq pwrupts pwrdnts =
     (let residency_div = cntfrq div 1000000;
          res = (if pwrupts < pwrdnts then - 1 - pwrdnts + pwrupts else pwrupts - pwrdnts)
      in res div residency_div)"

section \<open>Frame: only statistics are written\<close>

definition stat_erase :: "psci_state \<Rightarrow> psci_state" where
  "stat_erase s = s\<lparr>last_cpu_in_non_cpu_pd := [], psci_cpu_stat := [], psci_non_cpu_stat := []\<rparr>"

lemma stat_erase_writes [simp]:
  "stat_erase (s\<lparr>last_cpu_in_non_cpu_pd := l\<rparr>) = stat_erase s"
  "stat_erase (s\<lparr>psci_cpu_stat := c\<rparr>) = stat_erase s"
  "stat_erase (s\<lparr>psci_non_cpu_stat := n\<rparr>) = stat_erase s"
  by (simp_all add: stat_erase_def)

lemma stat_erase_fields:
  assumes "stat_erase t = stat_erase s"
  shows "psci_non_cpu_pd_nodes t = psci_non_cpu_pd_nodes s"
    and "psci_cpu_pd_nodes t = psci_cpu_pd_nodes s"
    and "psci_req_local_pwr_states t = psci_req_local_pwr_states s"
    and "psci_svc_cpu_data t = psci_svc_cpu_data s"
    and "psci_plat_core_count t = psci_plat_core_count s"
    and "psci_ns_context t = psci_ns_context s"
    and "psci_caps t = psci_caps s"
    and "psci_suspend_mode t = psci_suspend_mode s"
    and "psci_spd_pm t = psci_spd_pm s"
    and "events t = events s"
proof -
  note fld = arg_cong [OF assms]
  from fld [of psci_non_cpu_pd_nodes] fld [of psci_cpu_pd_nodes] fld [of psci_req_local_pwr_states]
    fld [of psci_svc_cpu_data] fld [of psci_plat_core_count] fld [of psci_ns_context]
    fld [of psci_caps] fld [of psci_suspend_mode] fld [of psci_spd_pm] fld [of events]
  show "psci_non_cpu_pd_nodes t = psci_non_cpu_pd_nodes s"
    "psci_cpu_pd_nodes t = psci_cpu_pd_nodes s"
    "psci_req_local_pwr_states t = psci_req_local_pwr_states s"
    "psci_svc_cpu_data t = psci_svc_cpu_data s"
    "psci_plat_core_count t = psci_plat_core_count s"
    "psci_ns_context t = psci_ns_context s"
    "psci_caps t = psci_caps s"
    "psci_suspend_mode t = psci_suspend_mode s"
    "psci_spd_pm t = psci_spd_pm s"
    "events t = events s"
    by (simp_all add: stat_erase_def)
qed

lemma stats_pwr_down_loop_frame [simp]:
  "stat_erase (stats_pwr_down_loop pds c n lvl i s) = stat_erase s"
  by (induction pds c n lvl i s rule: stats_pwr_down_loop.induct) (simp_all add: Let_def)

lemma stats_pwr_up_loop_frame [simp]:
  "stat_erase (stats_pwr_up_loop e info n lvl i s) = stat_erase s"
  by (induction e info n lvl i s rule: stats_pwr_up_loop.induct) (simp_all add: Let_def)

lemma stats_update_frame [simp]:
  "stat_erase (psci_stats_update_pwr_down c L info s) = stat_erase s"
  "stat_erase (psci_stats_update_pwr_up e c L info s) = stat_erase s"
  by (simp_all add: psci_stats_update_pwr_down_def psci_stats_update_pwr_up_def Let_def)

section \<open>Which CPU was last\<close>

text \<open>
  Going down, the calling CPU is recorded in exactly those of its domains that leave the running
  state contiguously from level 1.
\<close>

lemma stats_pwr_down_loop_last:
  assumes "k + n \<le> PLAT_MAX_PWR_LVL e" "psci_wf e s" "c < psci_plat_core_count s"
    and "length (last_cpu_in_non_cpu_pd s) = length (psci_non_cpu_pd_nodes s)" "j < PLAT_MAX_PWR_LVL e"
  shows "last_cpu_in_non_cpu_pd (stats_pwr_down_loop pds c n (Suc k) (psci_ancestor s c k) s)
           ! psci_ancestor s c j =
         (if k \<le> j \<and> j < k + n \<and> (\<forall>i\<in>{k..j}. pds ! Suc i \<noteq> PSCI_LOCAL_STATE_RUN)
          then Some c else last_cpu_in_non_cpu_pd s ! psci_ancestor s c j)"
  using assms
proof (induction n arbitrary: k s)
  case (Suc n)
  show ?case
  proof (cases "pds ! Suc k = 0")
    case True
    then show ?thesis by (auto simp: is_local_state_run_def)
  next
    case False
    define t where "t = s\<lparr>last_cpu_in_non_cpu_pd := (last_cpu_in_non_cpu_pd s)[psci_ancestor s c k := Some c]\<rparr>"
    have sh: "psci_shape t = psci_shape s" by (simp add: t_def psci_shape_def psci_topology_def)
    have at: "psci_ancestor s c k < length (psci_non_cpu_pd_nodes s)"
      using wf_ancestor [OF Suc.prems(2,3), of k] Suc.prems(1) by (simp add: ancestor_ok_def Let_def)
    have step: "stats_pwr_down_loop pds c (Suc n) (Suc k) (psci_ancestor s c k) s =
        stats_pwr_down_loop pds c n (Suc (Suc k)) (psci_ancestor t c (Suc k)) t"
      using False ancestor_shape [OF sh] by (simp add: is_local_state_run_def Let_def t_def)
    have IH: "last_cpu_in_non_cpu_pd (stats_pwr_down_loop pds c n (Suc (Suc k)) (psci_ancestor t c (Suc k)) t)
           ! psci_ancestor t c j =
         (if Suc k \<le> j \<and> j < Suc k + n \<and> (\<forall>i\<in>{Suc k..j}. pds ! Suc i \<noteq> PSCI_LOCAL_STATE_RUN)
          then Some c else last_cpu_in_non_cpu_pd t ! psci_ancestor t c j)"
      using Suc.prems wf_shape [OF sh, of e] core_count_shape [OF sh]
      by (intro Suc.IH) (auto simp: t_def)
    have inj: "psci_ancestor s c j = psci_ancestor s c k \<longleftrightarrow> j = k"
      using ancestor_level_inj [OF Suc.prems(2,3,3,5)] Suc.prems(1) by auto
    have tj: "last_cpu_in_non_cpu_pd t ! psci_ancestor t c j =
        (if j = k then Some c else last_cpu_in_non_cpu_pd s ! psci_ancestor s c j)"
      using inj at Suc.prems(4) unfolding ancestor_shape [OF sh] by (auto simp: t_def nth_list_update)
    have iv: "{k..j} = insert k {Suc k..j}" if "k \<le> j" using that by auto
    show ?thesis
      using IH tj iv False unfolding step ancestor_shape [OF sh] by auto
  qed
qed auto

text \<open>
  The part of the state the power-state arguments are about: shape of the tree, node states,
  requests and CPU data. Logging and statistics do not touch it.
\<close>

definition psci_view where
  "psci_view s = (psci_shape s, node_state s, req_state s, cpu_aff s, cpu_lvl s, cpu_st s)"

lemma psci_viewD:
  assumes "psci_view t = psci_view s"
  shows "psci_shape t = psci_shape s" "node_state t = node_state s" "req_state t = req_state s"
    and "cpu_aff t = cpu_aff s" "cpu_lvl t = cpu_lvl s" "cpu_st t = cpu_st s"
  using assms by (simp_all add: psci_view_def)

lemma psci_view_stat_erase: "stat_erase t = stat_erase s \<Longrightarrow> psci_view t = psci_view s"
  using stat_erase_fields [of t s]
  by (simp add: psci_view_def psci_shape_def psci_topology_def node_state_def req_state_def
      cpu_aff_def cpu_lvl_def cpu_st_def fun_eq_iff)

lemma psci_view_simps [simp]:
  "psci_view (log_event ev s) = psci_view s"
  "psci_view (log_event_if b ev s) = psci_view s"
  "psci_view (psci_lock_get i s) = psci_view s"
  "psci_view (psci_lock_release i s) = psci_view s"
  "psci_view (psci_stats_update_pwr_down c L info s) = psci_view s"
  "psci_view (psci_stats_update_pwr_up e c L info s) = psci_view s"
proof -
  show "psci_view (psci_stats_update_pwr_down c L info s) = psci_view s"
    "psci_view (psci_stats_update_pwr_up e c L info s) = psci_view s"
    by (rule psci_view_stat_erase; simp)+
qed (simp_all add: psci_view_def fun_eq_iff psci_lock_get_def psci_lock_release_def)

lemma psci_view_fold_locks [simp]:
  "psci_view (psci_acquire_pwr_domain_locks L ps s) = psci_view s"
  "psci_view (psci_release_pwr_domain_locks L ps s) = psci_view s"
proof -
  have "psci_view (fold (\<lambda>l. psci_lock_get (ps ! (l - 1))) ls s) = psci_view s"
    "psci_view (fold (\<lambda>l. psci_lock_release (ps ! (l - 1))) ls s) = psci_view s" for ls
    by (induction ls arbitrary: s) simp_all
  then show "psci_view (psci_acquire_pwr_domain_locks L ps s) = psci_view s"
    "psci_view (psci_release_pwr_domain_locks L ps s) = psci_view s"
    by (simp_all add: psci_acquire_pwr_domain_locks_def psci_release_pwr_domain_locks_def)
qed

end
