(* ===== verification/Psci_Power.thy ===== *)
theory Psci_Power
  imports Psci_Stat
begin

text \<open>
  The two transitions every PSCI handler composes: going down (coordinate, then write the agreed
  states into the CPU and its ancestors) and coming up (set the CPU and its ancestors to run).
  Both keep the invariant of the power domain tree: a domain that some CPU below it still requests
  to run is running.
\<close>

section \<open>The invariant\<close>

definition run_requests_honoured :: "psci_env \<Rightarrow> psci_state \<Rightarrow> bool" where
  "run_requests_honoured e s \<longleftrightarrow>
     list_all (\<lambda>c. list_all (\<lambda>k. req_state s k c = PSCI_LOCAL_STATE_RUN
                               \<longrightarrow> node_state s (psci_ancestor s c k) = PSCI_LOCAL_STATE_RUN)
                 [0..<PLAT_MAX_PWR_LVL e])
       [0..<psci_plat_core_count s]"

definition psci_inv :: "psci_env \<Rightarrow> psci_state \<Rightarrow> bool" where
  "psci_inv e s \<longleftrightarrow> psci_wf e s \<and> run_requests_honoured e s"

lemma run_requests_honoured_iff:
  "run_requests_honoured e s \<longleftrightarrow>
     (\<forall>c < psci_plat_core_count s. \<forall>k < PLAT_MAX_PWR_LVL e.
        req_state s k c = PSCI_LOCAL_STATE_RUN \<longrightarrow> node_state s (psci_ancestor s c k) = PSCI_LOCAL_STATE_RUN)"
  by (auto simp: run_requests_honoured_def list_all_iff)

lemma psci_inv_view:
  assumes "psci_view t = psci_view s"
  shows "psci_inv e t = psci_inv e s"
proof -
  note sh = psci_viewD(1) [OF assms]
  show ?thesis
    by (simp only: psci_inv_def run_requests_honoured_def wf_shape [OF sh] core_count_shape [OF sh]
        ancestor_shape [OF sh] psci_viewD [OF assms])
qed

lemma psci_inv_aff:
  assumes "psci_shape t = psci_shape s" "node_state t = node_state s" "req_state t = req_state s"
  shows "psci_inv e t = psci_inv e s"
  by (simp only: psci_inv_def run_requests_honoured_def wf_shape [OF assms(1)]
      core_count_shape [OF assms(1)] ancestor_shape [OF assms(1)] assms(2,3))

section \<open>Going down\<close>

definition go_down ::
  "psci_env \<Rightarrow> nat \<Rightarrow> nat \<Rightarrow> psci_power_state_t \<Rightarrow> psci_state \<Rightarrow> psci_power_state_t \<times> psci_state" where
  "go_down e me L info s =
     (let (info, s) = psci_do_state_coordination e me L info s
      in (info, psci_set_target_local_pwr_states me L info s))"

lemma set_target_views:
  assumes "psci_wf e s" "me < psci_plat_core_count s" "L \<le> PLAT_MAX_PWR_LVL e"
    and "t = psci_set_target_local_pwr_states me L info s"
  shows "psci_shape t = psci_shape s" "req_state t = req_state s" "cpu_aff t = cpu_aff s"
    and "cpu_lvl t = cpu_lvl s" "cpu_st t = (cpu_st s)(me := pwr_domain_state info ! 0)"
    and "events t = events s"
    and "c < psci_plat_core_count s \<Longrightarrow> k < PLAT_MAX_PWR_LVL e \<Longrightarrow>
           node_state t (psci_ancestor s c k) =
             (if k < L \<and> psci_ancestor s c k = psci_ancestor s me k
              then pwr_domain_state info ! Suc k else node_state s (psci_ancestor s c k))"
proof -
  define s1 where "s1 = psci_set_cpu_local_state me (pwr_domain_state info ! 0) s"
  have sh: "psci_shape s1 = psci_shape s" by (simp add: s1_def)
  have cpu: "psci_cpu_pd_nodes s1 = psci_cpu_pd_nodes s" "events s1 = events s"
    by (simp_all add: s1_def psci_set_cpu_local_state_def upd_cpu_data_def)
  have t: "t = set_target_loop (pwr_domain_state info) L (Suc 0) (psci_ancestor s1 me 0) s1"
    by (simp add: assms(4) psci_set_target_local_pwr_states_def s1_def [symmetric] cpu)
  have len: "me < length (psci_svc_cpu_data s)" using wf_lengths [OF assms(1)] assms(2) by simp
  note v = cpu_views_setters [OF len]
  show "psci_shape t = psci_shape s" "req_state t = req_state s" "cpu_aff t = cpu_aff s"
    "cpu_lvl t = cpu_lvl s" "cpu_st t = (cpu_st s)(me := pwr_domain_state info ! 0)"
    "events t = events s"
    by (auto simp: t set_target_loop_frame fun_eq_iff cpu) (simp_all add: s1_def v)
  assume "c < psci_plat_core_count s" "k < PLAT_MAX_PWR_LVL e"
  then have "node_state t (psci_ancestor s1 c k) =
      (if k < L \<and> psci_ancestor s1 c k = psci_ancestor s1 me k
       then pwr_domain_state info ! Suc k else node_state s1 (psci_ancestor s1 c k))"
    using set_target_loop_nodes [of e s1 me 0 L c k "pwr_domain_state info"] assms(1-3)
      wf_shape [OF sh, of e] core_count_shape [OF sh]
    by (simp add: t)
  then show "node_state t (psci_ancestor s c k) =
             (if k < L \<and> psci_ancestor s c k = psci_ancestor s me k
              then pwr_domain_state info ! Suc k else node_state s (psci_ancestor s c k))"
    unfolding ancestor_shape [OF sh] by (simp add: s1_def)
qed

lemma go_down_views:
  assumes "go_down e me L info s = (info', t)" "psci_wf e s" "me < psci_plat_core_count s"
    and "L \<le> PLAT_MAX_PWR_LVL e" "length (pwr_domain_state info) = Suc (PLAT_MAX_PWR_LVL e)"
  shows "psci_shape t = psci_shape s" "cpu_aff t = cpu_aff s" "cpu_lvl t = cpu_lvl s"
    and "cpu_st t = (cpu_st s)(me := pwr_domain_state info ! 0)" "events t = events s"
    and "req_state t k c = (if k < L \<and> c = me then pwr_domain_state info ! Suc k else req_state s k c)"
    and "c < psci_plat_core_count s \<Longrightarrow> k < PLAT_MAX_PWR_LVL e \<Longrightarrow>
           node_state t (psci_ancestor s c k) =
             (if k < L \<and> psci_ancestor s c k = psci_ancestor s me k
              then coord_result e me info s 0 k else node_state s (psci_ancestor s c k))"
    and "length (pwr_domain_state info') = Suc (PLAT_MAX_PWR_LVL e)"
    and "k < L \<Longrightarrow> pwr_domain_state info' ! Suc k = coord_result e me info s 0 k"
    and "pwr_domain_state info' ! 0 = pwr_domain_state info ! 0"
proof -
  obtain s1 where c: "psci_do_state_coordination e me L info s = (info', s1)"
    and t: "t = psci_set_target_local_pwr_states me L info' s1"
    using assms(1) by (auto simp: go_down_def split: prod.splits)
  note co = psci_do_state_coordination_views [OF c assms(2-5)]
  note o = only_reqD [OF conjunct1 [OF co]]
  have wf1: "psci_wf e s1" "me < psci_plat_core_count s1"
    using assms(2,3) wf_shape [OF o(1)] core_count_shape [OF o(1)] by simp_all
  note st = set_target_views [OF wf1 assms(4) t]
  have i0: "pwr_domain_state info' ! 0 = pwr_domain_state info ! 0" using co assms(5) by auto
  show "psci_shape t = psci_shape s" "cpu_aff t = cpu_aff s" "cpu_lvl t = cpu_lvl s" "events t = events s"
    "cpu_st t = (cpu_st s)(me := pwr_domain_state info ! 0)"
    using st(1,3-6) by (auto simp: fun_eq_iff o i0)
  show "req_state t k c = (if k < L \<and> c = me then pwr_domain_state info ! Suc k else req_state s k c)"
    using co st(2) by simp
  show "length (pwr_domain_state info') = Suc (PLAT_MAX_PWR_LVL e)"
    "k < L \<Longrightarrow> pwr_domain_state info' ! Suc k = coord_result e me info s 0 k"
    "pwr_domain_state info' ! 0 = pwr_domain_state info ! 0"
    using co assms(5) by auto
  assume "c < psci_plat_core_count s" "k < PLAT_MAX_PWR_LVL e"
  then show "node_state t (psci_ancestor s c k) =
             (if k < L \<and> psci_ancestor s c k = psci_ancestor s me k
              then coord_result e me info s 0 k else node_state s (psci_ancestor s c k))"
    using st(7) [of c k] co
    unfolding ancestor_shape [OF o(1)] core_count_shape [OF o(1)] by (simp add: o(6))
qed

text \<open>Going down turns no domain off that another CPU, or this one, still wants to run.\<close>

lemma go_down_inv:
  assumes "go_down e me L info s = (info', t)" "psci_inv e s" "me < psci_plat_core_count s"
    and "L \<le> PLAT_MAX_PWR_LVL e" "length (pwr_domain_state info) = Suc (PLAT_MAX_PWR_LVL e)"
    and "coordinating_platform (plat_get_target_pwr_state e)"
  shows "psci_inv e t"
proof -
  have wf: "psci_wf e s" and rr: "run_requests_honoured e s"
    using assms(2) by (simp_all add: psci_inv_def)
  note v = go_down_views [OF assms(1) wf assms(3-5)]
  have "node_state t (psci_ancestor s c k) = PSCI_LOCAL_STATE_RUN"
    if "c < psci_plat_core_count s" "k < PLAT_MAX_PWR_LVL e" "req_state t k c = PSCI_LOCAL_STATE_RUN" for c k
  proof (cases "k < L \<and> psci_ancestor s c k = psci_ancestor s me k")
    case True
    then have "coord_result e me info s 0 k = PSCI_LOCAL_STATE_RUN"
      using that v(6) [of k c]
      by (intro coord_result_run_request [OF assms(6) wf assms(3)]) (auto split: if_splits)
    with True show ?thesis using v(7) [OF that(1,2)] by simp
  next
    case False
    then show ?thesis
      using that v(6) [of k c] v(7) [OF that(1,2)] rr
      by (auto simp: run_requests_honoured_iff split: if_splits)
  qed
  then show ?thesis
    using wf wf_shape [OF v(1)] core_count_shape [OF v(1)]
    unfolding psci_inv_def run_requests_honoured_iff ancestor_shape [OF v(1)] by simp
qed

section \<open>Coming up\<close>

lemma set_to_run_views:
  assumes "psci_wf e s" "me < psci_plat_core_count s" "L \<le> PLAT_MAX_PWR_LVL e"
    and "t = psci_set_pwr_domains_to_run e me L s"
  shows "psci_shape t = psci_shape s" "cpu_aff t = (cpu_aff s)(me := AFF_STATE_ON)"
    and "cpu_lvl t = cpu_lvl s" "cpu_st t = (cpu_st s)(me := PSCI_LOCAL_STATE_RUN)" "events t = events s"
    and "c < psci_plat_core_count s \<Longrightarrow> k < PLAT_MAX_PWR_LVL e \<Longrightarrow>
           req_state t k c = (if k < L \<and> c = me then PSCI_LOCAL_STATE_RUN else req_state s k c)"
    and "c < psci_plat_core_count s \<Longrightarrow> k < PLAT_MAX_PWR_LVL e \<Longrightarrow>
           node_state t (psci_ancestor s c k) =
             (if k < L \<and> psci_ancestor s c k = psci_ancestor s me k
              then PSCI_LOCAL_STATE_RUN else node_state s (psci_ancestor s c k))"
proof -
  define s1 where "s1 = set_run_loop e me L (Suc 0) (psci_ancestor s me 0) s"
  define s2 where "s2 = psci_set_aff_info_state me AFF_STATE_ON s1"
  have t: "t = psci_set_cpu_local_state me PSCI_LOCAL_STATE_RUN s2"
    by (simp add: assms(4) psci_set_pwr_domains_to_run_def s1_def s2_def)
  have sh: "psci_shape s1 = psci_shape s" "psci_shape s2 = psci_shape s"
    by (simp_all add: s2_def s1_def set_run_loop_frame)
  have len: "me < length (psci_svc_cpu_data s1)" "me < length (psci_svc_cpu_data s2)"
    using wf_lengths [OF assms(1)] assms(2) sh by (simp_all add: psci_shape_def)
  note fr = set_run_loop_frame [of e me L "Suc 0" "psci_ancestor s me 0" s, folded s1_def]
  note v1 = cpu_views_setters [OF len(1)] and v2 = cpu_views_setters [OF len(2)]
  have a2: "cpu_aff s2 x = (if me = x then AFF_STATE_ON else cpu_aff s x)"
    "cpu_lvl s2 x = cpu_lvl s x" "cpu_st s2 x = cpu_st s x" "events s2 = events s" for x
    by (simp_all add: s2_def v1 fr) (simp add: psci_set_aff_info_state_def upd_cpu_data_def fr)
  show "psci_shape t = psci_shape s" "cpu_aff t = (cpu_aff s)(me := AFF_STATE_ON)"
    "cpu_lvl t = cpu_lvl s" "cpu_st t = (cpu_st s)(me := PSCI_LOCAL_STATE_RUN)" "events t = events s"
    using sh(2) a2 by (auto simp: t v2 fun_eq_iff)
      (simp add: psci_set_cpu_local_state_def upd_cpu_data_def)
  assume ck: "c < psci_plat_core_count s" "k < PLAT_MAX_PWR_LVL e"
  note l = set_run_loop_views [OF assms(1,2) _ ck, of 0 L, folded s1_def]
  show "req_state t k c = (if k < L \<and> c = me then PSCI_LOCAL_STATE_RUN else req_state s k c)"
    "node_state t (psci_ancestor s c k) =
             (if k < L \<and> psci_ancestor s c k = psci_ancestor s me k
              then PSCI_LOCAL_STATE_RUN else node_state s (psci_ancestor s c k))"
    using l assms(3) by (simp_all add: t s2_def)
qed

lemma set_to_run_inv:
  assumes "psci_inv e s" "me < psci_plat_core_count s" "L \<le> PLAT_MAX_PWR_LVL e"
  shows "psci_inv e (psci_set_pwr_domains_to_run e me L s)"
proof -
  have wf: "psci_wf e s" and rr: "run_requests_honoured e s"
    using assms(1) by (simp_all add: psci_inv_def)
  note v = set_to_run_views [OF wf assms(2,3) refl]
  show ?thesis
    using rr wf wf_shape [OF v(1)] v(6,7)
    unfolding psci_inv_def run_requests_honoured_iff ancestor_shape [OF v(1)] core_count_shape [OF v(1)]
    by (auto split: if_splits)
qed

end
