(* ===== verification/Psci_On.thy ===== *)
theory Psci_On
  imports Psci_Stat
begin

text \<open>
  \<open>CPU_ON\<close> of \<open>lib/psci/psci_on.c\<close>: the handler on the calling CPU, which moves the target from
  \<open>OFF\<close> to \<open>ON_PENDING\<close>, and the finisher the target runs after its warm reset.
\<close>

section \<open>Definitions\<close>

definition psci_spin_lock_cpu :: "nat \<Rightarrow> psci_state \<Rightarrow> psci_state" where
  "psci_spin_lock_cpu idx = log_event (Cpu_lock idx)"

definition psci_spin_unlock_cpu :: "nat \<Rightarrow> psci_state \<Rightarrow> psci_state" where
  "psci_spin_unlock_cpu idx = log_event (Cpu_unlock idx)"

fun cpu_on_validate_state :: "aff_info_state_t \<Rightarrow> int" where
  "cpu_on_validate_state AFF_STATE_ON = PSCI_E_ALREADY_ON"
| "cpu_on_validate_state AFF_STATE_ON_PENDING = PSCI_E_ON_PENDING"
| "cpu_on_validate_state AFF_STATE_OFF = PSCI_E_SUCCESS"

text \<open>\<open>psci_spd_pm != NULL && psci_spd_pm->hook != NULL\<close>.\<close>

definition spd_has :: "(spd_pm_ops_t \<Rightarrow> bool) \<Rightarrow> psci_state \<Rightarrow> bool" where
  "spd_has hook s = (case psci_spd_pm s of None \<Rightarrow> False | Some pm \<Rightarrow> hook pm)"

text \<open>\<open>cm_init_context_by_index\<close>: the entry point becomes the non-secure context of the CPU.\<close>

definition cm_init_context_by_index :: "nat \<Rightarrow> entry_point_info_t \<Rightarrow> psci_state \<Rightarrow> psci_state" where
  "cm_init_context_by_index idx ep s = s\<lparr>psci_ns_context := (psci_ns_context s)[idx := Some ep]\<rparr>"

definition psci_cpu_on_start ::
  "psci_env \<Rightarrow> u_register_t \<Rightarrow> entry_point_info_t \<Rightarrow> psci_state \<Rightarrow> int outcome \<times> psci_state" where
  "psci_cpu_on_start e target_cpu ep s =
     (let target_idx = nat (plat_core_pos_by_mpidr e target_cpu);
          ops = psci_plat_pm_ops e
      in case pwr_domain_on ops of
           None \<Rightarrow> (Assert_failed, s)
         | Some plat_on \<Rightarrow>
         if ENABLE_ASSERTIONS e \<and> \<not> pwr_domain_on_finish ops then (Assert_failed, s)
         else
           let s = psci_spin_lock_cpu target_idx s;
               rc = cpu_on_validate_state (psci_get_aff_info_state_by_idx target_idx s)
           in if rc \<noteq> PSCI_E_SUCCESS then (Returned rc, psci_spin_unlock_cpu target_idx s)
              else
                let s = log_event_if (spd_has svc_on s) (Svc_on target_cpu) s;
                    s = psci_set_aff_info_state_by_idx target_idx AFF_STATE_ON_PENDING s;
                    target_aff_state = psci_get_aff_info_state_by_idx target_idx s;
                    s = (if target_aff_state \<noteq> AFF_STATE_ON_PENDING
                         then psci_set_aff_info_state_by_idx target_idx AFF_STATE_ON_PENDING s else s);
                    rc = plat_on (events s) target_cpu;
                    s = log_event (Plat_pwr_domain_on target_cpu) s
                in if ENABLE_ASSERTIONS e \<and> rc \<noteq> PSCI_E_SUCCESS \<and> rc \<noteq> PSCI_E_INTERN_FAIL
                   then (Assert_failed, s)
                   else
                     let s = (if rc = PSCI_E_SUCCESS then cm_init_context_by_index target_idx ep s
                              else psci_set_aff_info_state_by_idx target_idx AFF_STATE_OFF s)
                     in (Returned rc, psci_spin_unlock_cpu target_idx s))"

abbreviation (input) MPIDR_AFFINITY_MASK :: u_register_t where "MPIDR_AFFINITY_MASK \<equiv> 0xff00ffffff"

definition set_node_mpidr :: "psci_env \<Rightarrow> nat \<Rightarrow> psci_state \<Rightarrow> psci_state" where
  "set_node_mpidr e cpu_idx s =
     s\<lparr>psci_cpu_pd_nodes :=
         (psci_cpu_pd_nodes s)[cpu_idx := (psci_cpu_pd_nodes s ! cpu_idx)
                                 \<lparr>mpidr := read_mpidr e cpu_idx AND MPIDR_AFFINITY_MASK\<rparr>]\<rparr>"

definition psci_cpu_on_finish ::
  "psci_env \<Rightarrow> nat \<Rightarrow> psci_power_state_t \<Rightarrow> psci_state \<Rightarrow> unit outcome \<times> psci_state" where
  "psci_cpu_on_finish e cpu_idx state_info s =
     (let ops = psci_plat_pm_ops e
      in if \<not> pwr_domain_on_finish ops then (Assert_failed, s)
         else
           let s = log_event (Plat_pwr_domain_on_finish (pwr_domain_state state_info)) s;
               s = log_event_if (pwr_domain_on_finish_late ops) Plat_pwr_domain_on_finish_late s;
               s = log_event Psci_arch_setup s;
               s = psci_spin_lock_cpu cpu_idx s;
               s = psci_spin_unlock_cpu cpu_idx s
           in if ENABLE_ASSERTIONS e \<and> psci_get_aff_info_state cpu_idx s \<noteq> AFF_STATE_ON_PENDING
              then (Assert_failed, s)
              else
                let s = log_event_if (spd_has svc_on_finish s) Svc_on_finish s;
                    s = log_event Publish_cpu_on_finish s
                in (Returned (), set_node_mpidr e cpu_idx s))"

section \<open>What the handlers leave in the power state\<close>

lemma psci_view_cm_init [simp]: "psci_view (cm_init_context_by_index c ep s) = psci_view s"
  by (simp add: psci_view_def psci_shape_def psci_topology_def cm_init_context_by_index_def
      node_state_def req_state_def cpu_aff_def cpu_lvl_def cpu_st_def fun_eq_iff)

lemma map_parent_update:
  "f (g (xs ! i)) = f (xs ! i) \<Longrightarrow> map f (xs[i := g (xs ! i)]) = map f xs"
  by (cases "i < length xs") (auto simp: map_update list_update_beyond intro!: nth_equalityI
      simp: nth_list_update)

lemma psci_view_set_node_mpidr [simp]: "psci_view (set_node_mpidr e c s) = psci_view s"
  by (simp add: psci_view_def psci_shape_def psci_topology_def set_node_mpidr_def
      node_state_def req_state_def cpu_aff_def cpu_lvl_def cpu_st_def fun_eq_iff
      map_parent_update [of cpu_parent_node "\<lambda>n. n\<lparr>mpidr := m\<rparr>" for m])

lemma psci_view_spin [simp]:
  "psci_view (psci_spin_lock_cpu c s) = psci_view s"
  "psci_view (psci_spin_unlock_cpu c s) = psci_view s"
  by (simp_all add: psci_spin_lock_cpu_def psci_spin_unlock_cpu_def)

lemma psci_cpu_on_finish_view:
  "psci_cpu_on_finish e c info s = (r, s') \<Longrightarrow> psci_view s' = psci_view s"
  by (auto simp: psci_cpu_on_finish_def Let_def split: if_splits)

lemma ns_context_log [simp]:
  "psci_ns_context (log_event ev s) = psci_ns_context s"
  "psci_ns_context (log_event_if b ev s) = psci_ns_context s"
  "psci_ns_context (psci_spin_lock_cpu c s) = psci_ns_context s"
  "psci_ns_context (psci_spin_unlock_cpu c s) = psci_ns_context s"
  "psci_ns_context (psci_set_aff_info_state_by_idx c st s) = psci_ns_context s"
  by (simp_all add: log_event_def log_event_if_def psci_spin_lock_cpu_def psci_spin_unlock_cpu_def
      psci_set_aff_info_state_by_idx_def upd_cpu_data_def)

lemma view_components [simp]:
  "cpu_aff (psci_spin_lock_cpu c s) = cpu_aff s" "cpu_aff (psci_spin_unlock_cpu c s) = cpu_aff s"
  "cpu_aff (cm_init_context_by_index c ep s) = cpu_aff s"
  by (rule psci_viewD(4); simp)+

lemma svc_length_shape: "psci_shape s = psci_shape t \<Longrightarrow> length (psci_svc_cpu_data s) = length (psci_svc_cpu_data t)"
  by (simp add: psci_shape_def)

lemma svc_length_log [simp]:
  "length (psci_svc_cpu_data (log_event ev s)) = length (psci_svc_cpu_data s)"
  "length (psci_svc_cpu_data (log_event_if b ev s)) = length (psci_svc_cpu_data s)"
  "length (psci_svc_cpu_data (psci_spin_lock_cpu c s)) = length (psci_svc_cpu_data s)"
  "length (psci_svc_cpu_data (psci_set_aff_info_state_by_idx c st s)) = length (psci_svc_cpu_data s)"
  by (simp_all add: log_event_def log_event_if_def psci_spin_lock_cpu_def
      psci_set_aff_info_state_by_idx_def upd_cpu_data_def)

text \<open>A write of \<open>aff_info_state\<close> changes that one entry of the view.\<close>

definition aff_write :: "nat \<Rightarrow> aff_info_state_t \<Rightarrow> psci_state \<Rightarrow> psci_state \<Rightarrow> bool" where
  "aff_write c st s t \<longleftrightarrow>
     psci_shape t = psci_shape s \<and> node_state t = node_state s \<and> req_state t = req_state s
     \<and> cpu_aff t = (cpu_aff s)(c := st) \<and> cpu_lvl t = cpu_lvl s \<and> cpu_st t = cpu_st s"

lemma aff_write_set:
  assumes "c < length (psci_svc_cpu_data s)"
  shows "aff_write c st s (psci_set_aff_info_state_by_idx c st s)"
    and "aff_write c st s (psci_set_aff_info_state c st s)"
  using cpu_views_setters [OF assms] by (auto simp: aff_write_def fun_eq_iff)

lemma aff_write_view: "aff_write c st s t \<Longrightarrow> psci_view t' = psci_view t \<Longrightarrow> aff_write c st s t'"
  by (simp add: aff_write_def psci_view_def)

lemma aff_write_view2: "psci_view s = psci_view s' \<Longrightarrow> aff_write c st s t \<Longrightarrow> aff_write c st s' t"
  by (simp add: aff_write_def psci_view_def)

lemma aff_write_twice: "aff_write c st s t \<Longrightarrow> aff_write c st' t u \<Longrightarrow> aff_write c st' s u"
  by (simp add: aff_write_def)

section \<open>The contract of CPU_ON\<close>

lemma cpu_on_validate_state_iff:
  "cpu_on_validate_state st = PSCI_E_SUCCESS \<longleftrightarrow> st = AFF_STATE_OFF"
  by (cases st) simp_all

lemma psci_cpu_on_start_busy:
  assumes "pwr_domain_on (psci_plat_pm_ops e) = Some f" "pwr_domain_on_finish (psci_plat_pm_ops e)"
    and "cpu_aff s (nat (plat_core_pos_by_mpidr e t)) \<noteq> AFF_STATE_OFF"
  shows "\<exists>s'. psci_cpu_on_start e t ep s =
           (Returned (cpu_on_validate_state (cpu_aff s (nat (plat_core_pos_by_mpidr e t)))), s')
         \<and> psci_view s' = psci_view s \<and> psci_ns_context s' = psci_ns_context s"
  using assms by (auto simp: psci_cpu_on_start_def Let_def cpu_on_validate_state_iff)

lemma psci_cpu_on_start_off:
  assumes "pwr_domain_on (psci_plat_pm_ops e) = Some f" "pwr_domain_on_finish (psci_plat_pm_ops e)"
    and "\<And>evs. f evs t = PSCI_E_SUCCESS \<or> f evs t = PSCI_E_INTERN_FAIL"
    and "c = nat (plat_core_pos_by_mpidr e t)" "c < length (psci_svc_cpu_data s)"
    and "cpu_aff s c = AFF_STATE_OFF"
  shows "\<exists>rc s'. psci_cpu_on_start e t ep s = (Returned rc, s')
         \<and> (rc = PSCI_E_SUCCESS \<and> aff_write c AFF_STATE_ON_PENDING s s'
              \<and> psci_ns_context s' = (psci_ns_context s)[c := Some ep]
            \<or> rc = PSCI_E_INTERN_FAIL \<and> aff_write c AFF_STATE_OFF s s'
              \<and> psci_ns_context s' = psci_ns_context s)"
proof -
  define s1 where "s1 = log_event_if (spd_has svc_on (psci_spin_lock_cpu c s)) (Svc_on t) (psci_spin_lock_cpu c s)"
  define s2 where "s2 = psci_set_aff_info_state_by_idx c AFF_STATE_ON_PENDING s1"
  define rc where "rc = f (events s2) t"
  define s3 where "s3 = log_event (Plat_pwr_domain_on t) s2"
  have v1: "psci_view s1 = psci_view s" by (simp add: s1_def)
  have len: "c < length (psci_svc_cpu_data s1)" "c < length (psci_svc_cpu_data s3)"
    using assms(5) by (simp_all add: s3_def s2_def s1_def)
  have w: "aff_write c AFF_STATE_ON_PENDING s s2"
    unfolding s2_def by (rule aff_write_view2 [OF v1 aff_write_set(1) [OF len(1)]])
  have p2: "cpu_aff s2 c = AFF_STATE_ON_PENDING" using w by (simp add: aff_write_def)
  have run: "psci_cpu_on_start e t ep s =
      (Returned rc, psci_spin_unlock_cpu c
         (if rc = PSCI_E_SUCCESS then cm_init_context_by_index c ep s3
          else psci_set_aff_info_state_by_idx c AFF_STATE_OFF s3))"
    using assms(1,2,6) assms(3) [of "events s2"] p2
    by (auto simp: psci_cpu_on_start_def Let_def assms(4) [symmetric] s1_def [symmetric]
        s2_def [symmetric] rc_def [symmetric] s3_def [symmetric])
  have w3: "aff_write c AFF_STATE_ON_PENDING s s3"
    by (rule aff_write_view [OF w]) (simp add: s3_def)
  have wc: "aff_write c AFF_STATE_ON_PENDING s (psci_spin_unlock_cpu c (cm_init_context_by_index c ep s3))"
    by (rule aff_write_view [OF w3]) simp
  have wo: "aff_write c AFF_STATE_OFF s (psci_spin_unlock_cpu c (psci_set_aff_info_state_by_idx c AFF_STATE_OFF s3))"
    by (rule aff_write_view [OF aff_write_twice [OF w3 aff_write_set(1) [OF len(2)]]]) simp
  have ctx: "psci_ns_context s3 = psci_ns_context s"
    by (simp add: s3_def s2_def s1_def)
  show ?thesis
    using run wc wo ctx assms(3) [of "events s2"]
    by (auto simp: rc_def [symmetric] cm_init_context_by_index_def)
qed

end
