(* ===== verification/Psci_Off.thy ===== *)
theory Psci_Off
  imports Psci_Power Psci_On
begin

text \<open>
  \<open>CPU_OFF\<close> of \<open>lib/psci/psci_off.c\<close>. The handler either gives up before anything changes, or
  coordinates a power-down of the CPU and its ancestors under their locks, marks the CPU \<open>OFF\<close>
  after releasing them and does not return.
\<close>

section \<open>Definitions\<close>

definition psci_set_power_off_state :: "psci_env \<Rightarrow> psci_power_state_t" where
  "psci_set_power_off_state e =
     \<lparr>pwr_domain_state = replicate (Suc (PLAT_MAX_PWR_LVL e)) (PLAT_MAX_OFF_STATE e), last_at_pwrlvl = 0\<rparr>"

text \<open>A hook of the dispatcher that returns a value, when both pointers are set.\<close>

definition spd_hook :: "(spd_pm_ops_t \<Rightarrow> 'h option) \<Rightarrow> psci_state \<Rightarrow> 'h option" where
  "spd_hook hook s = (case psci_spd_pm s of None \<Rightarrow> None | Some pm \<Rightarrow> hook pm)"

definition psci_pwrdown_cpu :: "nat \<Rightarrow> psci_state \<Rightarrow> psci_state" where
  "psci_pwrdown_cpu power_level = log_event (Pwrdown_cpu power_level)"

text \<open>The final \<open>wfi\<close>: the platform's, or the one of the generic code.\<close>

definition final_wfi :: "psci_env \<Rightarrow> psci_state \<Rightarrow> psci_state" where
  "final_wfi e = log_event (if pwr_domain_pwr_down_wfi (psci_plat_pm_ops e) then Plat_pwr_down_wfi else Wfi)"

text \<open>The section of \<open>psci_do_cpu_off\<close> between the dispatcher's consent and the label \<open>exit\<close>.\<close>

definition cpu_off_commit :: "psci_env \<Rightarrow> nat \<Rightarrow> nat \<Rightarrow> psci_power_state_t \<Rightarrow> psci_state \<Rightarrow> psci_state" where
  "cpu_off_commit e me end_pwrlvl state_info s =
     (let (state_info, s) = psci_do_state_coordination e me end_pwrlvl state_info s;
          s = psci_set_target_local_pwr_states me end_pwrlvl state_info s;
          s = (if ENABLE_PSCI_STAT e then psci_stats_update_pwr_down me end_pwrlvl state_info s else s);
          s = psci_pwrdown_cpu (psci_find_max_off_lvl e state_info) s;
          s = log_event (Plat_pwr_domain_off (pwr_domain_state state_info)) s
      in log_event_if (ENABLE_PSCI_STAT e) Stat_accounting_start s)"

definition psci_do_cpu_off :: "psci_env \<Rightarrow> nat \<Rightarrow> nat \<Rightarrow> psci_state \<Rightarrow> int outcome \<times> psci_state" where
  "psci_do_cpu_off e me end_pwrlvl s =
     (let ops = psci_plat_pm_ops e;
          state_info = psci_set_power_off_state e
      in if \<not> pwr_domain_off ops then (Assert_failed, s)
         else
           let (rc, s) = (case pwr_domain_off_early ops of
                            None \<Rightarrow> (PSCI_E_SUCCESS, s)
                          | Some f \<Rightarrow> (f (events s) state_info, log_event Plat_pwr_domain_off_early s))
           in if pwr_domain_off_early ops \<noteq> None \<and> rc = PSCI_E_DENIED then (Returned rc, s)
              else
                let parent_nodes = psci_get_parent_pwr_domain_nodes me end_pwrlvl s;
                    s = psci_acquire_pwr_domain_locks end_pwrlvl parent_nodes s;
                    (rc, go_exit, s) = (case spd_hook svc_off s of
                                          None \<Rightarrow> (rc, False, s)
                                        | Some f \<Rightarrow> (f (events s), f (events s) \<noteq> 0, log_event Svc_off s));
                    s = (if go_exit then s else cpu_off_commit e me end_pwrlvl state_info s);
                    s = psci_release_pwr_domain_locks end_pwrlvl parent_nodes s
                in if rc = PSCI_E_SUCCESS
                   then (Power_down, final_wfi e (psci_set_aff_info_state me AFF_STATE_OFF s))
                   else (Returned rc, s))"

section \<open>Effect on the power state\<close>

lemma psci_view_off [simp]:
  "psci_view (psci_pwrdown_cpu l s) = psci_view s"
  "psci_view (final_wfi e s) = psci_view s"
  by (simp_all add: psci_pwrdown_cpu_def final_wfi_def)

lemma off_state_length [simp]:
  "length (pwr_domain_state (psci_set_power_off_state e)) = Suc (PLAT_MAX_PWR_LVL e)"
  by (simp add: psci_set_power_off_state_def)

lemma off_state_nth:
  "k \<le> PLAT_MAX_PWR_LVL e \<Longrightarrow> pwr_domain_state (psci_set_power_off_state e) ! k = PLAT_MAX_OFF_STATE e"
  using nth_replicate [of k "Suc (PLAT_MAX_PWR_LVL e)" "PLAT_MAX_OFF_STATE e"]
  by (simp add: psci_set_power_off_state_def del: nth_replicate replicate_Suc)

lemma cpu_off_commit_view:
  assumes "go_down e me L info s = (info', t)"
  shows "psci_view (cpu_off_commit e me L info s) = psci_view t"
proof -
  obtain s1 where "psci_do_state_coordination e me L info s = (info', s1)"
    "t = psci_set_target_local_pwr_states me L info' s1"
    using assms by (auto simp: go_down_def split: prod.splits)
  then show ?thesis by (simp add: cpu_off_commit_def Let_def)
qed

text \<open>
  The platform's early hook is asked for \<open>PSCI_E_DENIED\<close> to abort or success to go on
  (\<open>docs/porting-guide.rst\<close>).
\<close>

definition off_early_ok :: "psci_env \<Rightarrow> bool" where
  "off_early_ok e \<longleftrightarrow>
     (case pwr_domain_off_early (psci_plat_pm_ops e) of
        None \<Rightarrow> True
      | Some f \<Rightarrow> (\<forall>evs info. f evs info = PSCI_E_SUCCESS \<or> f evs info = PSCI_E_DENIED))"

lemma psci_do_cpu_off_cases:
  assumes "psci_do_cpu_off e me L s = (r, s')" "pwr_domain_off (psci_plat_pm_ops e)" "off_early_ok e"
    and "me < length (psci_svc_cpu_data s)" "psci_wf e s" "me < psci_plat_core_count s" "L \<le> PLAT_MAX_PWR_LVL e"
  shows "(\<exists>rc. r = Returned rc \<and> rc \<noteq> PSCI_E_SUCCESS) \<and> psci_view s' = psci_view s
       \<or> r = Power_down \<and> (\<exists>s0 info' t. psci_view s0 = psci_view s
            \<and> go_down e me L (psci_set_power_off_state e) s0 = (info', t)
            \<and> aff_write me AFF_STATE_OFF t s')"
proof -
  let ?early = "pwr_domain_off_early (psci_plat_pm_ops e)"
  let ?info = "psci_set_power_off_state e"
  define rc0 where "rc0 = (case ?early of None \<Rightarrow> PSCI_E_SUCCESS | Some f \<Rightarrow> f (events s) ?info)"
  define s0 where "s0 = (case ?early of None \<Rightarrow> s | Some f \<Rightarrow> log_event Plat_pwr_domain_off_early s)"
  define ps where "ps = psci_get_parent_pwr_domain_nodes me L s0"
  define s1 where "s1 = psci_acquire_pwr_domain_locks L ps s0"
  define s2 where "s2 = (case spd_hook svc_off s1 of None \<Rightarrow> s1 | Some f \<Rightarrow> log_event Svc_off s1)"
  define rc where "rc = (case spd_hook svc_off s1 of None \<Rightarrow> rc0 | Some f \<Rightarrow> f (events s1))"
  define go where "go = (case spd_hook svc_off s1 of None \<Rightarrow> False | Some f \<Rightarrow> f (events s1) \<noteq> 0)"
  define s3 where "s3 = (if go then s2 else cpu_off_commit e me L ?info s2)"
  define s4 where "s4 = psci_release_pwr_domain_locks L ps s3"
  have early: "rc0 = PSCI_E_SUCCESS \<or> ?early \<noteq> None \<and> rc0 = PSCI_E_DENIED"
    using assms(3) by (auto simp: rc0_def off_early_ok_def split: option.splits)
  have run: "psci_do_cpu_off e me L s =
     (if ?early \<noteq> None \<and> rc0 = PSCI_E_DENIED then (Returned rc0, s0)
      else if rc = PSCI_E_SUCCESS then (Power_down, final_wfi e (psci_set_aff_info_state me AFF_STATE_OFF s4))
      else (Returned rc, s4))"
    using assms(2) unfolding s4_def s3_def rc_def go_def s2_def s1_def ps_def rc0_def s0_def
    by (simp add: psci_do_cpu_off_def Let_def split: option.splits)
  have v0: "psci_view s0 = psci_view s" by (simp add: s0_def split: option.splits)
  have v2: "psci_view s2 = psci_view s" by (simp add: s2_def s1_def v0 split: option.splits)
  show ?thesis
  proof (cases "?early \<noteq> None \<and> rc0 = PSCI_E_DENIED")
    case True
    then show ?thesis using assms(1) v0 unfolding run by auto
  next
    case False
    then have rc0: "rc0 = PSCI_E_SUCCESS" using early by blast
    have go: "go \<longleftrightarrow> rc \<noteq> PSCI_E_SUCCESS"
      using rc0 by (auto simp: go_def rc_def split: option.splits)
    show ?thesis
    proof (cases "rc = PSCI_E_SUCCESS")
      case True
      obtain info' t where d: "go_down e me L ?info s2 = (info', t)" by (cases "go_down e me L ?info s2")
      have v4: "psci_view s4 = psci_view t"
        using True go cpu_off_commit_view [OF d] by (simp add: s4_def s3_def)
      have "me < length (psci_svc_cpu_data s4)"
      proof -
        note sh2 = psci_viewD(1) [OF v2]
        have "psci_wf e s2" "me < psci_plat_core_count s2"
          using assms(5,6) wf_shape [OF sh2] core_count_shape [OF sh2] by simp_all
        from go_down_views(1) [OF d this assms(7)] have "psci_shape s4 = psci_shape s"
          using psci_viewD(1) [OF v4] sh2 by simp
        then show ?thesis using assms(4) svc_length_shape by metis
      qed
      then have "aff_write me AFF_STATE_OFF s4 (final_wfi e (psci_set_aff_info_state me AFF_STATE_OFF s4))"
        by (intro aff_write_view [OF aff_write_set(2)]) simp_all
      then have "aff_write me AFF_STATE_OFF t s'" "r = Power_down"
        using assms(1) False True aff_write_view2 [OF v4] unfolding run by auto
      then show ?thesis using v2 d by blast
    next
      case rc: False
      then have "psci_view s4 = psci_view s" using go v2 by (simp add: s4_def s3_def)
      then show ?thesis using assms(1) False rc unfolding run by auto
    qed
  qed
qed

end
