(* ===== verification/Psci_Suspend.thy ===== *)
theory Psci_Suspend
  imports Psci_Off
begin

text \<open>
  \<open>CPU_SUSPEND\<close> of \<open>lib/psci/psci_suspend.c\<close> and the warm boot path of \<open>psci_common.c\<close>. The part
  of \<open>psci_cpu_suspend_start\<close> that runs under the power domain locks is a definition of its own, so
  that what other CPUs do while this one waits in \<open>wfi\<close> can come between it and the finisher.
\<close>

section \<open>Definitions\<close>

definition psci_suspend_to_standby_finisher ::
  "psci_env \<Rightarrow> nat \<Rightarrow> nat \<Rightarrow> psci_state \<Rightarrow> unit outcome \<times> psci_state" where
  "psci_suspend_to_standby_finisher e cpu_idx end_pwrlvl s =
     (let parent_nodes = psci_get_parent_pwr_domain_nodes cpu_idx end_pwrlvl s;
          s = psci_acquire_pwr_domain_locks end_pwrlvl parent_nodes s;
          state_info = psci_get_target_local_pwr_states e cpu_idx end_pwrlvl (run_state_info e) s;
          s = log_event_if (ENABLE_PSCI_STAT e) Stat_accounting_stop s;
          s = (if ENABLE_PSCI_STAT e then psci_stats_update_pwr_up e cpu_idx end_pwrlvl state_info s else s)
      in if \<not> pwr_domain_suspend_finish (psci_plat_pm_ops e) then (Assert_failed, s)
         else
           let s = log_event (Plat_pwr_domain_suspend_finish (pwr_domain_state state_info)) s;
               s = psci_set_pwr_domains_to_run e cpu_idx end_pwrlvl s
           in (Returned (), psci_release_pwr_domain_locks end_pwrlvl parent_nodes s))"

definition psci_suspend_to_pwrdown_start ::
  "psci_env \<Rightarrow> nat \<Rightarrow> nat \<Rightarrow> entry_point_info_t \<Rightarrow> psci_power_state_t \<Rightarrow> psci_state \<Rightarrow> psci_state" where
  "psci_suspend_to_pwrdown_start e me end_pwrlvl ep state_info s =
     (let max_off_lvl = psci_find_max_off_lvl e state_info;
          s = log_event Publish_suspend_pwrdown_start s;
          end_pwrlvl = (if PSCI_OS_INIT_MODE e then suspend_max_pwrlvl e else end_pwrlvl);
          s = psci_set_suspend_pwrlvl me end_pwrlvl s;
          s = log_event_if (spd_has svc_suspend s) (Svc_suspend max_off_lvl) s;
          s = log_event_if (\<not> HW_ASSISTED_COHERENCY e
                             \<and> pwr_domain_suspend_pwrdown_early (psci_plat_pm_ops e))
                Plat_pwr_domain_suspend_pwrdown_early s;
          s = cm_init_context_by_index me ep s
      in psci_pwrdown_cpu max_off_lvl s)"

text \<open>The section under the locks: whether to skip the \<open>wfi\<close>, the return code and the state.\<close>

definition psci_cpu_suspend_enter ::
  "psci_env \<Rightarrow> nat \<Rightarrow> entry_point_info_t \<Rightarrow> nat \<Rightarrow> psci_power_state_t \<Rightarrow> uint32_t \<Rightarrow> psci_state
     \<Rightarrow> bool \<times> int \<times> psci_state" where
  "psci_cpu_suspend_enter e idx ep end_pwrlvl state_info is_power_down_state s =
     (let parent_nodes = psci_get_parent_pwr_domain_nodes idx end_pwrlvl s;
          s = psci_acquire_pwr_domain_locks end_pwrlvl parent_nodes s;
          (skip_wfi, rc, s) =
            (if read_isr_el1 e (events s) \<noteq> 0 then (True, PSCI_E_SUCCESS, s)
             else
               let (rc, state_info, s) =
                     (if PSCI_OS_INIT_MODE e \<and> psci_suspend_mode s = OS_INIT
                      then let (rc, s) = psci_validate_state_coordination e idx end_pwrlvl state_info s
                           in (rc, state_info, s)
                      else let (state_info, s) = psci_do_state_coordination e idx end_pwrlvl state_info s
                           in (PSCI_E_SUCCESS, state_info, s))
               in if rc \<noteq> PSCI_E_SUCCESS then (True, rc, s)
                  else
                    let (rc, s) =
                          (case (if PSCI_OS_INIT_MODE e
                                 then pwr_domain_validate_suspend (psci_plat_pm_ops e) else None) of
                             None \<Rightarrow> (rc, s)
                           | Some f \<Rightarrow> (f (events s) state_info, log_event Plat_pwr_domain_validate_suspend s))
                    in if rc \<noteq> PSCI_E_SUCCESS then (True, rc, s)
                       else
                         let s = psci_set_target_local_pwr_states idx end_pwrlvl state_info s;
                             s = (if ENABLE_PSCI_STAT e
                                  then psci_stats_update_pwr_down idx end_pwrlvl state_info s else s);
                             s = (if is_power_down_state \<noteq> 0
                                  then psci_suspend_to_pwrdown_start e idx end_pwrlvl ep state_info s else s);
                             s = log_event (Plat_pwr_domain_suspend (pwr_domain_state state_info)) s
                         in (False, rc, log_event_if (ENABLE_PSCI_STAT e) Stat_accounting_start s))
      in (skip_wfi, rc, psci_release_pwr_domain_locks end_pwrlvl parent_nodes s))"

text \<open>\<open>others\<close> is what the rest of the system does while this CPU is in a context-retaining \<open>wfi\<close>.\<close>

definition psci_cpu_suspend_start ::
  "psci_env \<Rightarrow> (psci_state \<Rightarrow> psci_state) \<Rightarrow> nat \<Rightarrow> entry_point_info_t \<Rightarrow> nat \<Rightarrow> psci_power_state_t
     \<Rightarrow> uint32_t \<Rightarrow> psci_state \<Rightarrow> int outcome \<times> psci_state" where
  "psci_cpu_suspend_start e others idx ep end_pwrlvl state_info is_power_down_state s =
     (let ops = psci_plat_pm_ops e
      in if \<not> pwr_domain_suspend ops \<or> ENABLE_ASSERTIONS e \<and> \<not> pwr_domain_suspend_finish ops
         then (Assert_failed, s)
         else
           let (skip_wfi, rc, s) = psci_cpu_suspend_enter e idx ep end_pwrlvl state_info is_power_down_state s
           in if skip_wfi then (Returned rc, s)
              else if is_power_down_state \<noteq> 0 then (Power_down, final_wfi e s)
              else
                let s = others (log_event Wfi s);
                    (r, s) = psci_suspend_to_standby_finisher e idx end_pwrlvl s
                in (map_outcome (\<lambda>_. rc) r, s))"

definition psci_cpu_suspend_finish ::
  "psci_env \<Rightarrow> nat \<Rightarrow> psci_power_state_t \<Rightarrow> psci_state \<Rightarrow> unit outcome \<times> psci_state" where
  "psci_cpu_suspend_finish e cpu_idx state_info s =
     (if ENABLE_ASSERTIONS e
         \<and> \<not> (psci_get_aff_info_state cpu_idx s = AFF_STATE_ON
              \<and> is_local_state_off e (pwr_domain_state state_info ! PSCI_CPU_PWR_LVL))
         \<or> \<not> pwr_domain_suspend_finish (psci_plat_pm_ops e)
      then (Assert_failed, s)
      else
        let s = log_event (Plat_pwr_domain_suspend_finish (pwr_domain_state state_info)) s;
            max_off_lvl = psci_find_max_off_lvl e state_info
        in if spd_has svc_suspend_finish s \<and> ENABLE_ASSERTIONS e \<and> max_off_lvl = PSCI_INVALID_PWR_LVL e
           then (Assert_failed, s)
           else
             let s = log_event_if (spd_has svc_suspend_finish s) (Svc_suspend_finish max_off_lvl) s;
                 s = psci_set_suspend_pwrlvl cpu_idx (PSCI_INVALID_PWR_LVL e) s
             in (Returned (), log_event Publish_suspend_pwrdown_finish s))"

definition psci_warmboot_entrypoint :: "psci_env \<Rightarrow> nat \<Rightarrow> psci_state \<Rightarrow> unit outcome \<times> psci_state" where
  "psci_warmboot_entrypoint e cpu_idx s =
     (if psci_get_aff_info_state cpu_idx s = AFF_STATE_OFF then (Panicked, s)
      else
        let end_pwrlvl = get_power_on_target_pwrlvl e cpu_idx s;
            parent_nodes = psci_get_parent_pwr_domain_nodes cpu_idx end_pwrlvl s;
            s = psci_acquire_pwr_domain_locks end_pwrlvl parent_nodes s;
            state_info = psci_get_target_local_pwr_states e cpu_idx end_pwrlvl (run_state_info e) s;
            s = log_event_if (ENABLE_PSCI_STAT e) Stat_accounting_stop s;
            (r, s) = (if psci_get_aff_info_state cpu_idx s = AFF_STATE_ON_PENDING
                      then psci_cpu_on_finish e cpu_idx state_info s
                      else psci_cpu_suspend_finish e cpu_idx state_info s)
        in if r \<noteq> Returned () then (r, s)
           else
             let s = psci_set_pwr_domains_to_run e cpu_idx end_pwrlvl s;
                 s = (if ENABLE_PSCI_STAT e
                      then psci_stats_update_pwr_up e cpu_idx end_pwrlvl state_info s else s)
             in (Returned (), psci_release_pwr_domain_locks end_pwrlvl parent_nodes s))"

section \<open>Effect on the power state\<close>

definition lvl_write :: "nat \<Rightarrow> nat \<Rightarrow> psci_state \<Rightarrow> psci_state \<Rightarrow> bool" where
  "lvl_write c l s t \<longleftrightarrow>
     psci_shape t = psci_shape s \<and> node_state t = node_state s \<and> req_state t = req_state s
     \<and> cpu_aff t = cpu_aff s \<and> cpu_lvl t = (cpu_lvl s)(c := l) \<and> cpu_st t = cpu_st s"

lemma lvl_write_set:
  "c < length (psci_svc_cpu_data s) \<Longrightarrow> lvl_write c l s (psci_set_suspend_pwrlvl c l s)"
  using cpu_views_setters [of c s] by (auto simp: lvl_write_def fun_eq_iff)

lemma lvl_write_view:
  "psci_view s' = psci_view s \<Longrightarrow> psci_view t = psci_view t' \<Longrightarrow> lvl_write c l s t \<Longrightarrow> lvl_write c l s' t'"
  by (simp add: lvl_write_def psci_view_def)

lemma pwrdown_start_view:
  assumes "c < length (psci_svc_cpu_data s)"
  shows "lvl_write c (if PSCI_OS_INIT_MODE e then suspend_max_pwrlvl e else L) s
           (psci_suspend_to_pwrdown_start e c L ep info s)"
  unfolding psci_suspend_to_pwrdown_start_def Let_def
  by (rule lvl_write_view [OF _ _ lvl_write_set, of _ "log_event Publish_suspend_pwrdown_start s"])
    (simp_all add: assms)

lemma svc_length_wf:
  "psci_wf e s \<Longrightarrow> c < psci_plat_core_count s \<Longrightarrow> c < length (psci_svc_cpu_data s)"
  using wf_lengths [of e s] by simp

text \<open>
  Without OS-initiated mode the section under the locks either changes nothing, when an interrupt
  is pending, or takes the CPU down; the level is recorded only for a power-down state.
\<close>

lemma suspend_enter_cases:
  assumes "psci_cpu_suspend_enter e me ep L info pd s = (skip, rc, s')" "\<not> PSCI_OS_INIT_MODE e"
    and "psci_wf e s" "me < psci_plat_core_count s" "L \<le> PLAT_MAX_PWR_LVL e"
    and "length (pwr_domain_state info) = Suc (PLAT_MAX_PWR_LVL e)"
  shows "rc = PSCI_E_SUCCESS \<and>
     (skip \<and> psci_view s' = psci_view s
      \<or> \<not> skip \<and> (\<exists>s0 info' t. psci_view s0 = psci_view s \<and> go_down e me L info s0 = (info', t)
           \<and> (if pd \<noteq> 0 then lvl_write me L t s' else psci_view s' = psci_view t)))"
proof -
  define ps where "ps = psci_get_parent_pwr_domain_nodes me L s"
  define s1 where "s1 = psci_acquire_pwr_domain_locks L ps s"
  obtain info' t where d: "go_down e me L info s1 = (info', t)" by (cases "go_down e me L info s1")
  define s2 where "s2 = (if ENABLE_PSCI_STAT e then psci_stats_update_pwr_down me L info' t else t)"
  define s3 where "s3 = (if pd \<noteq> 0 then psci_suspend_to_pwrdown_start e me L ep info' s2 else s2)"
  define s4 where "s4 = log_event_if (ENABLE_PSCI_STAT e) Stat_accounting_start
                          (log_event (Plat_pwr_domain_suspend (pwr_domain_state info')) s3)"
  have run: "psci_cpu_suspend_enter e me ep L info pd s =
      (if read_isr_el1 e (events s1) \<noteq> 0 then (True, PSCI_E_SUCCESS, psci_release_pwr_domain_locks L ps s1)
       else (False, PSCI_E_SUCCESS, psci_release_pwr_domain_locks L ps s4))"
    using assms(2) d unfolding s4_def s3_def s2_def go_down_def s1_def ps_def
    by (simp add: psci_cpu_suspend_enter_def Let_def split: prod.splits)
  have v1: "psci_view s1 = psci_view s" by (simp add: s1_def)
  have wf1: "psci_wf e s1" "me < psci_plat_core_count s1"
    using assms(3,4) wf_shape [OF psci_viewD(1) [OF v1]] core_count_shape [OF psci_viewD(1) [OF v1]]
    by simp_all
  note sht = go_down_views(1) [OF d wf1 assms(5,6)]
  have v2: "psci_view s2 = psci_view t" by (simp add: s2_def)
  have "me < length (psci_svc_cpu_data s2)"
    using svc_length_wf [OF wf1] svc_length_shape [OF sht] svc_length_shape [OF psci_viewD(1) [OF v2]] by simp
  from pwrdown_start_view [OF this, of e L ep info'] assms(2)
  have "if pd \<noteq> 0 then lvl_write me L s2 s3 else s3 = s2"
    by (simp add: s3_def)
  then have "if pd \<noteq> 0 then lvl_write me L t (psci_release_pwr_domain_locks L ps s4)
             else psci_view (psci_release_pwr_domain_locks L ps s4) = psci_view t"
    using v2 lvl_write_view [of t s2 s3 "psci_release_pwr_domain_locks L ps s4"]
    by (auto simp: s4_def split: if_splits)
  note down = this
  show ?thesis
  proof (cases "read_isr_el1 e (events s1) \<noteq> 0")
    case True
    then show ?thesis using assms(1) v1 unfolding run by auto
  next
    case False
    then have "\<not> skip" "rc = PSCI_E_SUCCESS" "s' = psci_release_pwr_domain_locks L ps s4"
      using assms(1) unfolding run by auto
    with down d v1 show ?thesis by blast
  qed
qed

text \<open>The finishers: the standby one sets the domains to run; the power-down one clears the level.\<close>

lemma standby_finisher_view:
  assumes "psci_suspend_to_standby_finisher e me L s = (r, s')"
    and "pwr_domain_suspend_finish (psci_plat_pm_ops e)"
  shows "r = Returned () \<and> (\<exists>s0. psci_view s0 = psci_view s
           \<and> psci_view s' = psci_view (psci_set_pwr_domains_to_run e me L s0))"
proof -
  define ps where "ps = psci_get_parent_pwr_domain_nodes me L s"
  define s1 where "s1 = psci_acquire_pwr_domain_locks L ps s"
  define info where "info = psci_get_target_local_pwr_states e me L (run_state_info e) s1"
  define s2 where "s2 = log_event_if (ENABLE_PSCI_STAT e) Stat_accounting_stop s1"
  define s3 where "s3 = (if ENABLE_PSCI_STAT e then psci_stats_update_pwr_up e me L info s2 else s2)"
  define s0 where "s0 = log_event (Plat_pwr_domain_suspend_finish (pwr_domain_state info)) s3"
  have "r = Returned ()" "s' = psci_release_pwr_domain_locks L ps (psci_set_pwr_domains_to_run e me L s0)"
    using assms unfolding s0_def s3_def s2_def info_def s1_def ps_def
    by (simp_all add: psci_suspend_to_standby_finisher_def Let_def)
  moreover have "psci_view s0 = psci_view s"
    by (simp add: s0_def s3_def s2_def s1_def)
  ultimately show ?thesis by auto
qed

lemma suspend_finish_view:
  assumes "psci_cpu_suspend_finish e me info s = (Returned (), s')" "me < length (psci_svc_cpu_data s)"
  shows "lvl_write me (PSCI_INVALID_PWR_LVL e) s s'"
proof -
  define s0 where "s0 = log_event (Plat_pwr_domain_suspend_finish (pwr_domain_state info)) s"
  define s1 where "s1 = log_event_if (spd_has svc_suspend_finish s0)
                          (Svc_suspend_finish (psci_find_max_off_lvl e info)) s0"
  have v: "psci_view s1 = psci_view s" "length (psci_svc_cpu_data s1) = length (psci_svc_cpu_data s)"
    by (simp_all add: s1_def s0_def)
  have s': "s' = log_event Publish_suspend_pwrdown_finish (psci_set_suspend_pwrlvl me (PSCI_INVALID_PWR_LVL e) s1)"
    using assms(1) unfolding s1_def s0_def
    by (simp add: psci_cpu_suspend_finish_def Let_def split: if_splits)
  show ?thesis
    by (rule lvl_write_view [OF v(1) [symmetric] _ lvl_write_set]) (simp_all add: s' v assms(2))
qed

lemma lvl_write_simps:
  assumes "lvl_write c l s t"
  shows "psci_shape t = psci_shape s" "node_state t = node_state s" "req_state t = req_state s"
    "cpu_aff t = cpu_aff s" "cpu_lvl t = (cpu_lvl s)(c := l)" "cpu_st t = cpu_st s"
  using assms by (simp_all add: lvl_write_def)

text \<open>A warm boot that returns: the CPU was expected, and comes up to the level it went down to.\<close>

lemma warmboot_view:
  assumes "psci_warmboot_entrypoint e me s = (Returned (), s')" "me < length (psci_svc_cpu_data s)"
  shows "cpu_aff s me \<noteq> AFF_STATE_OFF \<and>
    (\<exists>s0. (if cpu_aff s me = AFF_STATE_ON_PENDING then psci_view s0 = psci_view s
           else lvl_write me (PSCI_INVALID_PWR_LVL e) s s0)
        \<and> psci_view s' = psci_view (psci_set_pwr_domains_to_run e me (get_power_on_target_pwrlvl e me s) s0))"
proof -
  define L where "L = get_power_on_target_pwrlvl e me s"
  define ps where "ps = psci_get_parent_pwr_domain_nodes me L s"
  define s1 where "s1 = psci_acquire_pwr_domain_locks L ps s"
  define info where "info = psci_get_target_local_pwr_states e me L (run_state_info e) s1"
  define s2 where "s2 = log_event_if (ENABLE_PSCI_STAT e) Stat_accounting_stop s1"
  define fin where "fin = (if cpu_aff s2 me = AFF_STATE_ON_PENDING then psci_cpu_on_finish e me info s2
                           else psci_cpu_suspend_finish e me info s2)"
  have v2: "psci_view s2 = psci_view s" by (simp add: s2_def s1_def)
  note a2 = psci_viewD(4) [OF v2]
  have on: "cpu_aff s me \<noteq> AFF_STATE_OFF"
    using assms(1) by (auto simp: psci_warmboot_entrypoint_def)
  have eq: "psci_warmboot_entrypoint e me s =
     (let (r, s) = fin in if r \<noteq> Returned () then (r, s)
      else (Returned (), psci_release_pwr_domain_locks L ps
             (let s = psci_set_pwr_domains_to_run e me L s in
              if ENABLE_PSCI_STAT e then psci_stats_update_pwr_up e me L info s else s)))"
    using on unfolding fin_def s2_def info_def s1_def ps_def L_def
    by (simp add: psci_warmboot_entrypoint_def Let_def split: prod.splits)
  obtain r s0 where f: "fin = (r, s0)" by (cases fin)
  have r: "r = Returned ()" and s': "psci_view s' = psci_view (psci_set_pwr_domains_to_run e me L s0)"
    using assms(1) unfolding eq f by (auto simp: Let_def split: if_splits)
  have len: "me < length (psci_svc_cpu_data s2)"
    using assms(2) svc_length_shape [OF psci_viewD(1) [OF v2]] by simp
  have "if cpu_aff s me = AFF_STATE_ON_PENDING then psci_view s0 = psci_view s
        else lvl_write me (PSCI_INVALID_PWR_LVL e) s s0"
  proof (cases "cpu_aff s me = AFF_STATE_ON_PENDING")
    case True
    then show ?thesis
      using f a2 psci_cpu_on_finish_view [of e me info s2 r s0] v2 by (simp add: fin_def)
  next
    case False
    then have "lvl_write me (PSCI_INVALID_PWR_LVL e) s2 s0"
      using f a2 r suspend_finish_view [OF _ len] by (simp add: fin_def)
    then show ?thesis
      using False lvl_write_view [OF v2 [symmetric] refl] by simp
  qed
  with on s' show ?thesis unfolding L_def by blast
qed

end
