(* ===== verification/Psci_Main.thy ===== *)
theory Psci_Main
  imports Psci_Suspend
begin

text \<open>
  The SMC front end of the PSCI library: \<open>lib/psci/psci_main.c\<close> with \<open>psci_mem_protect.c\<close> and
  \<open>psci_system_off.c\<close>, and the entry points of \<open>psci_common.c\<close> for the secure payload dispatcher.
  Every function of the interface is here, with the dispatcher that selects it. An \<open>int\<close> result is
  returned in the 64-bit register sign-extended.
\<close>

section \<open>Function identifiers\<close>

abbreviation (input) PSCI_VERSION :: uint32_t where "PSCI_VERSION \<equiv> 0x84000000"
abbreviation (input) PSCI_CPU_SUSPEND_AARCH32 :: uint32_t where "PSCI_CPU_SUSPEND_AARCH32 \<equiv> 0x84000001"
abbreviation (input) PSCI_CPU_SUSPEND_AARCH64 :: uint32_t where "PSCI_CPU_SUSPEND_AARCH64 \<equiv> 0xc4000001"
abbreviation (input) PSCI_CPU_OFF :: uint32_t where "PSCI_CPU_OFF \<equiv> 0x84000002"
abbreviation (input) PSCI_CPU_ON_AARCH32 :: uint32_t where "PSCI_CPU_ON_AARCH32 \<equiv> 0x84000003"
abbreviation (input) PSCI_CPU_ON_AARCH64 :: uint32_t where "PSCI_CPU_ON_AARCH64 \<equiv> 0xc4000003"
abbreviation (input) PSCI_AFFINITY_INFO_AARCH32 :: uint32_t where "PSCI_AFFINITY_INFO_AARCH32 \<equiv> 0x84000004"
abbreviation (input) PSCI_AFFINITY_INFO_AARCH64 :: uint32_t where "PSCI_AFFINITY_INFO_AARCH64 \<equiv> 0xc4000004"
abbreviation (input) PSCI_MIG_AARCH32 :: uint32_t where "PSCI_MIG_AARCH32 \<equiv> 0x84000005"
abbreviation (input) PSCI_MIG_AARCH64 :: uint32_t where "PSCI_MIG_AARCH64 \<equiv> 0xc4000005"
abbreviation (input) PSCI_MIG_INFO_TYPE :: uint32_t where "PSCI_MIG_INFO_TYPE \<equiv> 0x84000006"
abbreviation (input) PSCI_MIG_INFO_UP_CPU_AARCH32 :: uint32_t where "PSCI_MIG_INFO_UP_CPU_AARCH32 \<equiv> 0x84000007"
abbreviation (input) PSCI_MIG_INFO_UP_CPU_AARCH64 :: uint32_t where "PSCI_MIG_INFO_UP_CPU_AARCH64 \<equiv> 0xc4000007"
abbreviation (input) PSCI_SYSTEM_OFF :: uint32_t where "PSCI_SYSTEM_OFF \<equiv> 0x84000008"
abbreviation (input) PSCI_SYSTEM_RESET :: uint32_t where "PSCI_SYSTEM_RESET \<equiv> 0x84000009"
abbreviation (input) PSCI_FEATURES :: uint32_t where "PSCI_FEATURES \<equiv> 0x8400000A"
abbreviation (input) PSCI_NODE_HW_STATE_AARCH32 :: uint32_t where "PSCI_NODE_HW_STATE_AARCH32 \<equiv> 0x8400000d"
abbreviation (input) PSCI_NODE_HW_STATE_AARCH64 :: uint32_t where "PSCI_NODE_HW_STATE_AARCH64 \<equiv> 0xc400000d"
abbreviation (input) PSCI_SYSTEM_SUSPEND_AARCH32 :: uint32_t where "PSCI_SYSTEM_SUSPEND_AARCH32 \<equiv> 0x8400000E"
abbreviation (input) PSCI_SYSTEM_SUSPEND_AARCH64 :: uint32_t where "PSCI_SYSTEM_SUSPEND_AARCH64 \<equiv> 0xc400000E"
abbreviation (input) PSCI_SET_SUSPEND_MODE :: uint32_t where "PSCI_SET_SUSPEND_MODE \<equiv> 0x8400000F"
abbreviation (input) PSCI_STAT_RESIDENCY_AARCH32 :: uint32_t where "PSCI_STAT_RESIDENCY_AARCH32 \<equiv> 0x84000010"
abbreviation (input) PSCI_STAT_RESIDENCY_AARCH64 :: uint32_t where "PSCI_STAT_RESIDENCY_AARCH64 \<equiv> 0xc4000010"
abbreviation (input) PSCI_STAT_COUNT_AARCH32 :: uint32_t where "PSCI_STAT_COUNT_AARCH32 \<equiv> 0x84000011"
abbreviation (input) PSCI_STAT_COUNT_AARCH64 :: uint32_t where "PSCI_STAT_COUNT_AARCH64 \<equiv> 0xc4000011"
abbreviation (input) PSCI_SYSTEM_RESET2_AARCH32 :: uint32_t where "PSCI_SYSTEM_RESET2_AARCH32 \<equiv> 0x84000012"
abbreviation (input) PSCI_SYSTEM_RESET2_AARCH64 :: uint32_t where "PSCI_SYSTEM_RESET2_AARCH64 \<equiv> 0xc4000012"
abbreviation (input) PSCI_MEM_PROTECT :: uint32_t where "PSCI_MEM_PROTECT \<equiv> 0x84000013"
abbreviation (input) PSCI_MEM_CHK_RANGE_AARCH32 :: uint32_t where "PSCI_MEM_CHK_RANGE_AARCH32 \<equiv> 0x84000014"
abbreviation (input) PSCI_MEM_CHK_RANGE_AARCH64 :: uint32_t where "PSCI_MEM_CHK_RANGE_AARCH64 \<equiv> 0xc4000014"
abbreviation (input) SMCCC_VERSION :: uint32_t where "SMCCC_VERSION \<equiv> 0x80000000"

abbreviation (input) SMC_UNK :: u_register_t where "SMC_UNK \<equiv> - 1"

definition PSCI_GENERIC_CAP :: uint32_t where
  "PSCI_GENERIC_CAP = define_psci_cap PSCI_VERSION OR define_psci_cap PSCI_AFFINITY_INFO_AARCH64
     OR define_psci_cap PSCI_FEATURES"

definition PSCI_CAP_64BIT_MASK :: uint32_t where
  "PSCI_CAP_64BIT_MASK =
     define_psci_cap PSCI_CPU_SUSPEND_AARCH64 OR define_psci_cap PSCI_CPU_ON_AARCH64
     OR define_psci_cap PSCI_AFFINITY_INFO_AARCH64 OR define_psci_cap PSCI_MIG_AARCH64
     OR define_psci_cap PSCI_MIG_INFO_UP_CPU_AARCH64 OR define_psci_cap PSCI_NODE_HW_STATE_AARCH64
     OR define_psci_cap PSCI_SYSTEM_SUSPEND_AARCH64 OR define_psci_cap PSCI_STAT_RESIDENCY_AARCH64
     OR define_psci_cap PSCI_STAT_COUNT_AARCH64 OR define_psci_cap PSCI_SYSTEM_RESET2_AARCH64
     OR define_psci_cap PSCI_MEM_CHK_RANGE_AARCH64"

text \<open>Macros of \<open>include/lib/smccc.h\<close> on a function identifier and on the flags of a call.\<close>

definition smc_cc :: "uint32_t \<Rightarrow> uint32_t" where
  "smc_cc fid = drop_bit 30 fid AND 1"

definition is_std_svc_call :: "uint32_t \<Rightarrow> bool" where
  "is_std_svc_call fid \<longleftrightarrow> drop_bit 24 fid AND 0x3f = 4"

definition is_valid_fast_smc :: "uint32_t \<Rightarrow> bool" where
  "is_valid_fast_smc fid \<longleftrightarrow> drop_bit 16 fid AND 0xff = 0 \<and> drop_bit 31 fid AND 1 = 1"

definition is_psci_fid :: "uint32_t \<Rightarrow> bool" where
  "is_psci_fid fid \<longleftrightarrow> fid AND 0xffe0 = 0"

definition is_caller_secure :: "u_register_t \<Rightarrow> bool" where
  "is_caller_secure flags \<longleftrightarrow> \<not> (flags AND 1 \<noteq> 0)"

definition ret_int :: "int \<Rightarrow> u_register_t" where
  "ret_int rc = word_of_int rc"

section \<open>CPU_ON, CPU_SUSPEND, SYSTEM_SUSPEND, CPU_OFF\<close>

definition psci_cpu_on ::
  "psci_env \<Rightarrow> u_register_t \<Rightarrow> uintptr_t \<Rightarrow> u_register_t \<Rightarrow> psci_state \<Rightarrow> int outcome \<times> psci_state" where
  "psci_cpu_on e target_cpu entrypoint context_id s =
     (if \<not> is_valid_mpidr e target_cpu then (Returned PSCI_E_INVALID_PARAMS, s)
      else
        let (rc, ep) = psci_validate_entry_point e entrypoint context_id
        in if rc \<noteq> PSCI_E_SUCCESS then (Returned rc, s) else psci_cpu_on_start e target_cpu ep s)"

definition psci_version :: uint32_t where
  "psci_version = push_bit 16 1 OR 1"

text \<open>
  What the validation half of \<open>psci_cpu_suspend\<close> and \<open>psci_system_suspend\<close> decides: to return (or
  stop) at once, to take the fast path for a standby of the CPU alone, or to call
  \<open>psci_cpu_suspend_start\<close> with an entry point, a level, a state and the power-down flag.
\<close>

datatype suspend_request =
    Suspend_reject "int outcome"
  | Suspend_standby nat psci_power_state_t
  | Suspend_start entry_point_info_t nat psci_power_state_t uint32_t

definition cpu_suspend_request ::
  "psci_env \<Rightarrow> uint32_t \<Rightarrow> uintptr_t \<Rightarrow> u_register_t \<Rightarrow> suspend_request" where
  "cpu_suspend_request e power_state entrypoint context_id =
     (case psci_validate_power_state e power_state (run_state_info e) of
        Returned (rc, state_info) \<Rightarrow>
          if rc \<noteq> PSCI_E_SUCCESS then
            Suspend_reject (if ENABLE_ASSERTIONS e \<and> rc \<noteq> PSCI_E_INVALID_PARAMS then Assert_failed else Returned rc)
          else
            let is_power_down_state = psci_get_pstate_type e power_state;
                target_lvl = psci_find_target_suspend_lvl e state_info
            in if ENABLE_ASSERTIONS e \<and> psci_validate_suspend_req e state_info is_power_down_state \<noteq> PSCI_E_SUCCESS
               then Suspend_reject Assert_failed
               else if target_lvl = PSCI_INVALID_PWR_LVL e then Suspend_reject Panicked
               else if is_cpu_standby_req is_power_down_state target_lvl then
                 if \<not> cpu_standby (psci_plat_pm_ops e) then Suspend_reject (Returned PSCI_E_INVALID_PARAMS)
                 else Suspend_standby target_lvl state_info
               else
                 let (rc, ep) = (if is_power_down_state \<noteq> 0
                                 then psci_validate_entry_point e entrypoint context_id
                                 else (PSCI_E_SUCCESS, \<lparr>ep_attr = 0, ep_pc = 0, ep_spsr = 0, ep_arg0 = 0\<rparr>))
                 in if rc \<noteq> PSCI_E_SUCCESS then Suspend_reject (Returned rc)
                    else Suspend_start ep target_lvl state_info is_power_down_state
      | Power_down \<Rightarrow> Suspend_reject Power_down
      | Panicked \<Rightarrow> Suspend_reject Panicked
      | Assert_failed \<Rightarrow> Suspend_reject Assert_failed)"

text \<open>
  The fast path, before and after the standby. \<open>psci_suspend_mode\<close> is read on both sides; \<open>prev\<close> is
  an automatic array that only the first side fills.
\<close>

definition cpu_standby_enter ::
  "psci_env \<Rightarrow> nat \<Rightarrow> nat \<Rightarrow> psci_power_state_t \<Rightarrow> psci_state \<Rightarrow> plat_local_state_t list \<times> psci_state" where
  "cpu_standby_enter e me target_lvl state_info s =
     (let cpu_pd_state = pwr_domain_state state_info ! PSCI_CPU_PWR_LVL;
          s = psci_set_cpu_local_state me cpu_pd_state s;
          (prev, s) = (if PSCI_OS_INIT_MODE e \<and> psci_suspend_mode s = OS_INIT
                       then psci_update_req_local_pwr_states e target_lvl me state_info s
                       else (uninitialised_prev e, s));
          s = log_event_if (ENABLE_PSCI_STAT e) Stat_accounting_start s
      in (prev, log_event (Plat_cpu_standby cpu_pd_state) s))"

definition cpu_standby_exit ::
  "psci_env \<Rightarrow> nat \<Rightarrow> psci_power_state_t \<Rightarrow> plat_local_state_t list \<Rightarrow> psci_state \<Rightarrow> psci_state" where
  "cpu_standby_exit e me state_info prev s =
     (let s = psci_set_cpu_local_state me PSCI_LOCAL_STATE_RUN s;
          s = (if PSCI_OS_INIT_MODE e \<and> psci_suspend_mode s = OS_INIT
               then psci_restore_req_local_pwr_states e me prev s else s);
          s = log_event_if (ENABLE_PSCI_STAT e) Stat_accounting_stop s
      in if ENABLE_PSCI_STAT e then psci_stats_update_pwr_up e me PSCI_CPU_PWR_LVL state_info s else s)"

definition do_suspend_request ::
  "psci_env \<Rightarrow> (psci_state \<Rightarrow> psci_state) \<Rightarrow> nat \<Rightarrow> suspend_request \<Rightarrow> psci_state \<Rightarrow> int outcome \<times> psci_state" where
  "do_suspend_request e others me req s =
     (case req of
        Suspend_reject r \<Rightarrow> (r, s)
      | Suspend_standby target_lvl state_info \<Rightarrow>
          let (prev, s) = cpu_standby_enter e me target_lvl state_info s
          in (Returned PSCI_E_SUCCESS, cpu_standby_exit e me state_info prev (others s))
      | Suspend_start ep lvl state_info pd \<Rightarrow> psci_cpu_suspend_start e others me ep lvl state_info pd s)"

definition psci_cpu_suspend ::
  "psci_env \<Rightarrow> (psci_state \<Rightarrow> psci_state) \<Rightarrow> nat \<Rightarrow> uint32_t \<Rightarrow> uintptr_t \<Rightarrow> u_register_t
     \<Rightarrow> psci_state \<Rightarrow> int outcome \<times> psci_state" where
  "psci_cpu_suspend e others me power_state entrypoint context_id s =
     do_suspend_request e others me (cpu_suspend_request e power_state entrypoint context_id) s"

definition system_suspend_request ::
  "psci_env \<Rightarrow> nat \<Rightarrow> uintptr_t \<Rightarrow> u_register_t \<Rightarrow> psci_state \<Rightarrow> suspend_request" where
  "system_suspend_request e me entrypoint context_id s =
     (if \<not> psci_is_last_on_cpu me s then Suspend_reject (Returned PSCI_E_DENIED)
      else
        let (rc, ep) = psci_validate_entry_point e entrypoint context_id
        in if rc \<noteq> PSCI_E_SUCCESS then Suspend_reject (Returned rc)
           else (case psci_query_sys_suspend_pwrstate e of
               Returned state_info \<Rightarrow>
                 if psci_find_target_suspend_lvl e state_info < PLAT_MAX_PWR_LVL e
                 then Suspend_reject (Returned PSCI_E_DENIED)
                 else if ENABLE_ASSERTIONS e
                         \<and> (psci_validate_suspend_req e state_info PSTATE_TYPE_POWERDOWN \<noteq> PSCI_E_SUCCESS
                            \<or> \<not> is_local_state_off e (pwr_domain_state state_info ! PLAT_MAX_PWR_LVL e))
                 then Suspend_reject Assert_failed
                 else Suspend_start ep (PLAT_MAX_PWR_LVL e) state_info PSTATE_TYPE_POWERDOWN
             | Power_down \<Rightarrow> Suspend_reject Power_down
             | Panicked \<Rightarrow> Suspend_reject Panicked
             | Assert_failed \<Rightarrow> Suspend_reject Assert_failed))"

definition psci_system_suspend ::
  "psci_env \<Rightarrow> (psci_state \<Rightarrow> psci_state) \<Rightarrow> nat \<Rightarrow> uintptr_t \<Rightarrow> u_register_t
     \<Rightarrow> psci_state \<Rightarrow> int outcome \<times> psci_state" where
  "psci_system_suspend e others me entrypoint context_id s =
     do_suspend_request e others me (system_suspend_request e me entrypoint context_id s) s"

definition psci_cpu_off :: "psci_env \<Rightarrow> nat \<Rightarrow> psci_state \<Rightarrow> int outcome \<times> psci_state" where
  "psci_cpu_off e me s =
     (case psci_do_cpu_off e me (PLAT_MAX_PWR_LVL e) s of
        (Returned rc, s) \<Rightarrow> if ENABLE_ASSERTIONS e \<and> rc \<noteq> PSCI_E_DENIED then (Assert_failed, s) else (Returned rc, s)
      | (r, s) \<Rightarrow> (r, s))"

section \<open>AFFINITY_INFO, MIGRATE and friends, NODE_HW_STATE\<close>

fun aff_state_val :: "aff_info_state_t \<Rightarrow> int" where
  "aff_state_val AFF_STATE_ON = 0"
| "aff_state_val AFF_STATE_OFF = 1"
| "aff_state_val AFF_STATE_ON_PENDING = 2"

definition psci_affinity_info :: "psci_env \<Rightarrow> u_register_t \<Rightarrow> uint32_t \<Rightarrow> psci_state \<Rightarrow> int" where
  "psci_affinity_info e target_affinity lowest_affinity_level s =
     (if \<not> is_valid_mpidr e target_affinity then PSCI_E_INVALID_PARAMS
      else if unat lowest_affinity_level > PSCI_CPU_PWR_LVL then PSCI_E_INVALID_PARAMS
      else aff_state_val (psci_get_aff_info_state_by_idx (nat (plat_core_pos_by_mpidr e target_affinity)) s))"

definition psci_register_spd_pm_hook :: "spd_pm_ops_t \<Rightarrow> psci_state \<Rightarrow> psci_state" where
  "psci_register_spd_pm_hook pm s =
     (let s = s\<lparr>psci_spd_pm := Some pm\<rparr>;
          s = (if svc_migrate pm \<noteq> None
               then s\<lparr>psci_caps := psci_caps s OR define_psci_cap PSCI_MIG_AARCH64\<rparr> else s)
      in if svc_migrate_info pm \<noteq> None
         then s\<lparr>psci_caps := psci_caps s OR define_psci_cap PSCI_MIG_INFO_UP_CPU_AARCH64
                              OR define_psci_cap PSCI_MIG_INFO_TYPE\<rparr>
         else s)"

text \<open>The return code of the hook and the MPIDR it wrote.\<close>

definition psci_spd_migrate_info :: "psci_env \<Rightarrow> psci_state \<Rightarrow> (int \<times> u_register_t) outcome" where
  "psci_spd_migrate_info e s =
     (case spd_hook svc_migrate_info s of
        None \<Rightarrow> Returned (PSCI_E_NOT_SUPPORTED, 0)
      | Some f \<Rightarrow>
          let (rc, m) = f (events s)
          in if ENABLE_ASSERTIONS e
                \<and> rc \<notin> {PSCI_TOS_UP_MIG_CAP, PSCI_TOS_NOT_UP_MIG_CAP, PSCI_TOS_NOT_PRESENT_MP, PSCI_E_NOT_SUPPORTED}
             then Assert_failed else Returned (rc, m))"

definition psci_migrate :: "psci_env \<Rightarrow> nat \<Rightarrow> u_register_t \<Rightarrow> psci_state \<Rightarrow> int outcome \<times> psci_state" where
  "psci_migrate e me target_cpu s =
     (if \<not> is_valid_mpidr e target_cpu then (Returned PSCI_E_INVALID_PARAMS, s)
      else case psci_spd_migrate_info e s of
        Returned (rc, resident_cpu_mpidr) \<Rightarrow>
          if rc \<noteq> PSCI_TOS_UP_MIG_CAP then
            (Returned (if rc = PSCI_TOS_NOT_UP_MIG_CAP then PSCI_E_DENIED else PSCI_E_NOT_SUPPORTED), s)
          else if resident_cpu_mpidr \<noteq> read_mpidr e me then (Returned PSCI_E_NOT_PRESENT, s)
          else if \<not> is_valid_mpidr e target_cpu then (Returned PSCI_E_INVALID_PARAMS, s)
          else (case spd_hook svc_migrate s of
                  None \<Rightarrow> (Assert_failed, s)
                | Some f \<Rightarrow>
                    let rc = f (events s) (read_mpidr e me) target_cpu;
                        s = log_event (Svc_migrate (read_mpidr e me) target_cpu) s
                    in if ENABLE_ASSERTIONS e \<and> rc \<noteq> PSCI_E_SUCCESS \<and> rc \<noteq> PSCI_E_INTERN_FAIL
                       then (Assert_failed, s) else (Returned rc, s))
      | Power_down \<Rightarrow> (Power_down, s) | Panicked \<Rightarrow> (Panicked, s) | Assert_failed \<Rightarrow> (Assert_failed, s))"

definition psci_migrate_info_type :: "psci_env \<Rightarrow> psci_state \<Rightarrow> int outcome" where
  "psci_migrate_info_type e s = map_outcome fst (psci_spd_migrate_info e s)"

definition psci_migrate_info_up_cpu :: "psci_env \<Rightarrow> psci_state \<Rightarrow> u_register_t outcome" where
  "psci_migrate_info_up_cpu e s =
     map_outcome (\<lambda>(rc, resident_cpu_mpidr).
         if rc \<noteq> PSCI_TOS_NOT_UP_MIG_CAP \<and> rc \<noteq> PSCI_TOS_UP_MIG_CAP then ret_int PSCI_E_INVALID_PARAMS
         else resident_cpu_mpidr)
       (psci_spd_migrate_info e s)"

definition psci_node_hw_state :: "psci_env \<Rightarrow> u_register_t \<Rightarrow> uint32_t \<Rightarrow> int outcome" where
  "psci_node_hw_state e target_cpu power_level =
     (if \<not> is_valid_mpidr e target_cpu then Returned PSCI_E_INVALID_PARAMS
      else if unat power_level > PLAT_MAX_PWR_LVL e then Returned PSCI_E_INVALID_PARAMS
      else case get_node_hw_state (psci_plat_pm_ops e) of
        None \<Rightarrow> Assert_failed
      | Some f \<Rightarrow>
          let rc = f target_cpu (unat power_level)
          in if ENABLE_ASSERTIONS e
                \<and> \<not> (0 \<le> rc \<and> rc \<le> 2 \<or> rc = PSCI_E_NOT_SUPPORTED \<or> rc = PSCI_E_INVALID_PARAMS)
             then Assert_failed else Returned rc)"

section \<open>FEATURES and SET_SUSPEND_MODE\<close>

definition psci_features :: "psci_env \<Rightarrow> uint32_t \<Rightarrow> psci_state \<Rightarrow> int" where
  "psci_features e psci_fid s =
     (if psci_fid = SMCCC_VERSION then PSCI_E_SUCCESS
      else
        let local_caps = (if smc_cc psci_fid = 1 then psci_caps s AND PSCI_CAP_64BIT_MASK else psci_caps s)
        in if \<not> (is_std_svc_call psci_fid \<and> is_valid_fast_smc psci_fid \<and> is_psci_fid psci_fid)
           then PSCI_E_NOT_SUPPORTED
           else if local_caps AND define_psci_cap psci_fid = 0 then PSCI_E_NOT_SUPPORTED
           else if psci_fid = PSCI_CPU_SUSPEND_AARCH32 \<or> psci_fid = PSCI_CPU_SUSPEND_AARCH64 then
             (if PSCI_EXTENDED_STATE_ID e then 2 else 0) + (if PSCI_OS_INIT_MODE e then 1 else 0)
           else PSCI_E_SUCCESS)"

definition psci_set_suspend_mode :: "psci_env \<Rightarrow> nat \<Rightarrow> uint32_t \<Rightarrow> psci_state \<Rightarrow> int \<times> psci_state" where
  "psci_set_suspend_mode e me mode s =
     (if psci_suspend_mode s = mode then (PSCI_E_SUCCESS, s)
      else
        let (denied, s) =
              (if mode = PLAT_COORD
               then let (last_on, s) = psci_is_last_on_cpu_safe e me s in (\<not> last_on, s)
               else (False, s))
        in if denied then (PSCI_E_DENIED, s)
           else
             let (denied, s) =
                   (if mode = OS_INIT
                    then let (all_on, s) = psci_are_all_cpus_on_safe e me s
                         in if all_on then (False, s)
                            else let (last_on, s) = psci_is_last_on_cpu_safe e me s in (\<not> last_on, s)
                    else (False, s))
             in if denied then (PSCI_E_DENIED, s)
                else (PSCI_E_SUCCESS, s\<lparr>psci_suspend_mode := mode\<rparr>))"

section \<open>Memory protection and system-wide power control\<close>

definition psci_mem_protect :: "psci_env \<Rightarrow> uint32_t \<Rightarrow> psci_state \<Rightarrow> u_register_t outcome \<times> psci_state" where
  "psci_mem_protect e enable s =
     (case (read_mem_protect (psci_plat_pm_ops e), write_mem_protect (psci_plat_pm_ops e)) of
        (Some rd, Some wr) \<Rightarrow>
          let (rc, val) = rd (events s)
          in if rc < 0 then (Returned (ret_int PSCI_E_NOT_SUPPORTED), s)
             else
               let rc = wr (events s) (sint enable);
                   s = log_event (Plat_write_mem_protect (sint enable)) s
               in if rc < 0 then (Returned (ret_int PSCI_E_NOT_SUPPORTED), s)
                  else (Returned (if val \<noteq> 0 then 1 else 0), s)
      | _ \<Rightarrow> (Assert_failed, s))"

definition psci_mem_chk_range :: "psci_env \<Rightarrow> uintptr_t \<Rightarrow> u_register_t \<Rightarrow> u_register_t outcome" where
  "psci_mem_chk_range e base len =
     (case mem_protect_chk (psci_plat_pm_ops e) of
        None \<Rightarrow> Assert_failed
      | Some f \<Rightarrow>
          if len = 0 \<or> check_uptr_overflow base (len - 1) then Returned (ret_int PSCI_E_DENIED)
          else Returned (ret_int (if f base len < 0 then PSCI_E_DENIED else PSCI_E_SUCCESS)))"

text \<open>\<open>system_off\<close> and \<open>system_reset\<close> of the platform do not return.\<close>

definition psci_system_off :: "psci_env \<Rightarrow> psci_state \<Rightarrow> u_register_t outcome \<times> psci_state" where
  "psci_system_off e s =
     (if \<not> plat_system_off (psci_plat_pm_ops e) then (Assert_failed, s)
      else (Power_down, log_event Plat_system_off (log_event_if (spd_has svc_system_off s) Svc_system_off s)))"

definition psci_system_reset :: "psci_env \<Rightarrow> psci_state \<Rightarrow> u_register_t outcome \<times> psci_state" where
  "psci_system_reset e s =
     (if \<not> plat_system_reset (psci_plat_pm_ops e) then (Assert_failed, s)
      else (Power_down, log_event Plat_system_reset (log_event_if (spd_has svc_system_reset s) Svc_system_reset s)))"

definition psci_system_reset2 ::
  "psci_env \<Rightarrow> uint32_t \<Rightarrow> u_register_t \<Rightarrow> psci_state \<Rightarrow> u_register_t outcome \<times> psci_state" where
  "psci_system_reset2 e reset_type cookie s =
     (case plat_system_reset2 (psci_plat_pm_ops e) of
        None \<Rightarrow> (Assert_failed, s)
      | Some reset2 \<Rightarrow>
          let is_vendor = drop_bit 31 reset_type AND 1;
              arch = (is_vendor = 0)
          in if arch \<and> reset_type \<noteq> 0 then (Returned (ret_int PSCI_E_INVALID_PARAMS), s)
             else
               let (failed, s) =
                     (case (if arch then write_mem_protect (psci_plat_pm_ops e) else None) of
                        None \<Rightarrow> (False, s)
                      | Some wr \<Rightarrow> (wr (events s) 0 < 0, log_event (Plat_write_mem_protect 0) s))
               in if failed then (Returned (ret_int PSCI_E_NOT_SUPPORTED), s)
                  else
                    let s = log_event_if (spd_has svc_system_reset s) Svc_system_reset s;
                        s = log_event (Plat_system_reset2 (uint is_vendor) reset_type cookie) s
                    in (Returned (ret_int (reset2 (uint is_vendor) reset_type cookie)), s))"

section \<open>Queries and control by the rest of the firmware\<close>

definition psci_secondaries_brought_up :: "psci_env \<Rightarrow> psci_state \<Rightarrow> int outcome" where
  "psci_secondaries_brought_up e s =
     (let n_valid = length (filter (\<lambda>nd. mpidr nd \<noteq> PSCI_INVALID_MPIDR) (psci_cpu_pd_nodes s))
      in if ENABLE_ASSERTIONS e \<and> n_valid = 0 then Assert_failed
         else Returned (if n_valid > 1 then 1 else 0))"

text \<open>The wait of \<open>psci_stop_other_cores\<close>: \<open>others\<close> acts during each \<open>mdelay\<close>.\<close>

fun stop_wait_loop :: "(psci_state \<Rightarrow> psci_state) \<Rightarrow> nat \<Rightarrow> nat \<Rightarrow> psci_state \<Rightarrow> psci_state" where
  "stop_wait_loop others me 0 s = s"
| "stop_wait_loop others me (Suc wait_ms) s =
     (if \<not> psci_is_last_on_cpu me s then stop_wait_loop others me wait_ms (others (log_event Mdelay s)) else s)"

definition psci_stop_other_cores ::
  "(psci_state \<Rightarrow> psci_state) \<Rightarrow> nat \<Rightarrow> uint32_t \<Rightarrow> psci_state \<Rightarrow> int \<times> psci_state" where
  "psci_stop_other_cores others me wait_ms s =
     (let s = fold (\<lambda>idx s. if idx = me then s
                           else if psci_get_aff_info_state_by_idx idx s = AFF_STATE_ON
                           then log_event (Stop_func (mpidr (psci_cpu_pd_nodes s ! idx))) s else s)
                [0..<psci_plat_core_count s] s
      in if wait_ms \<noteq> 0 then
           let s = stop_wait_loop others me (unat wait_ms) s
           in if \<not> psci_is_last_on_cpu me s then (PSCI_E_DENIED, s) else (PSCI_E_SUCCESS, s)
         else (PSCI_E_SUCCESS, s))"

section \<open>The SMC dispatcher\<close>

definition ret_of :: "int outcome \<times> psci_state \<Rightarrow> u_register_t outcome \<times> psci_state" where
  "ret_of = map_prod (map_outcome ret_int) id"

definition psci_smc32 ::
  "psci_env \<Rightarrow> (psci_state \<Rightarrow> psci_state) \<Rightarrow> nat \<Rightarrow> uint32_t \<Rightarrow> uint32_t \<Rightarrow> uint32_t \<Rightarrow> uint32_t
     \<Rightarrow> psci_state \<Rightarrow> u_register_t outcome \<times> psci_state" where
  "psci_smc32 e others me smc_fid r1 r2 r3 s =
     (if smc_fid = PSCI_VERSION then (Returned (ucast psci_version), s)
      else if smc_fid = PSCI_CPU_OFF then ret_of (psci_cpu_off e me s)
      else if smc_fid = PSCI_CPU_SUSPEND_AARCH32 then
        ret_of (psci_cpu_suspend e others me r1 (ucast r2) (ucast r3) s)
      else if smc_fid = PSCI_CPU_ON_AARCH32 then ret_of (psci_cpu_on e (ucast r1) (ucast r2) (ucast r3) s)
      else if smc_fid = PSCI_AFFINITY_INFO_AARCH32 then
        (Returned (ret_int (psci_affinity_info e (ucast r1) r2 s)), s)
      else if smc_fid = PSCI_MIG_AARCH32 then ret_of (psci_migrate e me (ucast r1) s)
      else if smc_fid = PSCI_MIG_INFO_TYPE then ret_of (psci_migrate_info_type e s, s)
      else if smc_fid = PSCI_MIG_INFO_UP_CPU_AARCH32 then (psci_migrate_info_up_cpu e s, s)
      else if smc_fid = PSCI_NODE_HW_STATE_AARCH32 then ret_of (psci_node_hw_state e (ucast r1) r2, s)
      else if smc_fid = PSCI_SYSTEM_SUSPEND_AARCH32 then
        ret_of (psci_system_suspend e others me (ucast r1) (ucast r2) s)
      else if smc_fid = PSCI_SYSTEM_OFF then psci_system_off e s
      else if smc_fid = PSCI_SYSTEM_RESET then psci_system_reset e s
      else if smc_fid = PSCI_FEATURES then (Returned (ret_int (psci_features e r1 s)), s)
      else if PSCI_OS_INIT_MODE e \<and> smc_fid = PSCI_SET_SUSPEND_MODE then
        ret_of (map_prod Returned id (psci_set_suspend_mode e me r1 s))
      else if ENABLE_PSCI_STAT e \<and> smc_fid = PSCI_STAT_RESIDENCY_AARCH32 then
        (psci_stat_residency e (ucast r1) r2 s, s)
      else if ENABLE_PSCI_STAT e \<and> smc_fid = PSCI_STAT_COUNT_AARCH32 then
        (psci_stat_count e (ucast r1) r2 s, s)
      else if smc_fid = PSCI_MEM_PROTECT then psci_mem_protect e r1 s
      else if smc_fid = PSCI_MEM_CHK_RANGE_AARCH32 then (psci_mem_chk_range e (ucast r1) (ucast r2), s)
      else if smc_fid = PSCI_SYSTEM_RESET2_AARCH32 then psci_system_reset2 e r1 (ucast r2) s
      else (Returned SMC_UNK, s))"

definition psci_smc64 ::
  "psci_env \<Rightarrow> (psci_state \<Rightarrow> psci_state) \<Rightarrow> nat \<Rightarrow> uint32_t \<Rightarrow> u_register_t \<Rightarrow> u_register_t \<Rightarrow> u_register_t
     \<Rightarrow> psci_state \<Rightarrow> u_register_t outcome \<times> psci_state" where
  "psci_smc64 e others me smc_fid x1 x2 x3 s =
     (if smc_fid = PSCI_CPU_SUSPEND_AARCH64 then ret_of (psci_cpu_suspend e others me (ucast x1) x2 x3 s)
      else if smc_fid = PSCI_CPU_ON_AARCH64 then ret_of (psci_cpu_on e x1 x2 x3 s)
      else if smc_fid = PSCI_AFFINITY_INFO_AARCH64 then
        (Returned (ret_int (psci_affinity_info e x1 (ucast x2) s)), s)
      else if smc_fid = PSCI_MIG_AARCH64 then ret_of (psci_migrate e me x1 s)
      else if smc_fid = PSCI_MIG_INFO_UP_CPU_AARCH64 then (psci_migrate_info_up_cpu e s, s)
      else if smc_fid = PSCI_NODE_HW_STATE_AARCH64 then ret_of (psci_node_hw_state e x1 (ucast x2), s)
      else if smc_fid = PSCI_SYSTEM_SUSPEND_AARCH64 then ret_of (psci_system_suspend e others me x1 x2 s)
      else if ENABLE_PSCI_STAT e \<and> smc_fid = PSCI_STAT_RESIDENCY_AARCH64 then
        (psci_stat_residency e x1 (ucast x2) s, s)
      else if ENABLE_PSCI_STAT e \<and> smc_fid = PSCI_STAT_COUNT_AARCH64 then
        (psci_stat_count e x1 (ucast x2) s, s)
      else if smc_fid = PSCI_MEM_CHK_RANGE_AARCH64 then (psci_mem_chk_range e x1 x2, s)
      else if smc_fid = PSCI_SYSTEM_RESET2_AARCH64 then psci_system_reset2 e (ucast x1) x2 s
      else (Returned SMC_UNK, s))"

definition psci_smc_handler ::
  "psci_env \<Rightarrow> (psci_state \<Rightarrow> psci_state) \<Rightarrow> nat \<Rightarrow> uint32_t \<Rightarrow> u_register_t \<Rightarrow> u_register_t \<Rightarrow> u_register_t
     \<Rightarrow> u_register_t \<Rightarrow> psci_state \<Rightarrow> u_register_t outcome \<times> psci_state" where
  "psci_smc_handler e others me smc_fid x1 x2 x3 flags s =
     (if is_caller_secure flags then (Returned SMC_UNK, s)
      else if psci_caps s AND define_psci_cap smc_fid = 0 then (Returned SMC_UNK, s)
      else if smc_cc smc_fid = 0 then psci_smc32 e others me smc_fid (ucast x1) (ucast x2) (ucast x3) s
      else psci_smc64 e others me smc_fid x1 x2 x3 s)"

end
