(* ===== verification/Psci_Setup.thy ===== *)
theory Psci_Setup
  imports Psci_Main
begin

text \<open>
  Cold boot of the PSCI library, \<open>lib/psci/psci_setup.c\<close>: the power domain tree is built
  breadth-first from the platform's descriptor, each node learns which CPUs lie below it, the
  calling CPU and its ancestors are set to run and the capabilities are computed from the hooks
  present.
\<close>

section \<open>Definitions\<close>

text \<open>
  \<open>node_idx\<close> is a \<open>uint16_t\<close> parameter and \<open>parent_idx\<close> an \<open>unsigned int\<close>: the roots get
  \<open>0 - 1U\<close>, that is \<open>PSCI_PARENT_NODE_INVALID\<close>.
\<close>

definition psci_init_pwr_domain_node ::
  "psci_env \<Rightarrow> uint16_t \<Rightarrow> uint32_t \<Rightarrow> nat \<Rightarrow> psci_state \<Rightarrow> psci_state" where
  "psci_init_pwr_domain_node e node_idx parent_idx level s =
     (let node_idx = unat node_idx
      in if level > PSCI_CPU_PWR_LVL then
        let s = s\<lparr>psci_non_cpu_pd_nodes := (psci_non_cpu_pd_nodes s)
                    [node_idx := (psci_non_cpu_pd_nodes s ! node_idx)\<lparr>nd_level := level\<rparr>]\<rparr>;
            s = psci_lock_init node_idx s
        in s\<lparr>psci_non_cpu_pd_nodes := (psci_non_cpu_pd_nodes s)
               [node_idx := (psci_non_cpu_pd_nodes s ! node_idx)
                  \<lparr>parent_node := parent_idx, nd_local_state := PLAT_MAX_OFF_STATE e\<rparr>]\<rparr>
      else
        let s = s\<lparr>psci_cpu_pd_nodes := (psci_cpu_pd_nodes s)
                    [node_idx := (psci_cpu_pd_nodes s ! node_idx)
                       \<lparr>cpu_parent_node := unat parent_idx, mpidr := PSCI_INVALID_MPIDR\<rparr>]\<rparr>
        in upd_cpu_data node_idx (\<lambda>_. \<lparr>aff_info_state = AFF_STATE_OFF,
              target_pwrlvl = PSCI_INVALID_PWR_LVL e, cpu_local_state = PLAT_MAX_OFF_STATE e\<rparr>) s)"

text \<open>The loop over the \<open>n\<close> entries of one level, with \<open>j\<close>, \<open>node_index\<close>, \<open>parent_node_index\<close> and
  \<open>num_nodes_at_next_lvl\<close> as loop variables.\<close>

fun populate_level ::
  "psci_env \<Rightarrow> uint8_t list \<Rightarrow> nat \<Rightarrow> nat \<Rightarrow> nat \<Rightarrow> nat \<Rightarrow> nat \<Rightarrow> nat \<Rightarrow> psci_state
     \<Rightarrow> nat \<times> nat \<times> nat \<times> nat \<times> psci_state" where
  "populate_level e topology level 0 j node_index parent_node_index next s =
     (j, node_index, parent_node_index, next, s)"
| "populate_level e topology level (Suc n) j node_index parent_node_index next s =
     (let num_children = unat (topology ! parent_node_index);
          s = fold (\<lambda>j. psci_init_pwr_domain_node e (of_nat j) (of_nat parent_node_index - 1) level)
                [node_index..<node_index + num_children] s
      in populate_level e topology level n (node_index + num_children) (node_index + num_children)
           (Suc parent_node_index) (next + num_children) s)"

fun populate_levels ::
  "psci_env \<Rightarrow> uint8_t list \<Rightarrow> nat \<Rightarrow> nat \<Rightarrow> nat \<Rightarrow> nat \<Rightarrow> nat \<Rightarrow> psci_state \<Rightarrow> nat \<times> psci_state" where
  "populate_levels e topology 0 num j node_index parent_node_index s =
     (let (j, _, _, _, s) = populate_level e topology 0 num j node_index parent_node_index 0 s in (j, s))"
| "populate_levels e topology (Suc level) num j node_index parent_node_index s =
     (let (j, node_index, parent_node_index, next, s) =
            populate_level e topology (Suc level) num j node_index parent_node_index 0 s
      in populate_levels e topology level next j (if level = PSCI_CPU_PWR_LVL then 0 else node_index)
           parent_node_index s)"

definition populate_power_domain_tree :: "psci_env \<Rightarrow> uint8_t list \<Rightarrow> psci_state \<Rightarrow> nat \<times> psci_state" where
  "populate_power_domain_tree e topology s = populate_levels e topology (PLAT_MAX_PWR_LVL e) 1 0 0 0 s"

definition limits_node :: "nat \<Rightarrow> nat list \<Rightarrow> nat \<Rightarrow> nat list \<times> psci_state \<Rightarrow> nat list \<times> psci_state" where
  "limits_node cpu_idx temp_index j acc =
     (let (nodes_idx, s) = acc;
          (nodes_idx, s) =
            (if temp_index ! j \<noteq> nodes_idx ! j then
               (nodes_idx[j := temp_index ! j],
                s\<lparr>psci_non_cpu_pd_nodes := (psci_non_cpu_pd_nodes s)
                    [temp_index ! j := (psci_non_cpu_pd_nodes s ! (temp_index ! j))\<lparr>cpu_start_idx := cpu_idx\<rparr>]\<rparr>)
             else (nodes_idx, s));
          nd = psci_non_cpu_pd_nodes s ! (nodes_idx ! j)
      in (nodes_idx, s\<lparr>psci_non_cpu_pd_nodes :=
                         (psci_non_cpu_pd_nodes s)[nodes_idx ! j := nd\<lparr>ncpus := ncpus nd + 1\<rparr>]\<rparr>))"

definition psci_update_pwrlvl_limits :: "psci_env \<Rightarrow> psci_state \<Rightarrow> psci_state" where
  "psci_update_pwrlvl_limits e s =
     snd (fold (\<lambda>cpu_idx (nodes_idx, s).
             let temp_index = psci_get_parent_pwr_domain_nodes cpu_idx (PLAT_MAX_PWR_LVL e) s
             in fold (limits_node cpu_idx temp_index) (rev [0..<PLAT_MAX_PWR_LVL e]) (nodes_idx, s))
           [0..<psci_plat_core_count s] (replicate (PLAT_MAX_PWR_LVL e) 0, s))"

definition cap_if :: "bool \<Rightarrow> uint32_t \<Rightarrow> uint32_t \<Rightarrow> uint32_t" where
  "cap_if b fid caps = (if b then caps OR define_psci_cap fid else caps)"

definition setup_caps :: "psci_env \<Rightarrow> uint32_t" where
  "setup_caps e =
     (let ops = psci_plat_pm_ops e;
          susp = pwr_domain_suspend ops \<and> pwr_domain_suspend_finish ops;
          caps = PSCI_GENERIC_CAP;
          caps = cap_if (pwr_domain_off ops) PSCI_CPU_OFF caps;
          caps = cap_if (pwr_domain_on ops \<noteq> None \<and> pwr_domain_on_finish ops) PSCI_CPU_ON_AARCH64 caps;
          caps = cap_if (susp \<and> validate_power_state ops \<noteq> None) PSCI_CPU_SUSPEND_AARCH64 caps;
          caps = cap_if (susp \<and> get_sys_suspend_power_state ops \<noteq> None) PSCI_SYSTEM_SUSPEND_AARCH64 caps;
          caps = cap_if (susp \<and> PSCI_OS_INIT_MODE e) PSCI_SET_SUSPEND_MODE caps;
          caps = cap_if (plat_system_off ops) PSCI_SYSTEM_OFF caps;
          caps = cap_if (plat_system_reset ops) PSCI_SYSTEM_RESET caps;
          caps = cap_if (get_node_hw_state ops \<noteq> None) PSCI_NODE_HW_STATE_AARCH64 caps;
          caps = cap_if (read_mem_protect ops \<noteq> None \<and> write_mem_protect ops \<noteq> None) PSCI_MEM_PROTECT caps;
          caps = cap_if (mem_protect_chk ops \<noteq> None) PSCI_MEM_CHK_RANGE_AARCH64 caps;
          caps = cap_if (plat_system_reset2 ops \<noteq> None) PSCI_SYSTEM_RESET2_AARCH64 caps;
          caps = cap_if (ENABLE_PSCI_STAT e) PSCI_STAT_RESIDENCY_AARCH64 caps
      in cap_if (ENABLE_PSCI_STAT e) PSCI_STAT_COUNT_AARCH64 caps)"

definition psci_setup :: "psci_env \<Rightarrow> nat \<Rightarrow> psci_state \<Rightarrow> psci_state" where
  "psci_setup e me s =
     (let s = log_event Psci_arch_setup s;
          (n, s) = populate_power_domain_tree e (plat_power_domain_tree_desc e) s;
          s = s\<lparr>psci_plat_core_count := n\<rparr>;
          s = psci_update_pwrlvl_limits e s;
          s = set_node_mpidr e me s;
          s = psci_init_req_local_pwr_states e s;
          s = psci_set_pwr_domains_to_run e me (PLAT_MAX_PWR_LVL e) s
      in s\<lparr>psci_caps := setup_caps e\<rparr>)"

text \<open>The zero-initialised variables of the library at cold boot.\<close>

definition psci_bss :: "psci_env \<Rightarrow> psci_state" where
  "psci_bss e =
     \<lparr>psci_non_cpu_pd_nodes = replicate (PSCI_NUM_NON_CPU_PWR_DOMAINS e)
        \<lparr>cpu_start_idx = 0, ncpus = 0, parent_node = 0, nd_local_state = 0, nd_level = 0, lock_index = 0\<rparr>,
      psci_cpu_pd_nodes = replicate (PLATFORM_CORE_COUNT e) \<lparr>mpidr = 0, cpu_parent_node = 0\<rparr>,
      psci_req_local_pwr_states = replicate (PLAT_MAX_PWR_LVL e) (replicate (PLATFORM_CORE_COUNT e) 0),
      psci_svc_cpu_data = replicate (PLATFORM_CORE_COUNT e)
        \<lparr>aff_info_state = AFF_STATE_ON, target_pwrlvl = 0, cpu_local_state = 0\<rparr>,
      psci_plat_core_count = 0, psci_caps = 0, psci_suspend_mode = 0, psci_spd_pm = None,
      psci_ns_context = replicate (PLATFORM_CORE_COUNT e) None,
      last_cpu_in_non_cpu_pd = replicate (PSCI_NUM_NON_CPU_PWR_DOMAINS e) None,
      psci_cpu_stat = replicate (PLATFORM_CORE_COUNT e)
        (replicate (PLAT_MAX_PWR_LVL_STATES e) \<lparr>residency = 0, stat_count = 0\<rparr>),
      psci_non_cpu_stat = replicate (PSCI_NUM_NON_CPU_PWR_DOMAINS e)
        (replicate (PLAT_MAX_PWR_LVL_STATES e) \<lparr>residency = 0, stat_count = 0\<rparr>),
      events = []\<rparr>"

end
