(* ===== verification/Psci_Boot.thy ===== *)
theory Psci_Boot
  imports Psci_Setup
begin

text \<open>
  Cold boot establishes the invariant: for every platform descriptor whose node counts fit the
  arrays, \<open>psci_setup\<close> builds a well-formed power domain tree. The nodes of a level occupy a
  contiguous range, children of a node are contiguous, and so are the CPUs below a node.
\<close>

section \<open>Allocating the nodes of one level\<close>

definition init_node :: "psci_env \<Rightarrow> uint32_t \<Rightarrow> nat \<Rightarrow> nat \<Rightarrow> non_cpu_pd_node_t \<Rightarrow> non_cpu_pd_node_t" where
  "init_node e p level i nd =
     nd\<lparr>nd_level := level, lock_index := i, parent_node := p, nd_local_state := PLAT_MAX_OFF_STATE e\<rparr>"

text \<open>Everything but the three arrays the construction fills.\<close>

definition tree_erase :: "psci_state \<Rightarrow> psci_state" where
  "tree_erase s = s\<lparr>psci_non_cpu_pd_nodes := [], psci_cpu_pd_nodes := [], psci_svc_cpu_data := []\<rparr>"

definition nodes_written :: "psci_state \<Rightarrow> psci_state \<Rightarrow> bool" where
  "nodes_written s t \<longleftrightarrow>
     tree_erase t = tree_erase s \<and> psci_cpu_pd_nodes t = psci_cpu_pd_nodes s
     \<and> psci_svc_cpu_data t = psci_svc_cpu_data s
     \<and> length (psci_non_cpu_pd_nodes t) = length (psci_non_cpu_pd_nodes s)"

lemma nodes_written_refl [simp]: "nodes_written s s"
  by (simp add: nodes_written_def)

lemma nodes_written_trans: "nodes_written s t \<Longrightarrow> nodes_written t u \<Longrightarrow> nodes_written s u"
  by (simp add: nodes_written_def)

lemma init_node_step:
  assumes "0 < level" "i < length (psci_non_cpu_pd_nodes s)" "length (psci_non_cpu_pd_nodes s) \<le> 65536"
  shows "psci_init_pwr_domain_node e (of_nat i) p level s =
    s\<lparr>psci_non_cpu_pd_nodes := (psci_non_cpu_pd_nodes s)[i := init_node e p level i (psci_non_cpu_pd_nodes s ! i)]\<rparr>"
proof -
  have "unat (of_nat i :: uint16_t) = i"
    using assms(2,3) by (simp add: unat_of_nat)
  then show ?thesis
    using assms(1,2) by (simp add: psci_init_pwr_domain_node_def psci_lock_init_def init_node_def Let_def)
qed

lemma init_nodes:
  assumes "0 < level" "b \<le> length (psci_non_cpu_pd_nodes s)" "length (psci_non_cpu_pd_nodes s) \<le> 65536"
    and "t = fold (\<lambda>j. psci_init_pwr_domain_node e (of_nat j) p level) [a..<b] s"
  shows "nodes_written s t
    \<and> (\<forall>i < length (psci_non_cpu_pd_nodes s). psci_non_cpu_pd_nodes t ! i =
         (if a \<le> i \<and> i < b then init_node e p level i (psci_non_cpu_pd_nodes s ! i)
          else psci_non_cpu_pd_nodes s ! i))"
  using assms(2,4)
proof (induction b arbitrary: t)
  case (Suc b)
  show ?case
  proof (cases "a \<le> b")
    case False
    then show ?thesis using Suc.prems by auto
  next
    case True
    define u where "u = fold (\<lambda>j. psci_init_pwr_domain_node e (of_nat j) p level) [a..<b] s"
    have IH: "nodes_written s u
      \<and> (\<forall>i < length (psci_non_cpu_pd_nodes s). psci_non_cpu_pd_nodes u ! i =
           (if a \<le> i \<and> i < b then init_node e p level i (psci_non_cpu_pd_nodes s ! i)
            else psci_non_cpu_pd_nodes s ! i))"
      using Suc.prems(1) by (intro Suc.IH [OF _ u_def]) simp
    have len: "length (psci_non_cpu_pd_nodes u) = length (psci_non_cpu_pd_nodes s)"
      using IH by (simp add: nodes_written_def)
    have t: "t = psci_init_pwr_domain_node e (of_nat b) p level u"
      using True by (simp add: Suc.prems(2) u_def)
    have t': "t = u\<lparr>psci_non_cpu_pd_nodes := (psci_non_cpu_pd_nodes u)
        [b := init_node e p level b (psci_non_cpu_pd_nodes u ! b)]\<rparr>"
      unfolding t using Suc.prems(1) len assms(1,3) by (intro init_node_step) simp_all
    have "nodes_written u t" by (simp add: t' nodes_written_def tree_erase_def)
    with IH have "nodes_written s t" using nodes_written_trans by blast
    moreover have "psci_non_cpu_pd_nodes t ! i =
         (if a \<le> i \<and> i < Suc b then init_node e p level i (psci_non_cpu_pd_nodes s ! i)
          else psci_non_cpu_pd_nodes s ! i)" if "i < length (psci_non_cpu_pd_nodes s)" for i
      using that IH True Suc.prems(1) len by (auto simp: t' nth_list_update less_Suc_eq)
    ultimately show ?thesis by blast
  qed
qed (auto simp: assms)

lemma init_nodes_length [simp]:
  "length (psci_non_cpu_pd_nodes (fold (\<lambda>j. psci_init_pwr_domain_node e (of_nat j) p level) js s)) =
     length (psci_non_cpu_pd_nodes s)"
  by (induction js arbitrary: s)
    (simp_all add: psci_init_pwr_domain_node_def psci_lock_init_def Let_def upd_cpu_data_def)

text \<open>
  A whole level: the children of the parents \<open>pi..<pi'\<close>, laid out from \<open>ni\<close> on. The parent
  of each child lies in that range, and parents increase with the children.
\<close>

definition level_alloc ::
  "psci_env \<Rightarrow> nat \<Rightarrow> nat \<Rightarrow> nat \<Rightarrow> nat \<Rightarrow> nat \<Rightarrow> psci_state \<Rightarrow> psci_state \<Rightarrow> bool" where
  "level_alloc e level ni ni' pi pi' s t \<longleftrightarrow>
     nodes_written s t
     \<and> (\<forall>i < length (psci_non_cpu_pd_nodes s). \<not> (ni \<le> i \<and> i < ni') \<longrightarrow>
          psci_non_cpu_pd_nodes t ! i = psci_non_cpu_pd_nodes s ! i)
     \<and> (\<exists>q. (\<forall>i. ni \<le> i \<and> i < ni' \<longrightarrow> pi \<le> q i \<and> q i < pi'
              \<and> psci_non_cpu_pd_nodes t ! i =
                  init_node e (of_nat (q i) - 1) level i (psci_non_cpu_pd_nodes s ! i))
           \<and> (\<forall>i i'. ni \<le> i \<and> i \<le> i' \<and> i' < ni' \<longrightarrow> q i \<le> q i'))"

lemma populate_level_nodes:
  assumes "populate_level e T level n j ni pi nxt s = (j', ni', pi', nxt', t)" "0 < level"
    and "length (psci_non_cpu_pd_nodes s) \<le> 65536" "ni' \<le> length (psci_non_cpu_pd_nodes s)"
  shows "ni \<le> ni' \<and> pi' = pi + n \<and> nxt' = nxt + (ni' - ni) \<and> level_alloc e level ni ni' pi pi' s t"
  using assms
proof (induction n arbitrary: j ni pi nxt s)
  case 0
  then show ?case by (auto simp: level_alloc_def)
next
  case (Suc n)
  define m where "m = unat (T ! pi)"
  define u where "u = fold (\<lambda>j. psci_init_pwr_domain_node e (of_nat j) (of_nat pi - 1) level) [ni..<ni + m] s"
  have run: "populate_level e T level n (ni + m) (ni + m) (Suc pi) (nxt + m) u = (j', ni', pi', nxt', t)"
    using Suc.prems(1) by (simp add: Let_def m_def u_def)
  have lenu: "length (psci_non_cpu_pd_nodes u) = length (psci_non_cpu_pd_nodes s)"
    by (simp add: u_def)
  have IH: "ni + m \<le> ni' \<and> pi' = Suc pi + n \<and> nxt' = nxt + m + (ni' - (ni + m))
      \<and> level_alloc e level (ni + m) ni' (Suc pi) pi' u t"
    using Suc.prems(2-4) lenu by (intro Suc.IH [OF run]) simp_all
  have len: "ni + m \<le> length (psci_non_cpu_pd_nodes s)" using IH Suc.prems(4) by simp
  have U: "nodes_written s u
    \<and> (\<forall>i < length (psci_non_cpu_pd_nodes s). psci_non_cpu_pd_nodes u ! i =
         (if ni \<le> i \<and> i < ni + m then init_node e (of_nat pi - 1) level i (psci_non_cpu_pd_nodes s ! i)
          else psci_non_cpu_pd_nodes s ! i))"
    by (rule init_nodes [OF Suc.prems(2) len Suc.prems(3) u_def])
  have LA: "level_alloc e level (ni + m) ni' (Suc pi) pi' u t" using IH by blast
  then have W: "nodes_written u t"
    and out: "\<And>i. i < length (psci_non_cpu_pd_nodes s) \<Longrightarrow> \<not> (ni + m \<le> i \<and> i < ni') \<Longrightarrow>
          psci_non_cpu_pd_nodes t ! i = psci_non_cpu_pd_nodes u ! i"
    using lenu by (simp_all add: level_alloc_def)
  from LA obtain q where
    q: "\<And>i. ni + m \<le> i \<and> i < ni' \<Longrightarrow> Suc pi \<le> q i \<and> q i < pi'
              \<and> psci_non_cpu_pd_nodes t ! i = init_node e (of_nat (q i) - 1) level i (psci_non_cpu_pd_nodes u ! i)"
    and mono: "\<And>i i'. ni + m \<le> i \<and> i \<le> i' \<and> i' < ni' \<Longrightarrow> q i \<le> q i'"
    unfolding level_alloc_def by blast
  have "level_alloc e level ni ni' pi pi' s t"
    unfolding level_alloc_def
  proof (intro conjI exI [of _ "\<lambda>i. if i < ni + m then pi else q i"] allI impI)
    show "nodes_written s t" using U W nodes_written_trans by blast
  next
    fix i assume "i < length (psci_non_cpu_pd_nodes s)" "\<not> (ni \<le> i \<and> i < ni')"
    then show "psci_non_cpu_pd_nodes t ! i = psci_non_cpu_pd_nodes s ! i" using out U IH by auto
  next
    fix i assume i: "ni \<le> i \<and> i < ni'"
    then have il: "i < length (psci_non_cpu_pd_nodes s)" using Suc.prems(4) by simp
    show "pi \<le> (if i < ni + m then pi else q i)" using q [of i] i by auto
    show "(if i < ni + m then pi else q i) < pi'" using q [of i] i IH by auto
    show "psci_non_cpu_pd_nodes t ! i =
        init_node e (of_nat (if i < ni + m then pi else q i) - 1) level i (psci_non_cpu_pd_nodes s ! i)"
      using i il q [of i] out [of i] U by auto
  next
    fix i i' assume "ni \<le> i \<and> i \<le> i' \<and> i' < ni'"
    then show "(if i < ni + m then pi else q i) \<le> (if i' < ni + m then pi else q i')"
      using q [of i'] mono [of i i'] by auto
  qed
  with IH show ?case by auto
qed

section \<open>Allocating the CPUs\<close>

definition off_cpu_data :: "psci_env \<Rightarrow> psci_cpu_data_t" where
  "off_cpu_data e = \<lparr>aff_info_state = AFF_STATE_OFF, target_pwrlvl = PSCI_INVALID_PWR_LVL e,
     cpu_local_state = PLAT_MAX_OFF_STATE e\<rparr>"

definition cpus_written :: "psci_state \<Rightarrow> psci_state \<Rightarrow> bool" where
  "cpus_written s t \<longleftrightarrow>
     tree_erase t = tree_erase s \<and> psci_non_cpu_pd_nodes t = psci_non_cpu_pd_nodes s
     \<and> length (psci_cpu_pd_nodes t) = length (psci_cpu_pd_nodes s)
     \<and> length (psci_svc_cpu_data t) = length (psci_svc_cpu_data s)"

lemma cpus_written_refl [simp]: "cpus_written s s"
  by (simp add: cpus_written_def)

lemma cpus_written_trans: "cpus_written s t \<Longrightarrow> cpus_written t u \<Longrightarrow> cpus_written s u"
  by (simp add: cpus_written_def)

lemma init_cpu_step:
  assumes "c < length (psci_cpu_pd_nodes s)" "length (psci_cpu_pd_nodes s) \<le> 65536"
    and "t = psci_init_pwr_domain_node e (of_nat c) p 0 s"
  shows "cpus_written s t"
    and "psci_cpu_pd_nodes t = (psci_cpu_pd_nodes s)
           [c := (psci_cpu_pd_nodes s ! c)\<lparr>cpu_parent_node := unat p, mpidr := PSCI_INVALID_MPIDR\<rparr>]"
    and "psci_svc_cpu_data t = (psci_svc_cpu_data s)[c := off_cpu_data e]"
proof -
  have "unat (of_nat c :: uint16_t) = c"
    using assms(1,2) by (simp add: unat_of_nat)
  then show "cpus_written s t"
    "psci_cpu_pd_nodes t = (psci_cpu_pd_nodes s)
           [c := (psci_cpu_pd_nodes s ! c)\<lparr>cpu_parent_node := unat p, mpidr := PSCI_INVALID_MPIDR\<rparr>]"
    "psci_svc_cpu_data t = (psci_svc_cpu_data s)[c := off_cpu_data e]"
    by (simp_all add: assms(3) psci_init_pwr_domain_node_def Let_def upd_cpu_data_def off_cpu_data_def
        cpus_written_def tree_erase_def)
qed

text \<open>CPUs \<open>ni..<ni'\<close> are off, with their parents in \<open>pi..<pi'\<close> in increasing order.\<close>

definition cpu_alloc :: "psci_env \<Rightarrow> nat \<Rightarrow> nat \<Rightarrow> nat \<Rightarrow> nat \<Rightarrow> psci_state \<Rightarrow> psci_state \<Rightarrow> bool" where
  "cpu_alloc e ni ni' pi pi' s t \<longleftrightarrow>
     cpus_written s t
     \<and> (\<forall>c < length (psci_cpu_pd_nodes s). \<not> (ni \<le> c \<and> c < ni') \<longrightarrow>
          psci_cpu_pd_nodes t ! c = psci_cpu_pd_nodes s ! c \<and> psci_svc_cpu_data t ! c = psci_svc_cpu_data s ! c)
     \<and> (\<exists>q. (\<forall>c. ni \<le> c \<and> c < ni' \<longrightarrow> pi \<le> q c \<and> q c < pi'
              \<and> cpu_parent_node (psci_cpu_pd_nodes t ! c) = unat (of_nat (q c) - 1 :: uint32_t)
              \<and> psci_svc_cpu_data t ! c = off_cpu_data e)
           \<and> (\<forall>c c'. ni \<le> c \<and> c \<le> c' \<and> c' < ni' \<longrightarrow> q c \<le> q c'))"

lemma init_cpus:
  assumes "b \<le> length (psci_cpu_pd_nodes s)" "length (psci_cpu_pd_nodes s) \<le> 65536"
    and "length (psci_svc_cpu_data s) = length (psci_cpu_pd_nodes s)"
    and "t = fold (\<lambda>j. psci_init_pwr_domain_node e (of_nat j) (of_nat q - 1) 0) [a..<b] s"
  shows "cpu_alloc e a b q (Suc q) s t"
  using assms(1,4)
proof (induction b arbitrary: t)
  case 0
  then show ?case by (simp add: cpu_alloc_def)
next
  case (Suc b)
  show ?case
  proof (cases "a \<le> b")
    case False
    then show ?thesis using Suc.prems by (auto simp: cpu_alloc_def)
  next
    case True
    define u where "u = fold (\<lambda>j. psci_init_pwr_domain_node e (of_nat j) (of_nat q - 1) 0) [a..<b] s"
    have IH: "cpu_alloc e a b q (Suc q) s u"
      using Suc.prems(1) by (intro Suc.IH [OF _ u_def]) simp
    have t: "t = psci_init_pwr_domain_node e (of_nat b) (of_nat q - 1) 0 u"
      using True by (simp add: Suc.prems(2) u_def)
    have lenu: "length (psci_cpu_pd_nodes u) = length (psci_cpu_pd_nodes s)"
      "length (psci_svc_cpu_data u) = length (psci_cpu_pd_nodes s)" and wu: "cpus_written s u"
      using IH assms(3) by (simp_all add: cpu_alloc_def cpus_written_def)
    have b: "b < length (psci_cpu_pd_nodes u)" "length (psci_cpu_pd_nodes u) \<le> 65536"
      using Suc.prems(1) assms(2) lenu by simp_all
    note st = init_cpu_step [OF b t]
    have "cpus_written s t" using wu st(1) cpus_written_trans by blast
    then show ?thesis
      using IH st(2,3) b lenu True unfolding cpu_alloc_def
      by (auto simp: nth_list_update less_Suc_eq intro!: exI [of _ "\<lambda>_. q"]) 
  qed
qed

lemma cpu_alloc_append:
  assumes "cpu_alloc e ni m pi (Suc pi) s u" "cpu_alloc e m ni' (Suc pi) pi' u t"
    and "ni \<le> m" "m \<le> ni'" "ni' \<le> length (psci_cpu_pd_nodes s)" "pi < pi'"
  shows "cpu_alloc e ni ni' pi pi' s t"
proof -
  have lenu: "length (psci_cpu_pd_nodes u) = length (psci_cpu_pd_nodes s)"
    using assms(1) by (simp add: cpu_alloc_def cpus_written_def)
  have out: "psci_cpu_pd_nodes t ! c = psci_cpu_pd_nodes u ! c" "psci_svc_cpu_data t ! c = psci_svc_cpu_data u ! c"
    if "c < length (psci_cpu_pd_nodes s)" "\<not> (m \<le> c \<and> c < ni')" for c
    using assms(2) lenu that by (simp_all add: cpu_alloc_def)
  from assms(1) obtain p where
    p: "\<And>c. ni \<le> c \<and> c < m \<Longrightarrow> pi \<le> p c \<and> p c < Suc pi
        \<and> cpu_parent_node (psci_cpu_pd_nodes u ! c) = unat (of_nat (p c) - 1 :: uint32_t)
        \<and> psci_svc_cpu_data u ! c = off_cpu_data e"
    unfolding cpu_alloc_def by blast
  from assms(2) obtain q where
    q: "\<And>c. m \<le> c \<and> c < ni' \<Longrightarrow> Suc pi \<le> q c \<and> q c < pi'
        \<and> cpu_parent_node (psci_cpu_pd_nodes t ! c) = unat (of_nat (q c) - 1 :: uint32_t)
        \<and> psci_svc_cpu_data t ! c = off_cpu_data e"
    and mono: "\<And>c c'. m \<le> c \<and> c \<le> c' \<and> c' < ni' \<Longrightarrow> q c \<le> q c'"
    unfolding cpu_alloc_def by blast
  have w: "cpus_written s t" using assms(1,2) cpus_written_trans by (auto simp: cpu_alloc_def)
  show ?thesis
    unfolding cpu_alloc_def
  proof (intro conjI exI [of _ "\<lambda>c. if c < m then pi else q c"] allI impI)
    show "cpus_written s t" by (rule w)
  next
    fix c assume c: "c < length (psci_cpu_pd_nodes s)" "\<not> (ni \<le> c \<and> c < ni')"
    then have "\<not> (ni \<le> c \<and> c < m)" "\<not> (m \<le> c \<and> c < ni')" using assms(3,4) by auto
    then show "psci_cpu_pd_nodes t ! c = psci_cpu_pd_nodes s ! c" "psci_svc_cpu_data t ! c = psci_svc_cpu_data s ! c"
      using out [OF c(1)] assms(1) c(1) by (simp_all add: cpu_alloc_def)
  next
    fix c assume c: "ni \<le> c \<and> c < ni'"
    then have cl: "c < length (psci_cpu_pd_nodes s)" using assms(5) by simp
    have pc: "p c = pi" if "c < m" using p [of c] c that by auto
    show "pi \<le> (if c < m then pi else q c)" "(if c < m then pi else q c) < pi'"
      using q [of c] c assms(6) by auto
    show "cpu_parent_node (psci_cpu_pd_nodes t ! c) = unat (of_nat (if c < m then pi else q c) - 1 :: uint32_t)"
      "psci_svc_cpu_data t ! c = off_cpu_data e"
      using c cl q [of c] p [of c] pc out [OF cl] by (cases "c < m"; simp)+
  next
    fix c c' assume "ni \<le> c \<and> c \<le> c' \<and> c' < ni'"
    then show "(if c < m then pi else q c) \<le> (if c' < m then pi else q c')"
      using q [of c'] mono [of c c'] by auto
  qed
qed

definition sum_children :: "uint8_t list \<Rightarrow> nat \<Rightarrow> nat \<Rightarrow> nat" where
  "sum_children T p n = sum_list (map (\<lambda>i. unat (T ! i)) [p..<p + n])"

lemma sum_children_Suc: "sum_children T p (Suc n) = unat (T ! p) + sum_children T (Suc p) n"
  by (simp add: sum_children_def upt_conv_Cons del: upt_Suc)

lemma populate_level_counts:
  "populate_level e T level n j ni pi nxt s = (j', ni', pi', nxt', t) \<Longrightarrow>
     ni' = ni + sum_children T pi n \<and> pi' = pi + n \<and> nxt' = nxt + sum_children T pi n
     \<and> j' = (if n = 0 then j else ni')"
proof (induction n arbitrary: j ni pi nxt s)
  case (Suc n)
  then show ?case by (fastforce simp: Let_def sum_children_Suc)
qed (simp add: sum_children_def)

lemma populate_level_cpus:
  assumes "populate_level e T 0 n j ni pi nxt s = (j', ni', pi', nxt', t)"
    and "length (psci_cpu_pd_nodes s) \<le> 65536" "ni' \<le> length (psci_cpu_pd_nodes s)"
    and "length (psci_svc_cpu_data s) = length (psci_cpu_pd_nodes s)"
  shows "cpu_alloc e ni ni' pi pi' s t"
  using assms
proof (induction n arbitrary: j ni pi nxt s)
  case 0
  then show ?case by (auto simp: cpu_alloc_def)
next
  case (Suc n)
  define m where "m = ni + unat (T ! pi)"
  define u where "u = fold (\<lambda>j. psci_init_pwr_domain_node e (of_nat j) (of_nat pi - 1) 0) [ni..<m] s"
  have run: "populate_level e T 0 n m m (Suc pi) (nxt + unat (T ! pi)) u = (j', ni', pi', nxt', t)"
    using Suc.prems(1) by (simp add: Let_def m_def u_def)
  note cnt = populate_level_counts [OF run]
  have a: "cpu_alloc e ni m pi (Suc pi) s u"
    using Suc.prems(2-4) cnt by (intro init_cpus [OF _ _ _ u_def]) simp_all
  then have len: "length (psci_cpu_pd_nodes u) = length (psci_cpu_pd_nodes s)"
    "length (psci_svc_cpu_data u) = length (psci_svc_cpu_data s)"
    by (simp_all add: cpu_alloc_def cpus_written_def)
  have b: "cpu_alloc e m ni' (Suc pi) pi' u t"
    using Suc.prems(2-4) len by (intro Suc.IH [OF run]) simp_all
  show ?case
    by (rule cpu_alloc_append [OF a b]) (use cnt Suc.prems(3) in \<open>simp_all add: m_def\<close>)
qed

section \<open>All levels\<close>

definition nodes_ok :: "psci_state \<Rightarrow> nat \<Rightarrow> nat \<Rightarrow> nat \<Rightarrow> bool" where
  "nodes_ok s l b n \<longleftrightarrow>
     (\<forall>i. b \<le> i \<and> i < b + n \<longrightarrow> i < length (psci_non_cpu_pd_nodes s)
        \<and> nd_level (psci_non_cpu_pd_nodes s ! i) = l \<and> lock_index (psci_non_cpu_pd_nodes s ! i) = i)"

text \<open>
  The nodes \<open>b..<b+n\<close> are those of level \<open>l\<close>, and the parents of each level up to \<open>l + d\<close> are the
  nodes of the next, in increasing order.
\<close>

fun levels_ok :: "psci_state \<Rightarrow> nat \<Rightarrow> nat \<Rightarrow> nat \<Rightarrow> nat \<Rightarrow> bool" where
  "levels_ok s 0 l b n = nodes_ok s l b n"
| "levels_ok s (Suc d) l b n =
     (nodes_ok s l b n
      \<and> (\<exists>b' n'. b' + n' \<le> b \<and> levels_ok s d (Suc l) b' n'
           \<and> (\<forall>i. b \<le> i \<and> i < b + n \<longrightarrow> b' \<le> parent_of (psci_non_cpu_pd_nodes s ! i)
                 \<and> parent_of (psci_non_cpu_pd_nodes s ! i) < b' + n')
           \<and> (\<forall>i i'. b \<le> i \<and> i \<le> i' \<and> i' < b + n \<longrightarrow>
                 parent_of (psci_non_cpu_pd_nodes s ! i) \<le> parent_of (psci_non_cpu_pd_nodes s ! i'))))"

lemma levels_ok_frame:
  assumes "levels_ok s d l b n" "length (psci_non_cpu_pd_nodes t) = length (psci_non_cpu_pd_nodes s)"
    and "\<And>i. i < b + n \<Longrightarrow> i < length (psci_non_cpu_pd_nodes s) \<Longrightarrow>
           nd_level (psci_non_cpu_pd_nodes t ! i) = nd_level (psci_non_cpu_pd_nodes s ! i)
           \<and> lock_index (psci_non_cpu_pd_nodes t ! i) = lock_index (psci_non_cpu_pd_nodes s ! i)
           \<and> parent_of (psci_non_cpu_pd_nodes t ! i) = parent_of (psci_non_cpu_pd_nodes s ! i)"
  shows "levels_ok t d l b n"
  using assms
proof (induction d arbitrary: l b n)
  case 0
  then show ?case by (auto simp: nodes_ok_def)
next
  case (Suc d)
  from Suc.prems(1) obtain b' n' where n: "nodes_ok s l b n" "b' + n' \<le> b" "levels_ok s d (Suc l) b' n'"
    "\<forall>i. b \<le> i \<and> i < b + n \<longrightarrow> b' \<le> parent_of (psci_non_cpu_pd_nodes s ! i)
                 \<and> parent_of (psci_non_cpu_pd_nodes s ! i) < b' + n'"
    "\<forall>i i'. b \<le> i \<and> i \<le> i' \<and> i' < b + n \<longrightarrow>
                 parent_of (psci_non_cpu_pd_nodes s ! i) \<le> parent_of (psci_non_cpu_pd_nodes s ! i')"
    by auto
  have l: "levels_ok t d (Suc l) b' n'"
    using n(2) Suc.prems(2,3) by (intro Suc.IH [OF n(3)]) auto
  have eq: "parent_of (psci_non_cpu_pd_nodes t ! i) = parent_of (psci_non_cpu_pd_nodes s ! i)"
    if "b \<le> i" "i < b + n" for i
    using Suc.prems(3) [of i] n(1) that by (simp add: nodes_ok_def)
  have "nodes_ok t l b n" using n(1) Suc.prems(2,3) by (auto simp: nodes_ok_def)
  moreover have "\<forall>i. b \<le> i \<and> i < b + n \<longrightarrow> b' \<le> parent_of (psci_non_cpu_pd_nodes t ! i)
                 \<and> parent_of (psci_non_cpu_pd_nodes t ! i) < b' + n'"
    "\<forall>i i'. b \<le> i \<and> i \<le> i' \<and> i' < b + n \<longrightarrow>
                 parent_of (psci_non_cpu_pd_nodes t ! i) \<le> parent_of (psci_non_cpu_pd_nodes t ! i')"
    using n(4,5) eq by auto
  ultimately show ?case using n(2) l unfolding levels_ok.simps by blast
qed

lemma unat_dec:
  assumes "0 < q" "q \<le> 65537"
  shows "unat (of_nat q - 1 :: uint32_t) = q - 1"
proof -
  have "of_nat q - 1 = (of_nat (q - 1) :: uint32_t)" using assms by (cases q) simp_all
  then show ?thesis using assms by (simp add: unat_of_nat del: of_nat_diff)
qed

text \<open>A new level below the ones already there.\<close>

lemma levels_ok_extend:
  assumes "levels_ok s d (Suc (Suc l)) (pi - 1) num" "level_alloc e (Suc l) ni ni' pi (pi + num) s t"
    and "0 < pi" "ni + 1 = pi + num" "ni \<le> ni'" "ni' \<le> length (psci_non_cpu_pd_nodes s)"
    and "length (psci_non_cpu_pd_nodes s) \<le> 65536"
  shows "levels_ok t (Suc d) (Suc l) ni (ni' - ni)"
proof -
  have len: "length (psci_non_cpu_pd_nodes t) = length (psci_non_cpu_pd_nodes s)"
    using assms(2) by (simp add: level_alloc_def nodes_written_def)
  have old: "levels_ok t d (Suc (Suc l)) (pi - 1) num"
    using assms(2-4) by (intro levels_ok_frame [OF assms(1) len]) (auto simp: level_alloc_def)
  from assms(2) obtain q where
    q: "\<And>i. ni \<le> i \<and> i < ni' \<Longrightarrow> pi \<le> q i \<and> q i < pi + num
              \<and> psci_non_cpu_pd_nodes t ! i = init_node e (of_nat (q i) - 1) (Suc l) i (psci_non_cpu_pd_nodes s ! i)"
    and mono: "\<And>i i'. ni \<le> i \<and> i \<le> i' \<and> i' < ni' \<Longrightarrow> q i \<le> q i'"
    unfolding level_alloc_def by blast
  have nd: "i < length (psci_non_cpu_pd_nodes t)" "nd_level (psci_non_cpu_pd_nodes t ! i) = Suc l"
    "lock_index (psci_non_cpu_pd_nodes t ! i) = i" "parent_of (psci_non_cpu_pd_nodes t ! i) = q i - 1"
    if "ni \<le> i" "i < ni'" for i
  proof -
    have qi: "pi \<le> q i" "q i < pi + num"
      and eq: "psci_non_cpu_pd_nodes t ! i = init_node e (of_nat (q i) - 1) (Suc l) i (psci_non_cpu_pd_nodes s ! i)"
      using q [of i] that by blast+
    show "i < length (psci_non_cpu_pd_nodes t)" unfolding len using that assms(6) by linarith
    have "unat (of_nat (q i) - 1 :: uint32_t) = q i - 1"
      by (rule unat_dec) (use qi that assms(3,4,6,7) in linarith)+
    then show "nd_level (psci_non_cpu_pd_nodes t ! i) = Suc l"
      "lock_index (psci_non_cpu_pd_nodes t ! i) = i" "parent_of (psci_non_cpu_pd_nodes t ! i) = q i - 1"
      unfolding eq init_node_def by simp_all
  qed
  have 1: "nodes_ok t (Suc l) ni (ni' - ni)"
    using nd assms(5) by (simp add: nodes_ok_def)
  have 2: "pi - 1 + num \<le> ni" using assms(3,4) by simp
  have 3: "pi - 1 \<le> parent_of (psci_non_cpu_pd_nodes t ! i) \<and> parent_of (psci_non_cpu_pd_nodes t ! i) < pi - 1 + num"
    if "ni \<le> i \<and> i < ni + (ni' - ni)" for i
  proof -
    have i: "ni \<le> i" "i < ni'" using that assms(5) by simp_all
    show ?thesis using q [of i] i assms(3) unfolding nd(4) [OF i] by linarith
  qed
  have 4: "parent_of (psci_non_cpu_pd_nodes t ! i) \<le> parent_of (psci_non_cpu_pd_nodes t ! i')"
    if "ni \<le> i \<and> i \<le> i' \<and> i' < ni + (ni' - ni)" for i i'
  proof -
    have i: "ni \<le> i" "i < ni'" "ni \<le> i'" "i' < ni'" using that assms(5) by simp_all
    show ?thesis
      using mono [of i i'] that i unfolding nd(4) [OF i(1,2)] nd(4) [OF i(3,4)] by (simp add: diff_le_mono)
  qed
  have "\<exists>n'. pi - 1 + n' \<le> ni \<and> levels_ok t d (Suc (Suc l)) (pi - 1) n'
      \<and> (\<forall>i. ni \<le> i \<and> i < ni + (ni' - ni) \<longrightarrow> pi - 1 \<le> parent_of (psci_non_cpu_pd_nodes t ! i)
            \<and> parent_of (psci_non_cpu_pd_nodes t ! i) < pi - 1 + n')
      \<and> (\<forall>i i'. ni \<le> i \<and> i \<le> i' \<and> i' < ni + (ni' - ni) \<longrightarrow>
            parent_of (psci_non_cpu_pd_nodes t ! i) \<le> parent_of (psci_non_cpu_pd_nodes t ! i'))"
    by (rule exI [of _ num], intro conjI allI impI)
      (rule 2, rule old, erule conjunct1 [OF 3], erule conjunct2 [OF 3], erule 4)
  with 1 show ?thesis unfolding levels_ok.simps by (intro conjI) (assumption, rule exI)
qed

fun topology_fits :: "psci_env \<Rightarrow> uint8_t list \<Rightarrow> nat \<Rightarrow> nat \<Rightarrow> nat \<Rightarrow> nat \<Rightarrow> bool" where
  "topology_fits e T 0 num ni pi \<longleftrightarrow>
     0 < num \<and> pi + num \<le> length T \<and> sum_children T pi num \<le> PLATFORM_CORE_COUNT e"
| "topology_fits e T (Suc level) num ni pi \<longleftrightarrow>
     0 < num \<and> pi + num \<le> length T \<and> ni + sum_children T pi num \<le> PSCI_NUM_NON_CPU_PWR_DOMAINS e
     \<and> topology_fits e T level (sum_children T pi num) (ni + sum_children T pi num) (pi + num)"

text \<open>The arrays of \<open>t\<close> as the construction leaves them; all else as in \<open>s\<close>.\<close>

definition tree_built :: "psci_state \<Rightarrow> psci_state \<Rightarrow> bool" where
  "tree_built s t \<longleftrightarrow>
     tree_erase t = tree_erase s
     \<and> length (psci_non_cpu_pd_nodes t) = length (psci_non_cpu_pd_nodes s)
     \<and> length (psci_cpu_pd_nodes t) = length (psci_cpu_pd_nodes s)
     \<and> length (psci_svc_cpu_data t) = length (psci_svc_cpu_data s)
     \<and> (\<forall>i < length (psci_non_cpu_pd_nodes s).
          cpu_start_idx (psci_non_cpu_pd_nodes t ! i) = cpu_start_idx (psci_non_cpu_pd_nodes s ! i)
          \<and> ncpus (psci_non_cpu_pd_nodes t ! i) = ncpus (psci_non_cpu_pd_nodes s ! i))"

lemma tree_built_trans: "tree_built s t \<Longrightarrow> tree_built t u \<Longrightarrow> tree_built s u"
  by (simp add: tree_built_def)

lemma level_alloc_built:
  assumes "level_alloc e l ni ni' pi pi' s t"
  shows "tree_built s t"
proof -
  have "cpu_start_idx (psci_non_cpu_pd_nodes t ! i) = cpu_start_idx (psci_non_cpu_pd_nodes s ! i)
      \<and> ncpus (psci_non_cpu_pd_nodes t ! i) = ncpus (psci_non_cpu_pd_nodes s ! i)"
    if "i < length (psci_non_cpu_pd_nodes s)" for i
  proof (cases "ni \<le> i \<and> i < ni'")
    case True
    then obtain p where "psci_non_cpu_pd_nodes t ! i = init_node e p l i (psci_non_cpu_pd_nodes s ! i)"
      using assms unfolding level_alloc_def by blast
    then show ?thesis by (simp add: init_node_def)
  next
    case False
    then show ?thesis using assms that by (simp add: level_alloc_def)
  qed
  then show ?thesis using assms by (simp add: level_alloc_def nodes_written_def tree_built_def)
qed

lemma cpu_alloc_built: "cpu_alloc e ni ni' pi pi' s t \<Longrightarrow> tree_built s t"
  by (simp add: cpu_alloc_def cpus_written_def tree_built_def)

definition cpus_ok :: "psci_env \<Rightarrow> psci_state \<Rightarrow> nat \<Rightarrow> nat \<Rightarrow> nat \<Rightarrow> bool" where
  "cpus_ok e s cnt b n \<longleftrightarrow>
     (\<forall>c < cnt. b \<le> cpu_parent_node (psci_cpu_pd_nodes s ! c) \<and> cpu_parent_node (psci_cpu_pd_nodes s ! c) < b + n
        \<and> psci_svc_cpu_data s ! c = off_cpu_data e)
     \<and> (\<forall>c c'. c \<le> c' \<and> c' < cnt \<longrightarrow>
          cpu_parent_node (psci_cpu_pd_nodes s ! c) \<le> cpu_parent_node (psci_cpu_pd_nodes s ! c'))"

lemma levels_ok_nodes: "levels_ok s d l b n \<Longrightarrow> nodes_ok s l b n"
  by (cases d) auto

lemma cpu_alloc_ok:
  assumes "cpu_alloc e 0 cnt pi (pi + num) s t" "0 < pi" "pi + num \<le> 65537"
  shows "cpus_ok e t cnt (pi - 1) num"
proof -
  from assms(1) obtain q where
    q: "\<forall>c. 0 \<le> c \<and> c < cnt \<longrightarrow> pi \<le> q c \<and> q c < pi + num
        \<and> cpu_parent_node (psci_cpu_pd_nodes t ! c) = unat (of_nat (q c) - 1 :: uint32_t)
        \<and> psci_svc_cpu_data t ! c = off_cpu_data e"
    and mono: "\<forall>c c'. 0 \<le> c \<and> c \<le> c' \<and> c' < cnt \<longrightarrow> q c \<le> q c'"
    unfolding cpu_alloc_def by (elim conjE exE)
  have qc: "pi \<le> q c" "q c < pi + num" "psci_svc_cpu_data t ! c = off_cpu_data e"
    and par: "cpu_parent_node (psci_cpu_pd_nodes t ! c) = q c - 1" if "c < cnt" for c
  proof -
    from spec [OF q, of c] that have c: "pi \<le> q c" "q c < pi + num" "psci_svc_cpu_data t ! c = off_cpu_data e"
      "cpu_parent_node (psci_cpu_pd_nodes t ! c) = unat (of_nat (q c) - 1 :: uint32_t)" by blast+
    then show "pi \<le> q c" "q c < pi + num" "psci_svc_cpu_data t ! c = off_cpu_data e" by simp_all
    have "unat (of_nat (q c) - 1 :: uint32_t) = q c - 1"
      by (rule unat_dec) (use c(1,2) assms(2,3) in linarith)+
    with c(4) show "cpu_parent_node (psci_cpu_pd_nodes t ! c) = q c - 1" by (rule trans)
  qed
  show ?thesis
    unfolding cpus_ok_def
  proof (intro conjI allI impI)
    fix c assume c: "c < cnt"
    show "pi - 1 \<le> cpu_parent_node (psci_cpu_pd_nodes t ! c)"
      "cpu_parent_node (psci_cpu_pd_nodes t ! c) < pi - 1 + num"
      unfolding par [OF c] using qc(1,2) [OF c] assms(2) by linarith+
    show "psci_svc_cpu_data t ! c = off_cpu_data e" by (rule qc(3) [OF c])
  next
    fix c c' assume c: "c \<le> c' \<and> c' < cnt"
    then have l: "c < cnt" "c' < cnt" by linarith+
    have "q c \<le> q c'" using mono c by simp
    then show "cpu_parent_node (psci_cpu_pd_nodes t ! c) \<le> cpu_parent_node (psci_cpu_pd_nodes t ! c')"
      unfolding par [OF l(1)] par [OF l(2)] by (rule diff_le_mono)
  qed
qed

lemma populate_levels_ok:
  assumes "populate_levels e T level num j ni pi s = (cnt, t)"
    and "levels_ok s d (Suc level) (pi - 1) num" "0 < pi" "if level = 0 then ni = 0 else ni + 1 = pi + num"
    and "topology_fits e T level num ni pi"
    and "length (psci_non_cpu_pd_nodes s) = PSCI_NUM_NON_CPU_PWR_DOMAINS e" "PSCI_NUM_NON_CPU_PWR_DOMAINS e \<le> 65536"
    and "length (psci_cpu_pd_nodes s) = PLATFORM_CORE_COUNT e" "PLATFORM_CORE_COUNT e \<le> 65536"
    and "length (psci_svc_cpu_data s) = PLATFORM_CORE_COUNT e"
  shows "tree_built s t \<and> cnt \<le> PLATFORM_CORE_COUNT e
    \<and> (\<exists>b n. levels_ok t (d + level) 1 b n \<and> cpus_ok e t cnt b n)"
  using assms
proof (induction level arbitrary: num j ni pi s d)
  case 0
  obtain j' ni' pi' nxt' where run: "populate_level e T 0 num j 0 pi 0 s = (j', ni', pi', nxt', t)" and cnt: "cnt = j'"
    using 0(1,4) by (auto simp: split: prod.splits)
  note c = populate_level_counts [OF run]
  have num: "0 < num" "ni' \<le> PLATFORM_CORE_COUNT e" using 0(5) c by simp_all
  then have cnt': "cnt = ni'" "pi' = pi + num" using c cnt by simp_all
  have a: "cpu_alloc e 0 ni' pi pi' s t"
    using num 0(8-10) by (intro populate_level_cpus [OF run]) simp_all
  have "pi - 1 + num \<le> PSCI_NUM_NON_CPU_PWR_DOMAINS e"
    using levels_ok_nodes [OF 0(2)] num(1) 0(6) unfolding nodes_ok_def by (auto dest!: spec [of _ "pi - 1 + num - 1"])
  then have "pi + num \<le> 65537" using 0(3,7) by simp
  then have ok: "cpus_ok e t cnt (pi - 1) num"
    using a cnt' 0(3) by (intro cpu_alloc_ok [of _ _ _ _ s]) simp_all
  have "psci_non_cpu_pd_nodes t = psci_non_cpu_pd_nodes s"
    using a by (simp add: cpu_alloc_def cpus_written_def)
  then have "levels_ok t (d + 0) 1 (pi - 1) num"
    using levels_ok_frame [OF 0(2), of t] by simp
  with ok cpu_alloc_built [OF a] num(2) cnt' show ?case by blast
next
  case (Suc level)
  obtain j' ni' pi' nxt' u where run: "populate_level e T (Suc level) num j ni pi 0 s = (j', ni', pi', nxt', u)"
    and rest: "populate_levels e T level nxt' j' (if level = 0 then 0 else ni') pi' u = (cnt, t)"
    using Suc.prems(1) by (auto split: prod.splits)
  note c = populate_level_counts [OF run]
  have fits: "ni' \<le> length (psci_non_cpu_pd_nodes s)" "0 < num"
    "topology_fits e T level nxt' ni' pi'"
    using Suc.prems(5,6) c by simp_all
  have "length (psci_non_cpu_pd_nodes s) \<le> 65536" using Suc.prems(6,7) by simp
  from populate_level_nodes [OF run _ this fits(1)]
  have a: "level_alloc e (Suc level) ni ni' pi pi' s u" by blast
  have e: "pi' - 1 = ni" "nxt' = ni' - ni" "pi' = pi + num" "0 < pi'" "ni \<le> ni'"
    using c Suc.prems(3,4) by simp_all
  have lv: "levels_ok u (Suc d) (Suc level) ni (ni' - ni)"
    by (rule levels_ok_extend [OF Suc.prems(2) a [unfolded e(3)] Suc.prems(3) _ e(5) fits(1)])
      (use Suc.prems(4,6,7) in simp_all)
  note tb = level_alloc_built [OF a]
  have ih: "tree_built u t \<and> cnt \<le> PLATFORM_CORE_COUNT e
    \<and> (\<exists>b n. levels_ok t (Suc d + level) 1 b n \<and> cpus_ok e t cnt b n)"
  proof (rule Suc.IH [OF rest])
    show "levels_ok u (Suc d) (Suc level) (pi' - 1) nxt'" "0 < pi'"
      using lv e(4) unfolding e(1,2) by simp_all
    show "if level = 0 then (if level = 0 then 0 else ni') = 0 else (if level = 0 then 0 else ni') + 1 = pi' + nxt'"
      using c Suc.prems(4) by simp
    show "topology_fits e T level nxt' (if level = 0 then 0 else ni') pi'"
      using fits(3) by (cases level) simp_all
  qed (use tb Suc.prems(6-10) in \<open>simp_all add: tree_built_def\<close>)
  then show ?case using tree_built_trans [OF tb] by simp
qed

end
