(* ===== verification/Psci_System.thy ===== *)
theory Psci_System
  imports Psci_Main
begin

text \<open>
  The CPUs of the system together. Each CPU is running, in a standby it will return from, powered
  down, or stopped for good; a step is one PSCI call of a running CPU up to the point where it
  waits, the wake-up of a waiting CPU, or a warm boot. Calls are atomic: the section that changes
  power states runs under the locks of every domain it touches. OS-initiated mode is not built in
  (\<open>PSCI_OS_INIT_MODE\<close> is 0 by default).
\<close>

section \<open>States and steps\<close>

datatype cpu_pc =
    Running
  | In_standby nat
  | In_fast_standby psci_power_state_t "plat_local_state_t list"
  | Powered_down
  | Stopped

record psci_system =
  sys_psci :: psci_state
  sys_pc :: "nat \<Rightarrow> cpu_pc"

definition set_pc :: "nat \<Rightarrow> cpu_pc \<Rightarrow> psci_state \<Rightarrow> psci_system \<Rightarrow> psci_system" where
  "set_pc c p s y = y\<lparr>sys_psci := s, sys_pc := (sys_pc y)(c := p)\<rparr>"

text \<open>Where a call that does not wait leaves its CPU.\<close>

fun pc_after :: "'a outcome \<Rightarrow> cpu_pc" where
  "pc_after (Returned _) = Running"
| "pc_after Power_down = Powered_down"
| "pc_after Panicked = Stopped"
| "pc_after Assert_failed = Stopped"

definition suspend_request_of ::
  "psci_env \<Rightarrow> nat \<Rightarrow> psci_state \<Rightarrow> suspend_request \<Rightarrow> bool" where
  "suspend_request_of e c s req \<longleftrightarrow>
     (\<exists>power_state ep ctx. req = cpu_suspend_request e power_state ep ctx)
     \<or> (\<exists>ep ctx. req = system_suspend_request e c ep ctx s)"

inductive psci_step :: "psci_env \<Rightarrow> psci_system \<Rightarrow> psci_system \<Rightarrow> bool" for e where
  step_cpu_on:
    "sys_pc y c = Running \<Longrightarrow> c < psci_plat_core_count (sys_psci y) \<Longrightarrow>
     psci_cpu_on e target ep ctx (sys_psci y) = (r, s') \<Longrightarrow> psci_step e y (set_pc c (pc_after r) s' y)"
| step_cpu_off:
    "sys_pc y c = Running \<Longrightarrow> c < psci_plat_core_count (sys_psci y) \<Longrightarrow>
     psci_cpu_off e c (sys_psci y) = (r, s') \<Longrightarrow> psci_step e y (set_pc c (pc_after r) s' y)"
| step_suspend_reject:
    "sys_pc y c = Running \<Longrightarrow> c < psci_plat_core_count (sys_psci y) \<Longrightarrow>
     suspend_request_of e c (sys_psci y) (Suspend_reject r) \<Longrightarrow>
     psci_step e y (set_pc c (pc_after r) (sys_psci y) y)"
| step_fast_standby:
    "sys_pc y c = Running \<Longrightarrow> c < psci_plat_core_count (sys_psci y) \<Longrightarrow>
     suspend_request_of e c (sys_psci y) (Suspend_standby lvl info) \<Longrightarrow>
     cpu_standby_enter e c lvl info (sys_psci y) = (prev, s') \<Longrightarrow>
     psci_step e y (set_pc c (In_fast_standby info prev) s' y)"
| step_fast_wake:
    "sys_pc y c = In_fast_standby info prev \<Longrightarrow> c < psci_plat_core_count (sys_psci y) \<Longrightarrow>
     psci_step e y (set_pc c Running (cpu_standby_exit e c info prev (sys_psci y)) y)"
| step_suspend:
    "sys_pc y c = Running \<Longrightarrow> c < psci_plat_core_count (sys_psci y) \<Longrightarrow>
     suspend_request_of e c (sys_psci y) (Suspend_start ep lvl info pd) \<Longrightarrow>
     psci_cpu_suspend_enter e c ep lvl info pd (sys_psci y) = (skip_wfi, rc, s') \<Longrightarrow>
     p = (if skip_wfi then Running else if pd \<noteq> 0 then Powered_down else In_standby lvl) \<Longrightarrow>
     psci_step e y (set_pc c p s' y)"
| step_wake:
    "sys_pc y c = In_standby lvl \<Longrightarrow> c < psci_plat_core_count (sys_psci y) \<Longrightarrow>
     psci_suspend_to_standby_finisher e c lvl (sys_psci y) = (r, s') \<Longrightarrow>
     psci_step e y (set_pc c (pc_after r) s' y)"
| step_warmboot:
    "sys_pc y c = Powered_down \<Longrightarrow> c < psci_plat_core_count (sys_psci y) \<Longrightarrow>
     psci_warmboot_entrypoint e c (sys_psci y) = (r, s') \<Longrightarrow>
     psci_step e y (set_pc c (pc_after r) s' y)"

section \<open>Assumptions on the port\<close>

text \<open>
  What the argument uses of the platform: state coordination lets a running CPU win, the hooks
  named in the capabilities are present, \<open>pwr_domain_off_early\<close> and \<open>pwr_domain_on\<close> return the codes
  the porting guide allows, and a state the platform returns has an entry for every power level.
\<close>

definition suspend_states_ok :: "psci_env \<Rightarrow> bool" where
  "suspend_states_ok e \<longleftrightarrow>
     (\<forall>f ps info. validate_power_state (psci_plat_pm_ops e) = Some f \<longrightarrow>
        length (pwr_domain_state (snd (f ps info))) = Suc (PLAT_MAX_PWR_LVL e))
     \<and> (\<forall>info. get_sys_suspend_power_state (psci_plat_pm_ops e) = Some info \<longrightarrow>
        length (pwr_domain_state info) = Suc (PLAT_MAX_PWR_LVL e))"

definition port_ok :: "psci_env \<Rightarrow> bool" where
  "port_ok e \<longleftrightarrow>
     \<not> PSCI_OS_INIT_MODE e \<and> coordinating_platform (plat_get_target_pwr_state e)
     \<and> off_early_ok e \<and> suspend_states_ok e
     \<and> pwr_domain_off (psci_plat_pm_ops e) \<and> pwr_domain_suspend_finish (psci_plat_pm_ops e)
     \<and> pwr_domain_on_finish (psci_plat_pm_ops e)
     \<and> (\<exists>f. pwr_domain_on (psci_plat_pm_ops e) = Some f
            \<and> (\<forall>evs t. f evs t = PSCI_E_SUCCESS \<or> f evs t = PSCI_E_INTERN_FAIL))"

section \<open>The invariant of the system\<close>

fun cpu_ok :: "psci_env \<Rightarrow> psci_state \<Rightarrow> nat \<Rightarrow> cpu_pc \<Rightarrow> bool" where
  "cpu_ok e s c Running =
     (cpu_aff s c = AFF_STATE_ON \<and> cpu_lvl s c = PSCI_INVALID_PWR_LVL e
      \<and> cpu_st s c = PSCI_LOCAL_STATE_RUN
      \<and> (\<forall>k < PLAT_MAX_PWR_LVL e. req_state s k c = PSCI_LOCAL_STATE_RUN))"
| "cpu_ok e s c (In_fast_standby info prev) =
     (cpu_aff s c = AFF_STATE_ON \<and> cpu_lvl s c = PSCI_INVALID_PWR_LVL e
      \<and> (\<forall>k < PLAT_MAX_PWR_LVL e. req_state s k c = PSCI_LOCAL_STATE_RUN))"
| "cpu_ok e s c (In_standby lvl) =
     (cpu_aff s c = AFF_STATE_ON \<and> cpu_lvl s c = PSCI_INVALID_PWR_LVL e \<and> lvl \<le> PLAT_MAX_PWR_LVL e
      \<and> (\<forall>k < PLAT_MAX_PWR_LVL e. lvl \<le> k \<longrightarrow> req_state s k c = PSCI_LOCAL_STATE_RUN))"
| "cpu_ok e s c Powered_down =
     (if cpu_aff s c = AFF_STATE_ON
      then cpu_lvl s c \<le> PLAT_MAX_PWR_LVL e
           \<and> (\<forall>k < PLAT_MAX_PWR_LVL e. cpu_lvl s c \<le> k \<longrightarrow> req_state s k c = PSCI_LOCAL_STATE_RUN)
      else cpu_lvl s c = PSCI_INVALID_PWR_LVL e)"
| "cpu_ok e s c Stopped = True"

definition sys_inv :: "psci_env \<Rightarrow> psci_system \<Rightarrow> bool" where
  "sys_inv e y \<longleftrightarrow>
     psci_inv e (sys_psci y)
     \<and> (\<forall>c < psci_plat_core_count (sys_psci y). cpu_ok e (sys_psci y) c (sys_pc y c))"

text \<open>What the record of another CPU depends on.\<close>

definition same_cpu :: "psci_state \<Rightarrow> psci_state \<Rightarrow> nat \<Rightarrow> bool" where
  "same_cpu s t c \<longleftrightarrow> cpu_aff t c = cpu_aff s c \<and> cpu_lvl t c = cpu_lvl s c \<and> cpu_st t c = cpu_st s c
     \<and> (\<forall>k. req_state t k c = req_state s k c)"

lemma cpu_ok_same: "same_cpu s t c \<Longrightarrow> cpu_ok e t c p = cpu_ok e s c p"
  by (cases p) (simp_all add: same_cpu_def)

lemma sys_inv_set_pc:
  assumes "sys_inv e y" "psci_inv e s'" "psci_shape s' = psci_shape (sys_psci y)"
    and "cpu_ok e s' c p"
    and "\<And>c'. c' \<noteq> c \<Longrightarrow> c' < psci_plat_core_count (sys_psci y) \<Longrightarrow> cpu_ok e s' c' (sys_pc y c')"
  shows "sys_inv e (set_pc c p s' y)"
  using assms core_count_shape [OF assms(3)] by (auto simp: sys_inv_def set_pc_def)

lemma same_cpu_view: "psci_view t = psci_view s \<Longrightarrow> same_cpu s t c"
  by (simp add: same_cpu_def psci_view_def)

lemma same_cpu_trans: "same_cpu s t c \<Longrightarrow> same_cpu t u c \<Longrightarrow> same_cpu s u c"
  by (simp add: same_cpu_def)

lemma same_cpu_aff_write: "aff_write c st s t \<Longrightarrow> c' \<noteq> c \<Longrightarrow> same_cpu s t c'"
  by (simp add: same_cpu_def aff_write_def)

lemma same_cpu_lvl_write: "lvl_write c l s t \<Longrightarrow> c' \<noteq> c \<Longrightarrow> same_cpu s t c'"
  by (simp add: same_cpu_def lvl_write_def)

lemma psci_inv_aff_write: "aff_write c st s t \<Longrightarrow> psci_inv e t = psci_inv e s"
  by (rule psci_inv_aff) (simp_all add: aff_write_def)

lemma psci_inv_lvl_write: "lvl_write c l s t \<Longrightarrow> psci_inv e t = psci_inv e s"
  by (rule psci_inv_aff) (simp_all add: lvl_write_def)

lemma sys_inv_view_step:
  assumes "sys_inv e y" "psci_view s' = psci_view (sys_psci y)" "cpu_ok e s' c p"
  shows "sys_inv e (set_pc c p s' y)"
proof (rule sys_inv_set_pc [OF assms(1) _ psci_viewD(1) [OF assms(2)] assms(3)])
  show "psci_inv e s'" using assms(1) psci_inv_view [OF assms(2)] by (simp add: sys_inv_def)
  fix c' assume "c' \<noteq> c" "c' < psci_plat_core_count (sys_psci y)"
  then show "cpu_ok e s' c' (sys_pc y c')"
    using assms(1) cpu_ok_same [OF same_cpu_view [OF assms(2)]] by (simp add: sys_inv_def)
qed

lemma sys_inv_running:
  "sys_inv e y \<Longrightarrow> c < psci_plat_core_count (sys_psci y) \<Longrightarrow> sys_pc y c = p \<Longrightarrow> cpu_ok e (sys_psci y) c p"
  by (auto simp: sys_inv_def)

text \<open>A call that leaves the power state as it was keeps its CPU running, or stops it.\<close>

lemma sys_inv_no_change:
  assumes "sys_inv e y" "sys_pc y c = Running" "c < psci_plat_core_count (sys_psci y)"
    and "psci_view s' = psci_view (sys_psci y)" "p = Running \<or> p = Stopped"
  shows "sys_inv e (set_pc c p s' y)"
  using sys_inv_view_step [OF assms(1,4)] sys_inv_running [OF assms(1,3,2)]
    cpu_ok_same [OF same_cpu_view [OF assms(4)]] assms(5) by auto

section \<open>Every step keeps the invariant\<close>

lemma inv_cpu_on:
  assumes "port_ok e" "sys_inv e y" "sys_pc y c = Running" "c < psci_plat_core_count (sys_psci y)"
    and "psci_cpu_on e target ep ctx (sys_psci y) = (r, s')"
  shows "sys_inv e (set_pc c (pc_after r) s' y)"
proof -
  let ?s = "sys_psci y"
  obtain rc x where v: "psci_validate_entry_point e ep ctx = (rc, x)"
    by (cases "psci_validate_entry_point e ep ctx")
  show ?thesis
  proof (cases "is_valid_mpidr e target \<and> rc = PSCI_E_SUCCESS")
    case False
    then have "s' = ?s" "\<exists>rc. r = Returned rc"
      using assms(5) v by (auto simp: psci_cpu_on_def split: if_splits)
    then show ?thesis using assms by (auto intro!: sys_inv_no_change)
  next
    case True
    define t where "t = nat (plat_core_pos_by_mpidr e target)"
    have start: "psci_cpu_on_start e target x ?s = (r, s')"
      using assms(5) v True by (simp add: psci_cpu_on_def)
    have wf: "psci_wf e ?s" using assms(2) by (simp add: sys_inv_def psci_inv_def)
    have tl: "t < length (psci_svc_cpu_data ?s)"
      using True wf_lengths [OF wf] by (simp add: is_valid_mpidr_def Let_def t_def)
    obtain f where f: "pwr_domain_on (psci_plat_pm_ops e) = Some f" "pwr_domain_on_finish (psci_plat_pm_ops e)"
      "\<And>evs t. f evs t = PSCI_E_SUCCESS \<or> f evs t = PSCI_E_INTERN_FAIL"
      using assms(1) by (auto simp: port_ok_def)
    show ?thesis
    proof (cases "cpu_aff ?s t = AFF_STATE_OFF")
      case False
      then have "psci_view s' = psci_view ?s" "\<exists>rc. r = Returned rc"
        using psci_cpu_on_start_busy [OF f(1,2), of ?s target x] start by (auto simp: t_def)
      then show ?thesis using assms by (auto intro!: sys_inv_no_change)
    next
      case True
      from psci_cpu_on_start_off [OF f t_def tl True, of x] start
      obtain st where w: "aff_write t st ?s s'" "st = AFF_STATE_ON_PENDING \<or> st = AFF_STATE_OFF"
        and r: "pc_after r = Running"
        by auto
      have ct: "c \<noteq> t" using True sys_inv_running [OF assms(2,4,3)] by auto
      show ?thesis
        unfolding r
      proof (rule sys_inv_set_pc [OF assms(2)])
        show "psci_inv e s'" using assms(2) psci_inv_aff_write [OF w(1)] by (simp add: sys_inv_def)
        show "psci_shape s' = psci_shape ?s" using w(1) by (simp add: aff_write_def)
        show "cpu_ok e s' c Running"
          using sys_inv_running [OF assms(2,4,3)] cpu_ok_same [OF same_cpu_aff_write [OF w(1) ct]] by blast
        fix c' assume c': "c' \<noteq> c" "c' < psci_plat_core_count ?s"
        show "cpu_ok e s' c' (sys_pc y c')"
        proof (cases "c' = t")
          case False
          then show ?thesis
            using cpu_ok_same [OF same_cpu_aff_write [OF w(1) False]] sys_inv_running [OF assms(2) c'(2) refl] by simp
        next
          case t: True
          with sys_inv_running [OF assms(2) c'(2) refl] True w show ?thesis
            by (cases "sys_pc y c'") (auto simp: aff_write_def)
        qed
      qed
    qed
  qed
qed

text \<open>Going down: the tree invariant is kept, other CPUs are untouched, levels above stay requested.\<close>

lemma go_down_running:
  assumes "port_ok e" "sys_inv e y" "sys_pc y c = Running" "c < psci_plat_core_count (sys_psci y)"
    and "psci_view s0 = psci_view (sys_psci y)" "go_down e c L info s0 = (info', t)"
    and "L \<le> PLAT_MAX_PWR_LVL e" "length (pwr_domain_state info) = Suc (PLAT_MAX_PWR_LVL e)"
  shows "psci_inv e t" "psci_shape t = psci_shape (sys_psci y)"
    and "c' \<noteq> c \<Longrightarrow> same_cpu (sys_psci y) t c'"
    and "cpu_aff t c = AFF_STATE_ON" "cpu_lvl t c = PSCI_INVALID_PWR_LVL e"
    and "k < PLAT_MAX_PWR_LVL e \<Longrightarrow> L \<le> k \<Longrightarrow> req_state t k c = PSCI_LOCAL_STATE_RUN"
proof -
  note vw = psci_viewD [OF assms(5)]
  have inv0: "psci_inv e s0" "c < psci_plat_core_count s0"
    using assms(2,4) psci_inv_view [OF assms(5)] core_count_shape [OF vw(1)] by (simp_all add: sys_inv_def)
  have co: "coordinating_platform (plat_get_target_pwr_state e)" using assms(1) by (simp add: port_ok_def)
  have wf0: "psci_wf e s0" using inv0(1) by (simp add: psci_inv_def)
  note v = go_down_views [OF assms(6) wf0 inv0(2) assms(7,8)]
  note run = sys_inv_running [OF assms(2,4,3)]
  show "psci_inv e t" by (rule go_down_inv [OF assms(6) inv0 assms(7,8) co])
  show "psci_shape t = psci_shape (sys_psci y)" using v(1) vw(1) by simp
  show "c' \<noteq> c \<Longrightarrow> same_cpu (sys_psci y) t c'"
    using v(2-4,6) vw by (simp add: same_cpu_def)
  show "cpu_aff t c = AFF_STATE_ON" "cpu_lvl t c = PSCI_INVALID_PWR_LVL e"
    using v(2,3) vw run by simp_all
  show "k < PLAT_MAX_PWR_LVL e \<Longrightarrow> L \<le> k \<Longrightarrow> req_state t k c = PSCI_LOCAL_STATE_RUN"
    using v(6) [of k c] vw run by simp
qed

lemma inv_down:
  assumes "port_ok e" "sys_inv e y" "sys_pc y c = Running" "c < psci_plat_core_count (sys_psci y)"
    and "psci_view s0 = psci_view (sys_psci y)" "go_down e c L info s0 = (info', t)"
    and "L \<le> PLAT_MAX_PWR_LVL e" "length (pwr_domain_state info) = Suc (PLAT_MAX_PWR_LVL e)"
    and "psci_inv e s' = psci_inv e t" "psci_shape s' = psci_shape t"
    and "\<And>c'. c' \<noteq> c \<Longrightarrow> same_cpu t s' c'" "cpu_ok e s' c p"
  shows "sys_inv e (set_pc c p s' y)"
proof (rule sys_inv_set_pc [OF assms(2)])
  note d = go_down_running [OF assms(1-8)]
  show "psci_inv e s'" using d(1) assms(9) by simp
  show "psci_shape s' = psci_shape (sys_psci y)" using d(2) assms(10) by simp
  show "cpu_ok e s' c p" by (rule assms(12))
  fix c' assume "c' \<noteq> c" "c' < psci_plat_core_count (sys_psci y)"
  then show "cpu_ok e s' c' (sys_pc y c')"
    using cpu_ok_same [OF same_cpu_trans [OF d(3) assms(11)]] sys_inv_running [OF assms(2) _ refl] by blast
qed

lemma inv_cpu_off:
  assumes "port_ok e" "sys_inv e y" "sys_pc y c = Running" "c < psci_plat_core_count (sys_psci y)"
    and "psci_cpu_off e c (sys_psci y) = (r, s')"
  shows "sys_inv e (set_pc c (pc_after r) s' y)"
proof -
  let ?s = "sys_psci y" and ?L = "PLAT_MAX_PWR_LVL e"
  obtain r0 s0' where off: "psci_do_cpu_off e c ?L ?s = (r0, s0')"
    by (cases "psci_do_cpu_off e c ?L ?s")
  have wf: "psci_wf e ?s" using assms(2) by (simp add: sys_inv_def psci_inv_def)
  have hooks: "pwr_domain_off (psci_plat_pm_ops e)" "off_early_ok e"
    using assms(1) by (simp_all add: port_ok_def)
  from psci_do_cpu_off_cases [OF off hooks svc_length_wf [OF wf assms(4)] wf assms(4) order_refl]
  show ?thesis
  proof
    assume A: "(\<exists>rc. r0 = Returned rc \<and> rc \<noteq> PSCI_E_SUCCESS) \<and> psci_view s0' = psci_view ?s"
    then have "s' = s0'" "pc_after r = Running \<or> pc_after r = Stopped"
      using assms(5) off by (auto simp: psci_cpu_off_def split: if_splits)
    then show ?thesis using assms A by (auto intro!: sys_inv_no_change)
  next
    assume "r0 = Power_down \<and> (\<exists>s0 info' t. psci_view s0 = psci_view ?s
            \<and> go_down e c ?L (psci_set_power_off_state e) s0 = (info', t) \<and> aff_write c AFF_STATE_OFF t s0')"
    then obtain s0 info' t where r0: "r0 = Power_down" and v: "psci_view s0 = psci_view ?s"
      and d: "go_down e c ?L (psci_set_power_off_state e) s0 = (info', t)" and w: "aff_write c AFF_STATE_OFF t s0'"
      by blast
    have r: "s' = s0'" "pc_after r = Powered_down"
      using assms(5) off r0 by (auto simp: psci_cpu_off_def)
    note g = go_down_running [OF assms(1-4) v d order_refl off_state_length]
    show ?thesis
      unfolding r
      by (rule inv_down [OF assms(1-4) v d order_refl off_state_length psci_inv_aff_write [OF w] _
            same_cpu_aff_write [OF w]])
        (use w g in \<open>auto simp: aff_write_def\<close>)
  qed
qed

text \<open>The level and state of a request that the front end passes on.\<close>

lemma find_down_le: "find_down P n = Some i \<Longrightarrow> i \<le> n"
  by (induction n) (auto split: if_splits)

lemma find_target_suspend_lvl_le:
  "psci_find_target_suspend_lvl e info \<noteq> PSCI_INVALID_PWR_LVL e \<Longrightarrow>
     psci_find_target_suspend_lvl e info \<le> PLAT_MAX_PWR_LVL e"
  by (auto simp: psci_find_target_suspend_lvl_def dest: find_down_le split: option.splits)

lemma run_state_info_length [simp]: "length (pwr_domain_state (run_state_info e)) = Suc (PLAT_MAX_PWR_LVL e)"
  by (simp add: run_state_info_def)

lemma validate_power_state_length:
  assumes "suspend_states_ok e" "psci_validate_power_state e ps (run_state_info e) = Returned (rc, info)"
  shows "length (pwr_domain_state info) = Suc (PLAT_MAX_PWR_LVL e)"
proof (cases "psci_check_power_state e ps = 0")
  case True
  with assms(2) obtain f where "validate_power_state (psci_plat_pm_ops e) = Some f" "f ps (run_state_info e) = (rc, info)"
    by (auto simp: psci_validate_power_state_def split: option.splits)
  with assms(1) show ?thesis unfolding suspend_states_ok_def by (metis snd_conv)
next
  case False
  with assms(2) show ?thesis by (auto simp: psci_validate_power_state_def)
qed

lemma suspend_request_start:
  assumes "suspend_request_of e c s (Suspend_start ep lvl info pd)" "suspend_states_ok e"
  shows "lvl \<le> PLAT_MAX_PWR_LVL e" "length (pwr_domain_state info) = Suc (PLAT_MAX_PWR_LVL e)"
proof -
  have A: "lvl \<le> PLAT_MAX_PWR_LVL e \<and> length (pwr_domain_state info) = Suc (PLAT_MAX_PWR_LVL e)"
    if "Suspend_start ep lvl info pd = cpu_suspend_request e ps x ctx" for ps x ctx
    using that validate_power_state_length [OF assms(2), of ps] find_target_suspend_lvl_le
    by (auto simp: cpu_suspend_request_def Let_def split: outcome.splits if_splits prod.splits)
  have B: "lvl \<le> PLAT_MAX_PWR_LVL e \<and> length (pwr_domain_state info) = Suc (PLAT_MAX_PWR_LVL e)"
    if "Suspend_start ep lvl info pd = system_suspend_request e c x ctx s" for x ctx
    using that assms(2)
    by (auto simp: system_suspend_request_def suspend_states_ok_def psci_query_sys_suspend_pwrstate_def
        split: outcome.splits if_splits prod.splits option.splits)
  show "lvl \<le> PLAT_MAX_PWR_LVL e" "length (pwr_domain_state info) = Suc (PLAT_MAX_PWR_LVL e)"
    using assms(1) A B by (auto simp: suspend_request_of_def)
qed

lemma inv_suspend:
  assumes "port_ok e" "sys_inv e y" "sys_pc y c = Running" "c < psci_plat_core_count (sys_psci y)"
    and "suspend_request_of e c (sys_psci y) (Suspend_start ep lvl info pd)"
    and "psci_cpu_suspend_enter e c ep lvl info pd (sys_psci y) = (skip_wfi, rc, s')"
    and "p = (if skip_wfi then Running else if pd \<noteq> 0 then Powered_down else In_standby lvl)"
  shows "sys_inv e (set_pc c p s' y)"
proof -
  let ?s = "sys_psci y"
  have wf: "psci_wf e ?s" using assms(2) by (simp add: sys_inv_def psci_inv_def)
  have os: "\<not> PSCI_OS_INIT_MODE e" "suspend_states_ok e" using assms(1) by (simp_all add: port_ok_def)
  note li = suspend_request_start [OF assms(5) os(2)]
  note cases = suspend_enter_cases [OF assms(6) os(1) wf assms(4) li]
  show ?thesis
  proof (cases skip_wfi)
    case True
    with cases assms show ?thesis by (auto intro!: sys_inv_no_change)
  next
    case False
    with cases obtain s0 info' t where v: "psci_view s0 = psci_view ?s"
      and d: "go_down e c lvl info s0 = (info', t)"
      and w: "if pd \<noteq> 0 then lvl_write c lvl t s' else psci_view s' = psci_view t"
      by blast
    note g = go_down_running [OF assms(1-4) v d li]
    show ?thesis
    proof (cases "pd = 0")
      case True
      then have w': "psci_view s' = psci_view t" using w by simp
      have "cpu_ok e s' c (In_standby lvl)"
        using g li psci_viewD [OF w'] by simp
      then show ?thesis
        using False True assms(7) psci_inv_view [OF w'] psci_viewD(1) [OF w'] same_cpu_view [OF w']
        by (auto intro!: inv_down [OF assms(1-4) v d li])
    next
      case pd: False
      then have w': "lvl_write c lvl t s'" using w by simp
      have "cpu_ok e s' c Powered_down"
        using g li lvl_write_simps [OF w'] by simp
      then show ?thesis
        using False pd assms(7) psci_inv_lvl_write [OF w'] lvl_write_simps(1) [OF w'] same_cpu_lvl_write [OF w']
        by (auto intro!: inv_down [OF assms(1-4) v d li])
    qed
  qed
qed

lemma inv_up:
  assumes "sys_inv e y" "c < psci_plat_core_count (sys_psci y)" "psci_inv e s0"
    and "psci_shape s0 = psci_shape (sys_psci y)" "\<And>c'. c' \<noteq> c \<Longrightarrow> same_cpu (sys_psci y) s0 c'"
    and "L \<le> PLAT_MAX_PWR_LVL e" "cpu_lvl s0 c = PSCI_INVALID_PWR_LVL e"
    and "\<And>k. k < PLAT_MAX_PWR_LVL e \<Longrightarrow> L \<le> k \<Longrightarrow> req_state s0 k c = PSCI_LOCAL_STATE_RUN"
    and "psci_view s' = psci_view (psci_set_pwr_domains_to_run e c L s0)"
  shows "sys_inv e (set_pc c Running s' y)"
proof (rule sys_inv_set_pc [OF assms(1)])
  let ?t = "psci_set_pwr_domains_to_run e c L s0"
  note w = psci_viewD [OF assms(9)]
  have c0: "c < psci_plat_core_count s0" using assms(2) core_count_shape [OF assms(4)] by simp
  have wf: "psci_wf e s0" using assms(3) by (simp add: psci_inv_def)
  note v = set_to_run_views [OF wf c0 assms(6) refl]
  show "psci_inv e s'" using set_to_run_inv [OF assms(3) c0 assms(6)] psci_inv_view [OF assms(9)] by simp
  show "psci_shape s' = psci_shape (sys_psci y)" using w(1) v(1) assms(4) by simp
  show "cpu_ok e s' c Running"
    using w v(2-4) v(6) [OF c0] assms(7,8) by (auto simp: not_less)
  fix c' assume c': "c' \<noteq> c" "c' < psci_plat_core_count (sys_psci y)"
  have "c' < psci_plat_core_count s0" using c'(2) core_count_shape [OF assms(4)] by simp
  then have "cpu_ok e s' c' p = cpu_ok e s0 c' p" for p
    using w v(2-4) v(6) c'(1) by (cases p) auto
  then show "cpu_ok e s' c' (sys_pc y c')"
    using cpu_ok_same [OF assms(5) [OF c'(1)]] sys_inv_running [OF assms(1) c'(2) refl] by simp
qed

lemma inv_wake:
  assumes "port_ok e" "sys_inv e y" "sys_pc y c = In_standby lvl" "c < psci_plat_core_count (sys_psci y)"
    and "psci_suspend_to_standby_finisher e c lvl (sys_psci y) = (r, s')"
  shows "sys_inv e (set_pc c (pc_after r) s' y)"
proof -
  have "pwr_domain_suspend_finish (psci_plat_pm_ops e)" using assms(1) by (simp add: port_ok_def)
  from standby_finisher_view [OF assms(5) this] obtain s0 where r: "r = Returned ()"
    and v: "psci_view s0 = psci_view (sys_psci y)" "psci_view s' = psci_view (psci_set_pwr_domains_to_run e c lvl s0)"
    by blast
  have ok: "cpu_ok e s0 c (In_standby lvl)"
    using sys_inv_running [OF assms(2,4,3)] cpu_ok_same [OF same_cpu_view [OF v(1)]] by blast
  have "psci_inv e s0" using assms(2) psci_inv_view [OF v(1)] by (simp add: sys_inv_def)
  then show ?thesis
    using ok unfolding r pc_after.simps
    by (intro inv_up [OF assms(2,4) _ psci_viewD(1) [OF v(1)] same_cpu_view [OF v(1)] _ _ _ v(2)]) auto
qed

lemma inv_warmboot:
  assumes "sys_inv e y" "sys_pc y c = Powered_down" "c < psci_plat_core_count (sys_psci y)"
    and "psci_warmboot_entrypoint e c (sys_psci y) = (Returned (), s')"
  shows "sys_inv e (set_pc c Running s' y)"
proof -
  let ?s = "sys_psci y" and ?L = "get_power_on_target_pwrlvl e c (sys_psci y)"
  have wf: "psci_wf e ?s" using assms(1) by (simp add: sys_inv_def psci_inv_def)
  note ok = sys_inv_running [OF assms(1,3,2)]
  from warmboot_view [OF assms(4) svc_length_wf [OF wf assms(3)]] obtain s0 where
    on: "cpu_aff ?s c \<noteq> AFF_STATE_OFF" and
    w: "if cpu_aff ?s c = AFF_STATE_ON_PENDING then psci_view s0 = psci_view ?s
        else lvl_write c (PSCI_INVALID_PWR_LVL e) ?s s0" and
    v: "psci_view s' = psci_view (psci_set_pwr_domains_to_run e c ?L s0)"
    by blast
  have L: "?L = (if cpu_aff ?s c = AFF_STATE_ON then cpu_lvl ?s c else PLAT_MAX_PWR_LVL e)"
    "?L \<le> PLAT_MAX_PWR_LVL e"
    using ok by (auto simp: get_power_on_target_pwrlvl_def Let_def split: if_splits)
  show ?thesis
  proof (cases "cpu_aff ?s c = AFF_STATE_ON_PENDING")
    case True
    then have w': "psci_view s0 = psci_view ?s" using w by simp
    have "psci_inv e s0" using assms(1) psci_inv_view [OF w'] by (simp add: sys_inv_def)
    then show ?thesis
      using L ok True psci_viewD [OF w']
      by (intro inv_up [OF assms(1,3) _ psci_viewD(1) [OF w'] same_cpu_view [OF w'] _ _ _ v]) auto
  next
    case False
    then have w': "lvl_write c (PSCI_INVALID_PWR_LVL e) ?s s0" using w by simp
    have on': "cpu_aff ?s c = AFF_STATE_ON" using on False by (cases "cpu_aff ?s c") auto
    have "psci_inv e s0" using assms(1) psci_inv_lvl_write [OF w'] by (simp add: sys_inv_def)
    then show ?thesis
      using L ok on' lvl_write_simps [OF w']
      by (intro inv_up [OF assms(1,3) _ lvl_write_simps(1) [OF w'] same_cpu_lvl_write [OF w'] _ _ _ v]) auto
  qed
qed

lemma on_finish_stops: "psci_cpu_on_finish e c info s = (r, s') \<Longrightarrow> r = Returned () \<or> r = Assert_failed"
  by (auto simp: psci_cpu_on_finish_def Let_def split: if_splits)

lemma suspend_finish_stops:
  "psci_cpu_suspend_finish e c info s = (r, s') \<Longrightarrow>
     r = Returned () \<or> r = Assert_failed \<and> psci_view s' = psci_view s"
  by (auto simp: psci_cpu_suspend_finish_def Let_def split: if_splits)

lemma warmboot_stops:
  assumes "psci_warmboot_entrypoint e c s = (r, s')" "r \<noteq> Returned ()"
  shows "pc_after r = Stopped" "psci_view s' = psci_view s"
proof -
  define L where "L = get_power_on_target_pwrlvl e c s"
  define s1 where "s1 = psci_acquire_pwr_domain_locks L (psci_get_parent_pwr_domain_nodes c L s) s"
  define info where "info = psci_get_target_local_pwr_states e c L (run_state_info e) s1"
  define s2 where "s2 = log_event_if (ENABLE_PSCI_STAT e) Stat_accounting_stop s1"
  have v2: "psci_view s2 = psci_view s" by (simp add: s2_def s1_def)
  define fin where "fin = (if cpu_aff s2 c = AFF_STATE_ON_PENDING then psci_cpu_on_finish e c info s2
                           else psci_cpu_suspend_finish e c info s2)"
  have "pc_after r = Stopped \<and> psci_view s' = psci_view s"
  proof (cases "cpu_aff s c = AFF_STATE_OFF")
    case True
    then show ?thesis using assms(1) by (auto simp: psci_warmboot_entrypoint_def)
  next
    case False
    obtain r0 s0 where f: "fin = (r0, s0)" by (cases fin)
    have "psci_warmboot_entrypoint e c s =
       (let (r, s0) = fin in if r \<noteq> Returned () then (r, s0)
        else (Returned (), psci_release_pwr_domain_locks L (psci_get_parent_pwr_domain_nodes c L s)
               (let s = psci_set_pwr_domains_to_run e c L s0 in
                if ENABLE_PSCI_STAT e then psci_stats_update_pwr_up e c L info s else s)))"
      using False unfolding fin_def s2_def info_def s1_def L_def
      by (simp add: psci_warmboot_entrypoint_def Let_def split: prod.splits)
    with assms f have rs: "r = r0" "s' = s0" by (auto split: if_splits)
    show ?thesis
    proof (cases "cpu_aff s2 c = AFF_STATE_ON_PENDING")
      case True
      then have on: "psci_cpu_on_finish e c info s2 = (r, s')" using f rs by (simp add: fin_def)
      show ?thesis using on_finish_stops [OF on] psci_cpu_on_finish_view [OF on] v2 assms(2) by auto
    next
      case False
      then have su: "psci_cpu_suspend_finish e c info s2 = (r, s')" using f rs by (simp add: fin_def)
      show ?thesis using suspend_finish_stops [OF su] v2 assms(2) by auto
    qed
  qed
  then show "pc_after r = Stopped" "psci_view s' = psci_view s" by simp_all
qed

text \<open>The fast path writes only the state of the CPU itself.\<close>

lemma standby_enter_view:
  assumes "\<not> PSCI_OS_INIT_MODE e" "cpu_standby_enter e c lvl info s = (prev, s')"
  shows "psci_view s' = psci_view (psci_set_cpu_local_state c (pwr_domain_state info ! 0) s)"
  using assms by (auto simp: cpu_standby_enter_def Let_def)

lemma standby_exit_view:
  assumes "\<not> PSCI_OS_INIT_MODE e"
  shows "psci_view (cpu_standby_exit e c info prev s) =
    psci_view (psci_set_cpu_local_state c PSCI_LOCAL_STATE_RUN s)"
  using assms by (simp add: cpu_standby_exit_def Let_def)

lemma inv_local_state:
  assumes "sys_inv e y" "c < psci_plat_core_count (sys_psci y)"
    and "psci_view s' = psci_view (psci_set_cpu_local_state c st (sys_psci y))" "cpu_ok e s' c p"
  shows "sys_inv e (set_pc c p s' y)"
proof (rule sys_inv_set_pc [OF assms(1)])
  have "psci_wf e (sys_psci y)" using assms(1) by (simp add: sys_inv_def psci_inv_def)
  from cpu_views_setters [OF svc_length_wf [OF this assms(2)]]
  have v: "cpu_aff s' = cpu_aff (sys_psci y)" "cpu_lvl s' = cpu_lvl (sys_psci y)"
    "cpu_st s' = (cpu_st (sys_psci y))(c := st)" "node_state s' = node_state (sys_psci y)"
    "req_state s' = req_state (sys_psci y)" "psci_shape s' = psci_shape (sys_psci y)"
    using psci_viewD [OF assms(3)] by (auto simp: fun_eq_iff)
  show "psci_inv e s'" using assms(1) psci_inv_aff [OF v(6,4,5)] by (simp add: sys_inv_def)
  show "psci_shape s' = psci_shape (sys_psci y)" by (rule v(6))
  show "cpu_ok e s' c p" by (rule assms(4))
  fix c' assume c': "c' \<noteq> c" "c' < psci_plat_core_count (sys_psci y)"
  then have "same_cpu (sys_psci y) s' c'" using v by (simp add: same_cpu_def)
  then show "cpu_ok e s' c' (sys_pc y c')"
    using cpu_ok_same sys_inv_running [OF assms(1) c'(2) refl] by blast
qed

lemma local_state_views:
  assumes "sys_inv e y" "c < psci_plat_core_count (sys_psci y)"
    and "psci_view s' = psci_view (psci_set_cpu_local_state c st (sys_psci y))"
  shows "cpu_aff s' = cpu_aff (sys_psci y)" "cpu_lvl s' = cpu_lvl (sys_psci y)"
    "cpu_st s' c = st" "req_state s' = req_state (sys_psci y)"
proof -
  have "psci_wf e (sys_psci y)" using assms(1) by (simp add: sys_inv_def psci_inv_def)
  from cpu_views_setters [OF svc_length_wf [OF this assms(2)]] psci_viewD [OF assms(3)]
  show "cpu_aff s' = cpu_aff (sys_psci y)" "cpu_lvl s' = cpu_lvl (sys_psci y)"
    "cpu_st s' c = st" "req_state s' = req_state (sys_psci y)"
    by (auto simp: fun_eq_iff)
qed

lemma cpu_suspend_request_reject:
  "cpu_suspend_request e ps x ctx = Suspend_reject r \<Longrightarrow> r \<noteq> Power_down"
  by (simp add: cpu_suspend_request_def psci_validate_power_state_def Let_def
      split: if_splits prod.splits option.splits) auto

lemma system_suspend_request_reject:
  "system_suspend_request e c x ctx s = Suspend_reject r \<Longrightarrow> r \<noteq> Power_down"
  by (simp add: system_suspend_request_def psci_query_sys_suspend_pwrstate_def Let_def
      split: if_splits prod.splits option.splits) auto

lemma suspend_request_reject:
  assumes "suspend_request_of e c s (Suspend_reject r)"
  shows "pc_after r = Running \<or> pc_after r = Stopped"
proof -
  have "r \<noteq> Power_down"
    using assms cpu_suspend_request_reject system_suspend_request_reject
    unfolding suspend_request_of_def by metis
  then show ?thesis by (cases r) auto
qed

theorem psci_step_inv:
  assumes "psci_step e y y'" "port_ok e" "sys_inv e y"
  shows "sys_inv e y'"
  using assms(1)
proof cases
  case (step_cpu_on c target ep ctx r s')
  then show ?thesis using assms inv_cpu_on by blast
next
  case (step_cpu_off c r s')
  then show ?thesis using assms inv_cpu_off by blast
next
  case (step_suspend_reject c r)
  then show ?thesis
    using assms(3) suspend_request_reject by (auto intro!: sys_inv_no_change)
next
  case (step_fast_standby c lvl info prev s')
  have os: "\<not> PSCI_OS_INIT_MODE e" using assms(2) by (simp add: port_ok_def)
  note v = standby_enter_view [OF os step_fast_standby(5)]
  show ?thesis
    unfolding step_fast_standby(1)
    by (rule inv_local_state [OF assms(3) step_fast_standby(3) v])
      (use sys_inv_running [OF assms(3) step_fast_standby(3,2)]
         local_state_views [OF assms(3) step_fast_standby(3) v] in simp)
next
  case (step_fast_wake c info prev)
  have os: "\<not> PSCI_OS_INIT_MODE e" using assms(2) by (simp add: port_ok_def)
  note v = standby_exit_view [OF os, of c info prev "sys_psci y"]
  show ?thesis
    unfolding step_fast_wake(1)
    by (rule inv_local_state [OF assms(3) step_fast_wake(3) v])
      (use sys_inv_running [OF assms(3) step_fast_wake(3,2)]
         local_state_views [OF assms(3) step_fast_wake(3) v] in simp)
next
  case (step_suspend c ep lvl info pd skip_wfi rc s' p)
  then show ?thesis using assms inv_suspend by blast
next
  case (step_wake c lvl r s')
  then show ?thesis using assms inv_wake by blast
next
  case (step_warmboot c r s')
  show ?thesis
  proof (cases "r = Returned ()")
    case True
    then show ?thesis using step_warmboot assms(3) inv_warmboot by auto
  next
    case False
    note st = warmboot_stops [OF step_warmboot(4) False]
    show ?thesis
      unfolding step_warmboot(1) st(1)
      by (rule sys_inv_view_step [OF assms(3) st(2)]) simp
  qed
qed

end
