(* ===== verification/Psci_Limits.thy ===== *)
theory Psci_Limits
  imports Psci_Boot Psci_System
begin

text \<open>
  The second half of cold boot. The levels built by \<open>populate_power_domain_tree\<close> give every CPU an
  ancestor at each level; \<open>psci_update_pwrlvl_limits\<close> records in each node the contiguous range of
  CPUs below it; requests are initialised and the boot CPU's domains are set to run. The state
  \<open>psci_setup\<close> leaves satisfies the invariant of the system.
\<close>

section \<open>Ancestors in the tree that was built\<close>

lemma levels_ok_ancestors:
  assumes "levels_ok s d 1 b n" "cpus_ok e s cnt b n" "k \<le> d"
  shows "\<exists>b' n'. levels_ok s (d - k) (Suc k) b' n'
      \<and> (\<forall>c < cnt. b' \<le> psci_ancestor s c k \<and> psci_ancestor s c k < b' + n'
           \<and> (\<forall>j. k = Suc j \<longrightarrow> psci_ancestor s c k < psci_ancestor s c j))
      \<and> (\<forall>c c'. c \<le> c' \<and> c' < cnt \<longrightarrow> psci_ancestor s c k \<le> psci_ancestor s c' k)"
  using assms(3)
proof (induction k)
  case 0
  show ?case
    by (rule exI [of _ b], rule exI [of _ n]) (use assms(1,2) in \<open>auto simp: cpus_ok_def\<close>)
next
  case (Suc k)
  then obtain b1 n1 where lv: "levels_ok s (d - k) (Suc k) b1 n1"
    and r: "\<And>c. c < cnt \<Longrightarrow> b1 \<le> psci_ancestor s c k \<and> psci_ancestor s c k < b1 + n1"
    and mono: "\<And>c c'. c \<le> c' \<and> c' < cnt \<Longrightarrow> psci_ancestor s c k \<le> psci_ancestor s c' k"
    by force
  have "d - k = Suc (d - Suc k)" using Suc.prems by simp
  with lv obtain b2 n2 where below: "b2 + n2 \<le> b1" and lv2: "levels_ok s (d - Suc k) (Suc (Suc k)) b2 n2"
    and p: "\<forall>i. b1 \<le> i \<and> i < b1 + n1 \<longrightarrow> b2 \<le> parent_of (psci_non_cpu_pd_nodes s ! i)
                 \<and> parent_of (psci_non_cpu_pd_nodes s ! i) < b2 + n2"
    and pm: "\<forall>i i'. b1 \<le> i \<and> i \<le> i' \<and> i' < b1 + n1 \<longrightarrow>
                 parent_of (psci_non_cpu_pd_nodes s ! i) \<le> parent_of (psci_non_cpu_pd_nodes s ! i')"
    by auto
  have "b2 \<le> psci_ancestor s c (Suc k) \<and> psci_ancestor s c (Suc k) < b2 + n2
      \<and> psci_ancestor s c (Suc k) < psci_ancestor s c k" if "c < cnt" for c
    using p r [OF that] below by fastforce
  moreover have "psci_ancestor s c (Suc k) \<le> psci_ancestor s c' (Suc k)" if "c \<le> c' \<and> c' < cnt" for c c'
    using pm r [of c] r [of c'] mono [OF that] that by simp
  ultimately show ?case using lv2 by (rule_tac exI [of _ b2], rule_tac exI [of _ n2]) blast
qed

text \<open>What the construction guarantees of the ancestors of the first \<open>cnt\<close> CPUs.\<close>

definition ancestors_built :: "psci_state \<Rightarrow> nat \<Rightarrow> nat \<Rightarrow> bool" where
  "ancestors_built s M cnt \<longleftrightarrow>
     (\<forall>k < M. \<forall>c < cnt.
        psci_ancestor s c k < length (psci_non_cpu_pd_nodes s)
        \<and> nd_level (psci_non_cpu_pd_nodes s ! psci_ancestor s c k) = Suc k
        \<and> lock_index (psci_non_cpu_pd_nodes s ! psci_ancestor s c k) = psci_ancestor s c k
        \<and> (Suc k < M \<longrightarrow> psci_ancestor s c (Suc k) < psci_ancestor s c k)
        \<and> (\<forall>c' < c. psci_ancestor s c' k \<le> psci_ancestor s c k))"

lemma levels_ok_built:
  assumes "levels_ok s d 1 b n" "cpus_ok e s cnt b n"
  shows "ancestors_built s (Suc d) cnt"
  unfolding ancestors_built_def
proof (intro allI impI)
  fix k c assume k: "k < Suc d" and c: "c < cnt"
  then have "k \<le> d" by simp
  from levels_ok_ancestors [OF assms this] obtain b' n' where lv: "levels_ok s (d - k) (Suc k) b' n'"
    and r: "\<And>c. c < cnt \<Longrightarrow> b' \<le> psci_ancestor s c k \<and> psci_ancestor s c k < b' + n'"
    and mono: "\<And>c c'. c \<le> c' \<and> c' < cnt \<Longrightarrow> psci_ancestor s c k \<le> psci_ancestor s c' k"
    by force
  have nx: "psci_ancestor s c (Suc k) < psci_ancestor s c k" if "Suc k < Suc d"
    using levels_ok_ancestors [OF assms, of "Suc k"] that c by auto
  have nodes: "psci_ancestor s c k < length (psci_non_cpu_pd_nodes s)
      \<and> nd_level (psci_non_cpu_pd_nodes s ! psci_ancestor s c k) = Suc k
      \<and> lock_index (psci_non_cpu_pd_nodes s ! psci_ancestor s c k) = psci_ancestor s c k"
    using levels_ok_nodes [OF lv] r [OF c] by (simp add: nodes_ok_def)
  have "psci_ancestor s c' k \<le> psci_ancestor s c k" if "c' < c" for c'
    using mono [of c' c] that c by simp
  with nodes nx show "psci_ancestor s c k < length (psci_non_cpu_pd_nodes s)
        \<and> nd_level (psci_non_cpu_pd_nodes s ! psci_ancestor s c k) = Suc k
        \<and> lock_index (psci_non_cpu_pd_nodes s ! psci_ancestor s c k) = psci_ancestor s c k
        \<and> (Suc k < Suc d \<longrightarrow> psci_ancestor s c (Suc k) < psci_ancestor s c k)
        \<and> (\<forall>c' < c. psci_ancestor s c' k \<le> psci_ancestor s c k)"
    by blast
qed

section \<open>The whole tree\<close>

lemma populate_tree_ok:
  assumes "populate_power_domain_tree e T s = (cnt, t)" "0 < PLAT_MAX_PWR_LVL e"
    and "topology_fits e T (PLAT_MAX_PWR_LVL e) 1 0 0"
    and "length (psci_non_cpu_pd_nodes s) = PSCI_NUM_NON_CPU_PWR_DOMAINS e" "PSCI_NUM_NON_CPU_PWR_DOMAINS e \<le> 65536"
    and "length (psci_cpu_pd_nodes s) = PLATFORM_CORE_COUNT e" "PLATFORM_CORE_COUNT e \<le> 65536"
    and "length (psci_svc_cpu_data s) = PLATFORM_CORE_COUNT e"
  shows "tree_built s t" "cnt \<le> PLATFORM_CORE_COUNT e" "ancestors_built t (PLAT_MAX_PWR_LVL e) cnt"
    and "c < cnt \<Longrightarrow> psci_svc_cpu_data t ! c = off_cpu_data e"
proof -
  obtain l where l: "PLAT_MAX_PWR_LVL e = Suc l" using assms(2) by (cases "PLAT_MAX_PWR_LVL e") auto
  obtain j' ni' pi' nxt' u where run: "populate_level e T (Suc l) 1 0 0 0 0 s = (j', ni', pi', nxt', u)"
    by (cases "populate_level e T (Suc l) 1 0 0 0 0 s")
  have rest: "populate_levels e T l nxt' j' (if l = 0 then 0 else ni') pi' u = (cnt, t)"
    using assms(1) run by (simp add: populate_power_domain_tree_def l del: populate_level.simps)
  note c = populate_level_counts [OF run]
  have fits: "ni' \<le> length (psci_non_cpu_pd_nodes s)" "topology_fits e T l nxt' ni' pi'"
    using assms(3,4) c by (simp_all add: l)
  have "length (psci_non_cpu_pd_nodes s) \<le> 65536" using assms(4,5) by simp
  from populate_level_nodes [OF run _ this fits(1)]
  have a: "level_alloc e (Suc l) 0 ni' 0 pi' s u" by blast
  note tb = level_alloc_built [OF a]
  have lv: "levels_ok u 0 (Suc l) (pi' - 1) nxt'"
  proof -
    have "i < length (psci_non_cpu_pd_nodes u) \<and> nd_level (psci_non_cpu_pd_nodes u ! i) = Suc l
        \<and> lock_index (psci_non_cpu_pd_nodes u ! i) = i" if "i < ni'" for i
    proof -
      from a that obtain p where "psci_non_cpu_pd_nodes u ! i = init_node e p (Suc l) i (psci_non_cpu_pd_nodes s ! i)"
        unfolding level_alloc_def by blast
      then show ?thesis using that fits(1) tb by (simp add: init_node_def tree_built_def)
    qed
    then show ?thesis using c by (simp add: nodes_ok_def)
  qed
  have ok: "tree_built u t \<and> cnt \<le> PLATFORM_CORE_COUNT e
    \<and> (\<exists>b n. levels_ok t (0 + l) 1 b n \<and> cpus_ok e t cnt b n)"
  proof (rule populate_levels_ok [OF rest lv])
    show "topology_fits e T l nxt' (if l = 0 then 0 else ni') pi'"
      using fits(2) by (cases l) simp_all
  qed (use c tb assms(4-8) in \<open>simp_all add: tree_built_def\<close>)
  then show "tree_built s t" "cnt \<le> PLATFORM_CORE_COUNT e" using tree_built_trans [OF tb] by blast+
  from ok obtain b n where bn: "levels_ok t l 1 b n" "cpus_ok e t cnt b n" by auto
  show "ancestors_built t (PLAT_MAX_PWR_LVL e) cnt" unfolding l by (rule levels_ok_built [OF bn])
  show "c < cnt \<Longrightarrow> psci_svc_cpu_data t ! c = off_cpu_data e" using bn(2) by (simp add: cpus_ok_def)
qed

section \<open>The range of CPUs below each node\<close>

text \<open>One node visited for CPU \<open>c\<close>: counted, and its first CPU recorded when the CPU before had another ancestor.\<close>

definition bump_limits :: "nat \<Rightarrow> bool \<Rightarrow> non_cpu_pd_node_t \<Rightarrow> non_cpu_pd_node_t" where
  "bump_limits c new nd = nd\<lparr>cpu_start_idx := (if new then c else cpu_start_idx nd), ncpus := ncpus nd + 1\<rparr>"

lemma limits_node_bump:
  assumes "j < length ix" "T ! j < length (psci_non_cpu_pd_nodes s)"
  shows "limits_node c T j (ix, s) =
    (ix[j := T ! j], s\<lparr>psci_non_cpu_pd_nodes := (psci_non_cpu_pd_nodes s)
       [T ! j := bump_limits c (T ! j \<noteq> ix ! j) (psci_non_cpu_pd_nodes s ! (T ! j))]\<rparr>)"
proof (cases "T ! j = ix ! j")
  case True
  then have "ix[j := T ! j] = ix" by simp
  with True show ?thesis by (simp add: limits_node_def bump_limits_def Let_def)
next
  case False
  with assms show ?thesis by (simp add: limits_node_def bump_limits_def Let_def)
qed

text \<open>All nodes above one CPU; they are different nodes.\<close>

lemma limits_nodes:
  assumes "fold (limits_node c T) js (ix, s) = (ix', s')"
    and "\<forall>j \<in> set js. j < length ix \<and> T ! j < length (psci_non_cpu_pd_nodes s)"
    and "distinct js" "inj_on (\<lambda>j. T ! j) (set js)"
  shows "length ix' = length ix
    \<and> (\<forall>j < length ix. ix' ! j = (if j \<in> set js then T ! j else ix ! j))
    \<and> (\<exists>N. s' = s\<lparr>psci_non_cpu_pd_nodes := N\<rparr> \<and> length N = length (psci_non_cpu_pd_nodes s)
        \<and> (\<forall>j \<in> set js. N ! (T ! j) = bump_limits c (T ! j \<noteq> ix ! j) (psci_non_cpu_pd_nodes s ! (T ! j)))
        \<and> (\<forall>i. i \<notin> (\<lambda>j. T ! j) ` set js \<longrightarrow> N ! i = psci_non_cpu_pd_nodes s ! i))"
  using assms
proof (induction js arbitrary: ix s)
  case Nil
  then show ?case by (auto intro!: exI [of _ "psci_non_cpu_pd_nodes s"])
next
  case (Cons j js)
  define N1 where "N1 = (psci_non_cpu_pd_nodes s)
       [T ! j := bump_limits c (T ! j \<noteq> ix ! j) (psci_non_cpu_pd_nodes s ! (T ! j))]"
  have j: "j < length ix" "T ! j < length (psci_non_cpu_pd_nodes s)" using Cons.prems(2) by simp_all
  have run: "fold (limits_node c T) js (ix[j := T ! j], s\<lparr>psci_non_cpu_pd_nodes := N1\<rparr>) = (ix', s')"
    using Cons.prems(1) limits_node_bump [OF j, of c] by (simp add: N1_def)
  have IH: "length ix' = length ix
    \<and> (\<forall>i < length ix. ix' ! i = (if i \<in> set js then T ! i else ix[j := T ! j] ! i))
    \<and> (\<exists>N. s' = s\<lparr>psci_non_cpu_pd_nodes := N\<rparr> \<and> length N = length N1
        \<and> (\<forall>i \<in> set js. N ! (T ! i) = bump_limits c (T ! i \<noteq> ix[j := T ! j] ! i) (N1 ! (T ! i)))
        \<and> (\<forall>i. i \<notin> (\<lambda>j. T ! j) ` set js \<longrightarrow> N ! i = N1 ! i))"
    using Cons.IH [OF run] Cons.prems(2-4) by (simp add: N1_def)
  then obtain N where N: "s' = s\<lparr>psci_non_cpu_pd_nodes := N\<rparr>" "length N = length (psci_non_cpu_pd_nodes s)"
    "\<And>i. i \<in> set js \<Longrightarrow> N ! (T ! i) = bump_limits c (T ! i \<noteq> ix[j := T ! j] ! i) (N1 ! (T ! i))"
    "\<And>i. i \<notin> (\<lambda>j. T ! j) ` set js \<Longrightarrow> N ! i = N1 ! i"
    by (auto simp: N1_def)
  have nj: "j \<notin> set js" "T ! j \<notin> (\<lambda>j. T ! j) ` set js"
    using Cons.prems(3,4) by auto
  have ne: "i \<noteq> j" "T ! i \<noteq> T ! j" if "i \<in> set js" for i
    using nj that by (auto simp: image_iff)
  have "N ! (T ! i) = bump_limits c (T ! i \<noteq> ix ! i) (psci_non_cpu_pd_nodes s ! (T ! i))" if "i \<in> set (j # js)" for i
  proof (cases "i = j")
    case True
    then show ?thesis using N(4) [OF nj(2)] j by (simp add: N1_def)
  next
    case False
    then have i: "i \<in> set js" using that by simp
    show ?thesis using N(3) [OF i] ne [OF i] by (simp add: N1_def)
  qed
  moreover have "N ! i = psci_non_cpu_pd_nodes s ! i" if "i \<notin> (\<lambda>j. T ! j) ` set (j # js)" for i
    using N(4) [of i] that by (auto simp: N1_def)
  moreover have "\<forall>i < length ix. ix' ! i = (if i \<in> set (j # js) then T ! i else ix ! i)"
    using IH by (auto simp: nth_list_update)
  ultimately show ?case using IH N(1,2) by blast
qed

text \<open>The CPUs among the first \<open>n\<close> that have node \<open>i\<close> as an ancestor.\<close>

definition cpus_below :: "psci_state \<Rightarrow> nat \<Rightarrow> nat \<Rightarrow> nat \<Rightarrow> nat list" where
  "cpus_below s M n i = filter (\<lambda>x. \<exists>k < M. psci_ancestor s x k = i) [0..<n]"

definition limits_of :: "nat list \<Rightarrow> non_cpu_pd_node_t \<Rightarrow> non_cpu_pd_node_t" where
  "limits_of xs nd = nd\<lparr>cpu_start_idx := (if xs = [] then 0 else hd xs), ncpus := length xs\<rparr>"

lemma cpus_below_Suc:
  "cpus_below s M (Suc n) i =
     cpus_below s M n i @ (if \<exists>k < M. psci_ancestor s n k = i then [n] else [])"
  by (simp add: cpus_below_def)

text \<open>Ancestors only depend on the parent fields.\<close>

lemma ancestor_limits:
  assumes "s' = s\<lparr>psci_non_cpu_pd_nodes := N\<rparr>" "length N = length (psci_non_cpu_pd_nodes s)"
    and "\<forall>i < length N. parent_of (N ! i) = parent_of (psci_non_cpu_pd_nodes s ! i)"
  shows "psci_ancestor s' c k = psci_ancestor s c k"
proof (induction k)
  case (Suc k)
  have "parent_of (N ! i) = parent_of (psci_non_cpu_pd_nodes s ! i)" for i
    using assms(2,3) nth_beyond [of N i] nth_beyond [of "psci_non_cpu_pd_nodes s" i]
    by (cases "i < length N") auto
  with Suc show ?case by (simp add: assms(1))
qed (simp add: assms(1))

lemma ancestors_built_inj:
  assumes "ancestors_built s M cnt" "c < cnt" "c' < cnt" "k < M" "k' < M"
    and "psci_ancestor s c k = psci_ancestor s c' k'"
  shows "k = k'"
proof -
  have "nd_level (psci_non_cpu_pd_nodes s ! psci_ancestor s c k) = Suc k"
    "nd_level (psci_non_cpu_pd_nodes s ! psci_ancestor s c' k') = Suc k'"
    using assms(1-5) by (simp_all add: ancestors_built_def)
  with assms(6) show ?thesis by simp
qed

lemma ancestors_built_mono:
  assumes "ancestors_built s M cnt" "x \<le> y" "y < cnt" "k < M"
  shows "psci_ancestor s x k \<le> psci_ancestor s y k"
  using assms by (cases "x = y") (simp_all add: ancestors_built_def)

text \<open>The loop over the CPUs.\<close>

definition limits_loop :: "psci_env \<Rightarrow> nat \<Rightarrow> nat list \<times> psci_state \<Rightarrow> nat list \<times> psci_state" where
  "limits_loop e n acc =
     fold (\<lambda>cpu_idx (nodes_idx, s).
             let temp_index = psci_get_parent_pwr_domain_nodes cpu_idx (PLAT_MAX_PWR_LVL e) s
             in fold (limits_node cpu_idx temp_index) (rev [0..<PLAT_MAX_PWR_LVL e]) (nodes_idx, s))
       [0..<n] acc"

lemma bump_limits_of:
  assumes "new \<longrightarrow> xs = [] \<or> c = 0" "\<not> new \<longrightarrow> xs \<noteq> [] \<or> c = 0"
    and "xs = [] \<or> c \<noteq> 0"
  shows "bump_limits c new (limits_of xs nd) = limits_of (xs @ [c]) nd"
  using assms by (cases xs) (auto simp: bump_limits_def limits_of_def)

lemma limits_loop_ok:
  assumes "ancestors_built s M cnt" "M = PLAT_MAX_PWR_LVL e" "n \<le> cnt"
    and "\<forall>i < length (psci_non_cpu_pd_nodes s).
           cpu_start_idx (psci_non_cpu_pd_nodes s ! i) = 0 \<and> ncpus (psci_non_cpu_pd_nodes s ! i) = 0"
    and "limits_loop e n (replicate M 0, s) = (ix, t)"
  shows "length ix = M \<and> (\<forall>j < M. ix ! j = (if n = 0 then 0 else psci_ancestor s (n - 1) j))
    \<and> (\<exists>N. t = s\<lparr>psci_non_cpu_pd_nodes := N\<rparr> \<and> length N = length (psci_non_cpu_pd_nodes s)
         \<and> (\<forall>i < length N. N ! i = limits_of (cpus_below s M n i) (psci_non_cpu_pd_nodes s ! i)))"
  using assms(3,5)
proof (induction n arbitrary: ix t)
  case 0
  then have t: "ix = replicate M 0" "t = s" by (simp_all add: limits_loop_def)
  have "psci_non_cpu_pd_nodes s ! i = limits_of (cpus_below s M 0 i) (psci_non_cpu_pd_nodes s ! i)"
    if "i < length (psci_non_cpu_pd_nodes s)" for i
    using assms(4) that by (simp add: limits_of_def cpus_below_def)
  then show ?case using t by (auto intro!: exI [of _ "psci_non_cpu_pd_nodes s"])
next
  case (Suc n)
  obtain ix0 t0 where prev: "limits_loop e n (replicate M 0, s) = (ix0, t0)"
    by (cases "limits_loop e n (replicate M 0, s)")
  have IH: "length ix0 = M \<and> (\<forall>j < M. ix0 ! j = (if n = 0 then 0 else psci_ancestor s (n - 1) j))
    \<and> (\<exists>N. t0 = s\<lparr>psci_non_cpu_pd_nodes := N\<rparr> \<and> length N = length (psci_non_cpu_pd_nodes s)
         \<and> (\<forall>i < length N. N ! i = limits_of (cpus_below s M n i) (psci_non_cpu_pd_nodes s ! i)))"
    using Suc.prems(1) by (intro Suc.IH [OF _ prev]) simp
  then obtain N0 where t0: "t0 = s\<lparr>psci_non_cpu_pd_nodes := N0\<rparr>" "length N0 = length (psci_non_cpu_pd_nodes s)"
    and N0: "\<And>i. i < length N0 \<Longrightarrow> N0 ! i = limits_of (cpus_below s M n i) (psci_non_cpu_pd_nodes s ! i)"
    by auto
  have anc: "psci_ancestor t0 = psci_ancestor s"
    by (intro ext ancestor_limits [OF t0]) (simp add: N0 limits_of_def)
  define T where "T = map (psci_ancestor s n) [0..<M]"
  have run: "fold (limits_node n T) (rev [0..<M]) (ix0, t0) = (ix, t)"
    using Suc.prems(2) prev by (simp add: limits_loop_def parent_nodes_eq anc T_def assms(2))
  have nc: "n < cnt" using Suc.prems(1) by simp
  have T: "T ! j = psci_ancestor s n j" if "j < M" for j using that by (simp add: T_def)
  have in_range: "psci_ancestor s n j < length N0" if "j < M" for j
    using assms(1) nc that t0(2) by (simp add: ancestors_built_def)
  have inj: "inj_on (\<lambda>j. T ! j) (set (rev [0..<M]))"
    using ancestors_built_inj [OF assms(1) nc nc] by (auto simp: inj_on_def T)
  have pre: "\<forall>j \<in> set (rev [0..<M]). j < length ix0 \<and> T ! j < length (psci_non_cpu_pd_nodes t0)"
    using IH in_range by (simp add: T t0(1))
  note ln = limits_nodes [OF run pre _ inj]
  have r: "length ix = M" "\<And>j. j < M \<Longrightarrow> ix ! j = psci_ancestor s n j"
    using ln IH by (simp_all add: T)
  from ln obtain N where t: "t = t0\<lparr>psci_non_cpu_pd_nodes := N\<rparr>" "length N = length N0"
    and N: "\<forall>j \<in> set (rev [0..<M]). N ! (T ! j) = bump_limits n (T ! j \<noteq> ix0 ! j) (N0 ! (T ! j))"
      "\<forall>i. i \<notin> (\<lambda>j. T ! j) ` set (rev [0..<M]) \<longrightarrow> N ! i = N0 ! i"
    by (auto simp: t0(1))
  have hit: "N ! psci_ancestor s n j = bump_limits n (psci_ancestor s n j \<noteq> ix0 ! j) (N0 ! psci_ancestor s n j)"
    if "j < M" for j
    using bspec [OF N(1), of j] that by (simp add: T)
  have miss: "N ! i = N0 ! i" if "\<forall>j < M. psci_ancestor s n j \<noteq> i" for i
  proof -
    have "i \<notin> (\<lambda>j. T ! j) ` set (rev [0..<M])" using that T by auto
    then show ?thesis using N(2) by blast
  qed
  have "N ! i = limits_of (cpus_below s M (Suc n) i) (psci_non_cpu_pd_nodes s ! i)" if i: "i < length N" for i
  proof (cases "\<exists>j < M. psci_ancestor s n j = i")
    case False
    then have "cpus_below s M (Suc n) i = cpus_below s M n i" by (simp add: cpus_below_Suc)
    then show ?thesis using miss [of i] False N0 i t(2) by auto
  next
    case True
    then obtain j where j: "j < M" "psci_ancestor s n j = i" by blast
    have "cpus_below s M n i = []" if "n \<noteq> 0" and ne: "i \<noteq> psci_ancestor s (n - 1) j"
    proof -
      have "psci_ancestor s x k \<noteq> i" if x: "x < n" and k: "k < M" for x k
      proof
        assume eq: "psci_ancestor s x k = i"
        have "x < cnt" using x nc by simp
        from ancestors_built_inj [OF assms(1) this nc k j(1)] eq j(2) have "k = j" by simp
        moreover have "psci_ancestor s x j \<le> psci_ancestor s (n - 1) j" "psci_ancestor s (n - 1) j \<le> psci_ancestor s n j"
          using ancestors_built_mono [OF assms(1) _ _ j(1)] x nc by simp_all
        ultimately show False using ne eq j(2) by simp
      qed
      then show ?thesis by (auto simp: cpus_below_def filter_empty_conv)
    qed
    moreover have "cpus_below s M n i \<noteq> []" if "n \<noteq> 0" "i = psci_ancestor s (n - 1) j"
      using that j(1) by (auto simp: cpus_below_def filter_empty_conv intro!: bexI [of _ "n - 1"] exI [of _ j])
    moreover have "cpus_below s M n i = []" if "n = 0" using that by (simp add: cpus_below_def)
    ultimately have "bump_limits n (i \<noteq> ix0 ! j) (limits_of (cpus_below s M n i) (psci_non_cpu_pd_nodes s ! i)) =
        limits_of (cpus_below s M n i @ [n]) (psci_non_cpu_pd_nodes s ! i)"
      using IH j(1) by (intro bump_limits_of) auto
    then show ?thesis
      using hit [OF j(1)] N0 [of i] i t(2) j(2) True by (simp add: cpus_below_Suc)
  qed
  then show ?case using r t t0 by (auto intro!: exI [of _ N])
qed

text \<open>The CPUs below a node are consecutive.\<close>

lemma filter_mono_upt:
  fixes f :: "nat \<Rightarrow> nat"
  assumes "\<And>x y. x \<le> y \<Longrightarrow> y < n \<Longrightarrow> f x \<le> f y"
  shows "\<exists>p q. p \<le> q \<and> q \<le> n \<and> filter (\<lambda>x. f x = a) [0..<n] = [p..<q]"
  using assms
proof (induction n)
  case (Suc n)
  then obtain p q where pq: "p \<le> q" "q \<le> n" "filter (\<lambda>x. f x = a) [0..<n] = [p..<q]" by force
  show ?case
  proof (cases "f n = a")
    case False
    then show ?thesis using pq by (rule_tac exI [of _ p], rule_tac exI [of _ q]) simp
  next
    case True
    show ?thesis
    proof (cases "p = q")
      case True
      then show ?thesis using pq \<open>f n = a\<close> by (rule_tac exI [of _ n], rule_tac exI [of _ "Suc n"]) simp
    next
      case False
      have "p \<in> set (filter (\<lambda>x. f x = a) [0..<n])" using pq False by simp
      then have "f p = a" by simp
      then have "f x = a" if "p \<le> x" "x < n" for x
        using Suc.prems [of p x] Suc.prems [of x n] that \<open>f n = a\<close> by simp
      then have "x \<in> set [p..<q]" if "p \<le> x" "x < n" for x
        unfolding pq(3) [symmetric] using that by simp
      then have "n - 1 < q" using pq False by simp
      then have "q = n" using pq False by linarith
      then show ?thesis using pq \<open>f n = a\<close> by (rule_tac exI [of _ p], rule_tac exI [of _ "Suc n"]) simp
    qed
  qed
qed simp

lemma cpus_below_range:
  assumes "ancestors_built s M cnt" "c < cnt" "k < M"
  shows "\<exists>p q. cpus_below s M cnt (psci_ancestor s c k) = [p..<q] \<and> p \<le> c \<and> c < q \<and> q \<le> cnt
    \<and> (\<forall>x. p \<le> x \<and> x < q \<longrightarrow> psci_ancestor s x k = psci_ancestor s c k)"
proof -
  define ys where "ys = filter (\<lambda>x. psci_ancestor s x k = psci_ancestor s c k) [0..<cnt]"
  have "(\<exists>j < M. psci_ancestor s x j = psci_ancestor s c k) \<longleftrightarrow> psci_ancestor s x k = psci_ancestor s c k" if "x < cnt" for x
    using ancestors_built_inj [OF assms(1) that assms(2) _ assms(3)] assms(3) by blast
  then have xs: "cpus_below s M cnt (psci_ancestor s c k) = ys"
    unfolding ys_def cpus_below_def by (intro filter_cong) simp_all
  have "\<exists>p q. p \<le> q \<and> q \<le> cnt \<and> ys = [p..<q]"
    unfolding ys_def by (rule filter_mono_upt) (rule ancestors_built_mono [OF assms(1) _ _ assms(3)])
  then obtain p q where pq: "q \<le> cnt" "ys = [p..<q]" by blast
  have mem: "x \<in> set ys \<longleftrightarrow> x < cnt \<and> psci_ancestor s x k = psci_ancestor s c k" for x
    by (auto simp: ys_def)
  have "p \<le> c \<and> c < q" using mem [of c] assms(2) unfolding pq(2) by simp
  moreover have "psci_ancestor s x k = psci_ancestor s c k" if "p \<le> x \<and> x < q" for x
    using mem [of x] that unfolding pq(2) by simp
  ultimately show ?thesis using xs pq by blast
qed

text \<open>The tree with the limits filled in is well formed.\<close>

lemma update_limits_wf:
  assumes "ancestors_built s (PLAT_MAX_PWR_LVL e) (psci_plat_core_count s)" "psci_plat_core_count s \<le> PLATFORM_CORE_COUNT e"
    and "\<forall>i < length (psci_non_cpu_pd_nodes s).
           cpu_start_idx (psci_non_cpu_pd_nodes s ! i) = 0 \<and> ncpus (psci_non_cpu_pd_nodes s ! i) = 0"
    and "length (psci_non_cpu_pd_nodes s) = PSCI_NUM_NON_CPU_PWR_DOMAINS e"
    and "length (psci_cpu_pd_nodes s) = PLATFORM_CORE_COUNT e" "length (psci_svc_cpu_data s) = PLATFORM_CORE_COUNT e"
    and "length (psci_ns_context s) = PLATFORM_CORE_COUNT e"
    and "length (psci_req_local_pwr_states s) = PLAT_MAX_PWR_LVL e"
    and "list_all (\<lambda>row. length row = PLATFORM_CORE_COUNT e) (psci_req_local_pwr_states s)"
    and "t = psci_update_pwrlvl_limits e s"
  shows "psci_wf e t \<and> (\<exists>N. t = s\<lparr>psci_non_cpu_pd_nodes := N\<rparr>)"
proof -
  define M where "M = PLAT_MAX_PWR_LVL e"
  define cnt where "cnt = psci_plat_core_count s"
  obtain ix where run: "limits_loop e cnt (replicate M 0, s) = (ix, t)"
    by (cases "limits_loop e cnt (replicate M 0, s)")
      (simp add: assms(10) psci_update_pwrlvl_limits_def limits_loop_def M_def cnt_def)
  have built: "ancestors_built s M cnt" using assms(1) by (simp add: M_def cnt_def)
  from limits_loop_ok [OF built M_def order_refl assms(3) run]
  obtain N where t: "t = s\<lparr>psci_non_cpu_pd_nodes := N\<rparr>" "length N = length (psci_non_cpu_pd_nodes s)"
    and N: "\<And>i. i < length N \<Longrightarrow> N ! i = limits_of (cpus_below s M cnt i) (psci_non_cpu_pd_nodes s ! i)"
    by blast
  have anc: "psci_ancestor t = psci_ancestor s"
    by (intro ext ancestor_limits [OF t]) (simp add: N limits_of_def)
  have tN: "psci_non_cpu_pd_nodes t = N" "psci_plat_core_count t = psci_plat_core_count s" by (simp_all add: t(1))
  have "ancestor_ok e t c k" if "c < cnt" "k < M" for c k
  proof -
    from cpus_below_range [OF built that] obtain p q where
      r: "cpus_below s M cnt (psci_ancestor s c k) = [p..<q]" "p \<le> c" "c < q" "q \<le> cnt"
      and all: "\<And>x. p \<le> x \<and> x < q \<Longrightarrow> psci_ancestor s x k = psci_ancestor s c k" by blast
    have a: "psci_ancestor s c k < length N" using built that t(2) by (simp add: ancestors_built_def)
    have nd: "N ! psci_ancestor s c k =
        (psci_non_cpu_pd_nodes s ! psci_ancestor s c k)\<lparr>cpu_start_idx := p, ncpus := q - p\<rparr>"
      using N [OF a] r by (simp add: limits_of_def hd_upt)
    have nxt: "nd_level (psci_non_cpu_pd_nodes s ! psci_ancestor s c k) = Suc k"
      "lock_index (psci_non_cpu_pd_nodes s ! psci_ancestor s c k) = psci_ancestor s c k"
      "Suc k < PLAT_MAX_PWR_LVL e \<longrightarrow> psci_ancestor s c (Suc k) < psci_ancestor s c k"
      using built that by (simp_all add: ancestors_built_def M_def)
    have "list_all (\<lambda>x. psci_ancestor s x k = psci_ancestor s c k) [p..<p + (q - p)]"
      using all by (auto simp: list_all_iff)
    then show ?thesis
      using that a r(2-4) nxt
      unfolding ancestor_ok_def Let_def anc tN by (simp add: nd cnt_def)
  qed
  then have "psci_wf e t"
    using assms(2,4-9) t by (simp add: psci_wf_def list_all_iff M_def cnt_def)
  with t show ?thesis by blast
qed

section \<open>Initial requests\<close>

text \<open>Everything but the requested states.\<close>

definition req_erase :: "psci_state \<Rightarrow> psci_state" where
  "req_erase s = s\<lparr>psci_req_local_pwr_states := []\<rparr>"

lemma req_erase_fields:
  assumes "req_erase t = req_erase s"
  shows "psci_non_cpu_pd_nodes t = psci_non_cpu_pd_nodes s" "psci_cpu_pd_nodes t = psci_cpu_pd_nodes s"
    and "psci_svc_cpu_data t = psci_svc_cpu_data s" "psci_plat_core_count t = psci_plat_core_count s"
    and "psci_ns_context t = psci_ns_context s"
  using assms by (cases s; cases t; simp add: req_erase_def)+

definition set_req_entry :: "psci_env \<Rightarrow> nat \<Rightarrow> nat \<Rightarrow> psci_state \<Rightarrow> psci_state" where
  "set_req_entry e pwrlvl core s =
     s\<lparr>psci_req_local_pwr_states := (psci_req_local_pwr_states s)
         [pwrlvl := (psci_req_local_pwr_states s ! pwrlvl)[core := PLAT_MAX_OFF_STATE e]]\<rparr>"

lemma set_req_row:
  assumes "t = fold (set_req_entry e k) [0..<n] s" "k < length (psci_req_local_pwr_states s)"
    and "n \<le> length (psci_req_local_pwr_states s ! k)"
  shows "req_erase t = req_erase s \<and> map length (psci_req_local_pwr_states t) = map length (psci_req_local_pwr_states s)
    \<and> (\<forall>k' c. req_state t k' c = (if k' = k \<and> c < n then PLAT_MAX_OFF_STATE e else req_state s k' c))"
  using assms(1,3)
proof (induction n arbitrary: t)
  case (Suc n)
  define u where "u = fold (set_req_entry e k) [0..<n] s"
  have IH: "req_erase u = req_erase s \<and> map length (psci_req_local_pwr_states u) = map length (psci_req_local_pwr_states s)
    \<and> (\<forall>k' c. req_state u k' c = (if k' = k \<and> c < n then PLAT_MAX_OFF_STATE e else req_state s k' c))"
    using Suc.prems(2) by (intro Suc.IH [OF u_def]) simp
  have t: "t = set_req_entry e k n u" using Suc.prems(1) by (simp add: u_def)
  have len: "k < length (psci_req_local_pwr_states u)" "n < length (psci_req_local_pwr_states u ! k)"
    using IH assms(2) Suc.prems(2) map_eq_imp_length_eq map_eq_nth [of length "psci_req_local_pwr_states u" _ k]
    by fastforce+
  have "req_state t k' c = (if k' = k \<and> c = n then PLAT_MAX_OFF_STATE e else req_state u k' c)" for k' c
    using len by (auto simp: t set_req_entry_def req_state_def nth_list_update)
  moreover have "req_erase t = req_erase u" by (simp add: t set_req_entry_def req_erase_def)
  moreover have "map length (psci_req_local_pwr_states t) = map length (psci_req_local_pwr_states u)"
    by (simp add: t set_req_entry_def map_length_update)
  ultimately show ?case using IH by (auto simp: less_Suc_eq)
qed simp

lemma init_req_ok:
  assumes "t = psci_init_req_local_pwr_states e s" "length (psci_req_local_pwr_states s) = PLAT_MAX_PWR_LVL e"
    and "\<And>k. k < PLAT_MAX_PWR_LVL e \<Longrightarrow> psci_plat_core_count s \<le> length (psci_req_local_pwr_states s ! k)"
  shows "req_erase t = req_erase s \<and> map length (psci_req_local_pwr_states t) = map length (psci_req_local_pwr_states s)
    \<and> (\<forall>k c. k < PLAT_MAX_PWR_LVL e \<and> c < psci_plat_core_count s \<longrightarrow> req_state t k c = PLAT_MAX_OFF_STATE e)"
proof -
  have "req_erase u = req_erase s \<and> map length (psci_req_local_pwr_states u) = map length (psci_req_local_pwr_states s)
    \<and> (\<forall>k c. k < n \<and> c < psci_plat_core_count s \<longrightarrow> req_state u k c = PLAT_MAX_OFF_STATE e)"
    if "u = fold (\<lambda>k. fold (set_req_entry e k) [0..<psci_plat_core_count s]) [0..<n] s" "n \<le> PLAT_MAX_PWR_LVL e" for n u
    using that
  proof (induction n arbitrary: u)
    case (Suc n)
    define v where "v = fold (\<lambda>k. fold (set_req_entry e k) [0..<psci_plat_core_count s]) [0..<n] s"
    have IH: "req_erase v = req_erase s" "map length (psci_req_local_pwr_states v) = map length (psci_req_local_pwr_states s)"
      "\<And>k c. k < n \<Longrightarrow> c < psci_plat_core_count s \<Longrightarrow> req_state v k c = PLAT_MAX_OFF_STATE e"
      using Suc.IH [OF v_def] Suc.prems(2) by simp_all
    have u: "u = fold (set_req_entry e n) [0..<psci_plat_core_count s] v"
      using Suc.prems(1) by (simp add: v_def)
    have len: "n < length (psci_req_local_pwr_states v)" "psci_plat_core_count s \<le> length (psci_req_local_pwr_states v ! n)"
      using map_eq_imp_length_eq [OF IH(2)] map_eq_nth [OF IH(2), of n] Suc.prems(2) assms(2) assms(3) [of n] by simp_all
    from set_req_row [OF u len] IH show ?case by (auto simp: less_Suc_eq)
  qed simp
  from this [OF _ order_refl] show ?thesis
    by (simp add: assms(1) psci_init_req_local_pwr_states_def set_req_entry_def [abs_def])
qed

section \<open>Cold boot\<close>

text \<open>What cold boot needs of the platform's constants and its descriptor.\<close>

definition boot_ok :: "psci_env \<Rightarrow> bool" where
  "boot_ok e \<longleftrightarrow>
     0 < PLAT_MAX_PWR_LVL e \<and> PLAT_MAX_OFF_STATE e \<noteq> PSCI_LOCAL_STATE_RUN
     \<and> topology_fits e (plat_power_domain_tree_desc e) (PLAT_MAX_PWR_LVL e) 1 0 0
     \<and> PSCI_NUM_NON_CPU_PWR_DOMAINS e \<le> 65536 \<and> PLATFORM_CORE_COUNT e \<le> 65536"

text \<open>The state before the boot CPU's domains are set to run.\<close>

lemma setup_before_run:
  assumes "boot_ok e" "populate_power_domain_tree e (plat_power_domain_tree_desc e) (log_event Psci_arch_setup (psci_bss e)) = (cnt, t)"
    and "u = psci_init_req_local_pwr_states e (set_node_mpidr e me
               (psci_update_pwrlvl_limits e (t\<lparr>psci_plat_core_count := cnt\<rparr>)))"
  shows "psci_inv e u" "psci_plat_core_count u = cnt"
    and "c < cnt \<Longrightarrow> cpu_aff u c = AFF_STATE_OFF \<and> cpu_lvl u c = PSCI_INVALID_PWR_LVL e"
proof -
  define s0 where "s0 = log_event Psci_arch_setup (psci_bss e)"
  have b: "length (psci_non_cpu_pd_nodes s0) = PSCI_NUM_NON_CPU_PWR_DOMAINS e" "length (psci_cpu_pd_nodes s0) = PLATFORM_CORE_COUNT e"
    "length (psci_svc_cpu_data s0) = PLATFORM_CORE_COUNT e" "length (psci_ns_context s0) = PLATFORM_CORE_COUNT e"
    "psci_req_local_pwr_states s0 = replicate (PLAT_MAX_PWR_LVL e) (replicate (PLATFORM_CORE_COUNT e) 0)"
    "\<forall>i < length (psci_non_cpu_pd_nodes s0).
       cpu_start_idx (psci_non_cpu_pd_nodes s0 ! i) = 0 \<and> ncpus (psci_non_cpu_pd_nodes s0 ! i) = 0"
    by (simp_all add: s0_def log_event_def psci_bss_def)
  have bo: "0 < PLAT_MAX_PWR_LVL e" "topology_fits e (plat_power_domain_tree_desc e) (PLAT_MAX_PWR_LVL e) 1 0 0"
    "PSCI_NUM_NON_CPU_PWR_DOMAINS e \<le> 65536" "PLATFORM_CORE_COUNT e \<le> 65536"
    "PLAT_MAX_OFF_STATE e \<noteq> PSCI_LOCAL_STATE_RUN"
    using assms(1) by (simp_all add: boot_ok_def)
  note tr = populate_tree_ok [OF assms(2) [folded s0_def] bo(1,2) b(1) bo(3) b(2) bo(4) b(3)]
  have built: "tree_built s0 t" "cnt \<le> PLATFORM_CORE_COUNT e" "ancestors_built t (PLAT_MAX_PWR_LVL e) cnt"
    and off: "\<And>c. c < cnt \<Longrightarrow> psci_svc_cpu_data t ! c = off_cpu_data e"
    by (fact tr)+
  define s1 where "s1 = t\<lparr>psci_plat_core_count := cnt\<rparr>"
  have te: "tree_erase t = tree_erase s0" using built(1) by (simp add: tree_built_def)
  have same: "psci_ns_context t = psci_ns_context s0" "psci_req_local_pwr_states t = psci_req_local_pwr_states s0"
    using arg_cong [OF te, of psci_ns_context] arg_cong [OF te, of psci_req_local_pwr_states]
    by (simp_all add: tree_erase_def)
  have anc: "psci_ancestor s1 c k = psci_ancestor t c k" for c k
    by (induction k) (simp_all add: s1_def)
  have ab: "ancestors_built s1 (PLAT_MAX_PWR_LVL e) (psci_plat_core_count s1)"
    using built(3) unfolding ancestors_built_def anc by (simp add: s1_def)
  define s2 where "s2 = psci_update_pwrlvl_limits e s1"
  have wf2: "psci_wf e s2 \<and> (\<exists>N. s2 = s1\<lparr>psci_non_cpu_pd_nodes := N\<rparr>)"
  proof (rule update_limits_wf [OF ab _ _ _ _ _ _ _ _ s2_def])
    show "\<forall>i < length (psci_non_cpu_pd_nodes s1).
           cpu_start_idx (psci_non_cpu_pd_nodes s1 ! i) = 0 \<and> ncpus (psci_non_cpu_pd_nodes s1 ! i) = 0"
      using built(1) b(6) by (simp add: s1_def tree_built_def)
    show "list_all (\<lambda>row. length row = PLATFORM_CORE_COUNT e) (psci_req_local_pwr_states s1)"
      by (simp add: s1_def same b(5) list_all_iff)
  qed (use built b in \<open>simp_all add: s1_def same tree_built_def\<close>)
  then obtain N where s2: "s2 = s1\<lparr>psci_non_cpu_pd_nodes := N\<rparr>" by blast
  define s3 where "s3 = set_node_mpidr e me s2"
  have v3: "psci_view s3 = psci_view s2" by (simp add: s3_def)
  have wf3: "psci_wf e s3" using wf2 wf_shape [OF psci_viewD(1) [OF v3]] by simp
  have cc3: "psci_plat_core_count s3 = cnt" by (simp add: s3_def set_node_mpidr_def s2 s1_def)
  have u: "u = psci_init_req_local_pwr_states e s3"
    by (simp add: assms(3) s1_def s2_def s3_def)
  note wl = wf_lengths [OF wf3]
  have rows: "psci_plat_core_count s3 \<le> length (psci_req_local_pwr_states s3 ! k)" if "k < PLAT_MAX_PWR_LVL e" for k
    using wl(6) wl(7) [OF that] by simp
  note ir = init_req_ok [OF u wl(5) rows]
  have sh: "psci_shape u = psci_shape s3"
    and cd: "psci_svc_cpu_data u = psci_svc_cpu_data s3" "psci_plat_core_count u = psci_plat_core_count s3"
    using ir req_erase_fields [of u s3] by (simp_all add: psci_shape_def psci_topology_def)
  show "psci_plat_core_count u = cnt" using cd cc3 by simp
  have "run_requests_honoured e u"
    using ir bo cd by (simp add: run_requests_honoured_iff)
  then show "psci_inv e u" using wf3 wf_shape [OF sh] by (simp add: psci_inv_def)
  assume c: "c < cnt"
  have "psci_svc_cpu_data s3 = psci_svc_cpu_data t" by (simp add: s3_def set_node_mpidr_def s2 s1_def)
  then show "cpu_aff u c = AFF_STATE_OFF \<and> cpu_lvl u c = PSCI_INVALID_PWR_LVL e"
    using off [OF c] cd by (simp add: cpu_aff_def cpu_lvl_def off_cpu_data_def)
qed

text \<open>The system after cold boot on CPU \<open>me\<close>: every other CPU is held powered down.\<close>

definition cold_boot :: "psci_env \<Rightarrow> nat \<Rightarrow> psci_system" where
  "cold_boot e me =
     \<lparr>sys_psci = psci_setup e me (psci_bss e), sys_pc = (\<lambda>c. if c = me then Running else Powered_down)\<rparr>"

lemma cold_boot_inv:
  assumes "boot_ok e" "me < psci_plat_core_count (sys_psci (cold_boot e me))"
  shows "sys_inv e (cold_boot e me)"
proof -
  obtain cnt t where p: "populate_power_domain_tree e (plat_power_domain_tree_desc e) (log_event Psci_arch_setup (psci_bss e)) = (cnt, t)"
    by (cases "populate_power_domain_tree e (plat_power_domain_tree_desc e) (log_event Psci_arch_setup (psci_bss e))")
  define u where "u = psci_init_req_local_pwr_states e (set_node_mpidr e me
               (psci_update_pwrlvl_limits e (t\<lparr>psci_plat_core_count := cnt\<rparr>)))"
  note b = setup_before_run [OF assms(1) p u_def]
  define v where "v = psci_set_pwr_domains_to_run e me (PLAT_MAX_PWR_LVL e) u"
  define w where "w = v\<lparr>psci_caps := setup_caps e\<rparr>"
  have w: "sys_psci (cold_boot e me) = w"
    by (simp add: cold_boot_def psci_setup_def p u_def v_def w_def)
  have vw: "psci_view w = psci_view v"
    by (simp add: w_def psci_view_def psci_shape_def psci_topology_def node_state_def req_state_def
        cpu_aff_def cpu_lvl_def cpu_st_def fun_eq_iff)
  have wf: "psci_wf e u" using b(1) by (simp add: psci_inv_def)
  have me: "me < cnt"
  proof -
    have "psci_shape v = psci_shape u"
      unfolding v_def psci_set_pwr_domains_to_run_def by (simp add: set_run_loop_frame)
    then show ?thesis
      using assms(2) core_count_shape [of v u] b(2) unfolding w by (simp add: w_def)
  qed
  then have meu: "me < psci_plat_core_count u" using b(2) by simp
  note r = set_to_run_views [OF wf meu order_refl v_def]
  have cc: "psci_plat_core_count w = cnt" using core_count_shape [OF r(1)] b(2) by (simp add: w_def)
  have inv: "psci_inv e w"
    using set_to_run_inv [OF b(1) meu order_refl] psci_inv_view [OF vw] by (simp add: v_def)
  have "cpu_ok e w c (sys_pc (cold_boot e me) c)" if "c < cnt" for c
    using b(3) [OF that] b(3) [OF me] r(2-4) r(6) [of c] that b(2) psci_viewD [OF vw]
    by (cases "c = me") (simp_all add: cold_boot_def)
  then show ?thesis using inv by (simp add: sys_inv_def w cc)
qed

section \<open>The number of CPUs in a descriptor\<close>

fun described_cpus :: "uint8_t list \<Rightarrow> nat \<Rightarrow> nat \<Rightarrow> nat \<Rightarrow> nat" where
  "described_cpus T 0 num pi = sum_children T pi num"
| "described_cpus T (Suc level) num pi = described_cpus T level (sum_children T pi num) (pi + num)"

lemma populate_levels_count:
  assumes "populate_levels e T level num j ni pi s = (cnt, t)" "topology_fits e T level num ni' pi"
    and "level = 0 \<longrightarrow> ni = 0"
  shows "cnt = described_cpus T level num pi"
  using assms
proof (induction level arbitrary: num j ni ni' pi s)
  case 0
  obtain j1 ni1 pi1 nx1 where run: "populate_level e T 0 num j 0 pi 0 s = (j1, ni1, pi1, nx1, t)" "cnt = j1"
    using 0 by (auto split: prod.splits)
  then show ?case using populate_level_counts [OF run(1)] 0(2) by simp
next
  case (Suc level)
  obtain j1 ni1 pi1 nx1 u where run: "populate_level e T (Suc level) num j ni pi 0 s = (j1, ni1, pi1, nx1, u)"
    and rest: "populate_levels e T level nx1 j1 (if level = 0 then 0 else ni1) pi1 u = (cnt, t)"
    using Suc.prems(1) by (auto split: prod.splits)
  note c = populate_level_counts [OF run]
  have "topology_fits e T level nx1 (ni' + sum_children T pi num) pi1" using Suc.prems(2) c by simp
  from Suc.IH [OF rest this] show ?case using c by simp
qed

lemma core_count_limits [simp]:
  "psci_plat_core_count (psci_update_pwrlvl_limits e s) = psci_plat_core_count s"
proof -
  have a: "psci_plat_core_count (snd (limits_node c T j acc)) = psci_plat_core_count (snd acc)" for c T j acc
    by (simp add: limits_node_def Let_def split: prod.split)
  have b: "psci_plat_core_count (snd (fold (limits_node c T) js acc)) = psci_plat_core_count (snd acc)" for c T js acc
    by (induction js arbitrary: acc) (simp_all add: a)
  have "psci_plat_core_count (snd (fold (\<lambda>cpu_idx (nodes_idx, s).
             let temp_index = psci_get_parent_pwr_domain_nodes cpu_idx (PLAT_MAX_PWR_LVL e) s
             in fold (limits_node cpu_idx temp_index) (rev [0..<PLAT_MAX_PWR_LVL e]) (nodes_idx, s)) cs acc))
      = psci_plat_core_count (snd acc)" for cs acc
    by (induction cs arbitrary: acc) (auto simp: b Let_def split: prod.split)
  then show ?thesis by (simp add: psci_update_pwrlvl_limits_def)
qed

lemma core_count_init_req [simp]:
  "psci_plat_core_count (psci_init_req_local_pwr_states e s) = psci_plat_core_count s"
proof -
  have a: "psci_plat_core_count (fold (set_req_entry e k) cs s) = psci_plat_core_count s" for k cs s
    by (induction cs arbitrary: s) (simp_all add: set_req_entry_def)
  have "psci_plat_core_count (fold (\<lambda>k. fold (set_req_entry e k) cs) ks s) = psci_plat_core_count s" for ks cs s
    by (induction ks arbitrary: s) (simp_all add: a)
  then show ?thesis
    by (simp add: psci_init_req_local_pwr_states_def set_req_entry_def [abs_def])
qed

lemma cold_boot_core_count:
  assumes "boot_ok e"
  shows "psci_plat_core_count (sys_psci (cold_boot e me)) =
    described_cpus (plat_power_domain_tree_desc e) (PLAT_MAX_PWR_LVL e) 1 0"
proof -
  let ?T = "plat_power_domain_tree_desc e"
  obtain cnt t where p: "populate_power_domain_tree e ?T (log_event Psci_arch_setup (psci_bss e)) = (cnt, t)"
    by (cases "populate_power_domain_tree e ?T (log_event Psci_arch_setup (psci_bss e))")
  have "cnt = described_cpus ?T (PLAT_MAX_PWR_LVL e) 1 0"
    using p assms by (intro populate_levels_count) (auto simp: populate_power_domain_tree_def boot_ok_def)
  moreover have "psci_plat_core_count (psci_set_pwr_domains_to_run e me L s) = psci_plat_core_count s" for L s
    unfolding psci_set_pwr_domains_to_run_def by (rule core_count_shape) (simp add: set_run_loop_frame)
  ultimately show ?thesis
    by (simp add: cold_boot_def psci_setup_def p set_node_mpidr_def Let_def)
qed

end
