(* ===== verification/Psci_Demo.thy ===== *)
theory Psci_Demo
  imports Psci_Power
begin

text \<open>
  A concrete platform port and the state its PSCI library has after a cold boot on CPU 0. The
  instances of the theorems are evaluated here.
\<close>

section \<open>An example platform\<close>

text \<open>
  A port with one system domain, two clusters and two CPUs in each, retention states up to 1 and
  off states up to 2, every hook present and benign, and the default coordination. It serves the
  concrete instances of the theorems below.
\<close>

definition demo_ops :: plat_psci_ops_t where
  "demo_ops =
     \<lparr>cpu_standby = True, pwr_domain_on = Some (\<lambda>_ _. 0), pwr_domain_off = True,
      pwr_domain_off_early = None, pwr_domain_validate_suspend = None,
      pwr_domain_suspend_pwrdown_early = False, pwr_domain_suspend = True, pwr_domain_on_finish = True,
      pwr_domain_on_finish_late = False, pwr_domain_suspend_finish = True, pwr_domain_pwr_down_wfi = False,
      plat_system_off = True, plat_system_reset = True,
      validate_power_state = Some (\<lambda>ps info. (0, info\<lparr>pwr_domain_state :=
         (if ps AND 0xffff = 0 then [1, 0, 0] else if ps AND 0xffff = 1 then [1, 1, 0] else [2, 2, 2])\<rparr>)),
      validate_ns_entrypoint = None,
      get_sys_suspend_power_state = Some \<lparr>pwr_domain_state = [2, 2, 2], last_at_pwrlvl = 2\<rparr>,
      get_pwr_lvl_state_idx = None, translate_power_state_by_mpidr = None, get_node_hw_state = None,
      mem_protect_chk = Some (\<lambda>_ _. 0), read_mem_protect = Some (\<lambda>_. (0, 0)),
      write_mem_protect = Some (\<lambda>_ _. 0), plat_system_reset2 = Some (\<lambda>_ _ _. 0)\<rparr>"

definition demo_env :: psci_env where
  "demo_env =
     \<lparr>PLAT_MAX_PWR_LVL = 2, PLAT_MAX_RET_STATE = 1, PLAT_MAX_OFF_STATE = 2, PLATFORM_CORE_COUNT = 4,
      PSCI_NUM_NON_CPU_PWR_DOMAINS = 3, PLAT_MAX_PWR_LVL_STATES = 2, PLAT_MAX_CPU_SUSPEND_PWR_LVL = None,
      PSCI_OS_INIT_MODE = False, PSCI_EXTENDED_STATE_ID = False, ENABLE_PSCI_STAT = False,
      ENABLE_ASSERTIONS = True, HW_ASSISTED_COHERENCY = True, psci_plat_pm_ops = demo_ops,
      plat_get_target_pwr_state = plat_get_target_pwr_state_default 2,
      plat_power_domain_tree_desc = [1, 2, 2, 2],
      plat_core_pos_by_mpidr = (\<lambda>m. if m < 4 then uint m else - 1),
      plat_psci_stat_get_residency = (\<lambda>_ _ _ _. 0), read_mpidr = of_nat, read_scr_el3 = SCR_RW_BIT,
      read_sctlr_el1 = 0, read_sctlr_el2 = 0, read_isr_el1 = (\<lambda>_. 0), uninitialised_prev = []\<rparr>"

text \<open>CPU 0 runs; the other three CPUs and the second cluster are off.\<close>

definition demo_boot :: psci_state where
  "demo_boot =
  \<lparr>psci_non_cpu_pd_nodes =
     [\<lparr>cpu_start_idx = 0, ncpus = 4, parent_node = 4294967295, nd_local_state = 0, nd_level = 2, lock_index = 0\<rparr>,
      \<lparr>cpu_start_idx = 0, ncpus = 2, parent_node = 0, nd_local_state = 0, nd_level = 1, lock_index = 1\<rparr>,
      \<lparr>cpu_start_idx = 2, ncpus = 2, parent_node = 0, nd_local_state = 2, nd_level = 1, lock_index = 2\<rparr>],
   psci_cpu_pd_nodes =
     [\<lparr>mpidr = 0, cpu_parent_node = 1\<rparr>, \<lparr>mpidr = - 1, cpu_parent_node = 1\<rparr>,
      \<lparr>mpidr = - 1, cpu_parent_node = 2\<rparr>, \<lparr>mpidr = - 1, cpu_parent_node = 2\<rparr>],
   psci_req_local_pwr_states = [[0, 2, 2, 2], [0, 2, 2, 2]],
   psci_svc_cpu_data =
     [\<lparr>aff_info_state = AFF_STATE_ON, target_pwrlvl = 3, cpu_local_state = 0\<rparr>,
      \<lparr>aff_info_state = AFF_STATE_OFF, target_pwrlvl = 3, cpu_local_state = 2\<rparr>,
      \<lparr>aff_info_state = AFF_STATE_OFF, target_pwrlvl = 3, cpu_local_state = 2\<rparr>,
      \<lparr>aff_info_state = AFF_STATE_OFF, target_pwrlvl = 3, cpu_local_state = 2\<rparr>],
   psci_plat_core_count = 4, psci_caps = 0x1C471F, psci_suspend_mode = 0, psci_spd_pm = None,
   psci_ns_context = [None, None, None, None], last_cpu_in_non_cpu_pd = [None, None, None],
   psci_cpu_stat = replicate 4 (replicate 2 \<lparr>residency = 0, stat_count = 0\<rparr>),
   psci_non_cpu_stat = replicate 3 (replicate 2 \<lparr>residency = 0, stat_count = 0\<rparr>),
   events = [Psci_arch_setup]\<rparr>"

lemma small_nats:
  "(2 :: nat) = Suc (Suc 0)" "(3 :: nat) = Suc (Suc (Suc 0))" "(4 :: nat) = Suc (Suc (Suc (Suc 0)))"
  by simp_all

lemma demo_coordinating: "coordinating_platform (plat_get_target_pwr_state demo_env)"
  by (simp add: demo_env_def default_platform.coordinating_platform_axioms)

lemma demo_inv: "psci_inv demo_env demo_boot"
  by code_simp

end
