(* ===== verification/Psci_Reach.thy ===== *)
theory Psci_Reach
  imports Psci_Limits Psci_Demo
begin

text \<open>
  Every state the system can reach from cold boot, on every platform port that meets the
  assumptions: the invariant is interpreted on the model's boot state and step relation, and
  what it says of running CPUs, of the answer of \<open>AFFINITY_INFO\<close> and of waking CPUs is read off.
\<close>

section \<open>The invariant of the running system\<close>

text \<open>The port is constant; it is carried along with the state.\<close>

definition psci_booted :: "psci_env \<times> psci_system \<Rightarrow> bool" where
  "psci_booted x \<longleftrightarrow>
     port_ok (fst x) \<and> boot_ok (fst x)
     \<and> (\<exists>me < psci_plat_core_count (sys_psci (cold_boot (fst x) me)). snd x = cold_boot (fst x) me)"

definition psci_next :: "psci_env \<times> psci_system \<Rightarrow> psci_env \<times> psci_system \<Rightarrow> bool" where
  "psci_next x x' \<longleftrightarrow> fst x' = fst x \<and> psci_step (fst x) (snd x) (snd x')"

definition psci_good :: "psci_env \<times> psci_system \<Rightarrow> bool" where
  "psci_good x \<longleftrightarrow> port_ok (fst x) \<and> sys_inv (fst x) (snd x)"

interpretation psci_sys: inductive_invariant psci_booted psci_next psci_good
proof
  show "psci_good x" if "psci_booted x" for x
    using that cold_boot_inv by (auto simp: psci_booted_def psci_good_def)
  show "psci_good x'" if "psci_good x" "psci_next x x'" for x x'
    using that psci_step_inv by (auto simp: psci_good_def psci_next_def)
qed

lemma reach_sys_inv: "reach psci_booted psci_next (e, y) \<Longrightarrow> sys_inv e y"
  using psci_sys.reach_inv by (force simp: psci_good_def)

text \<open>
  C1: in every state reachable from cold boot by any interleaving of \<open>CPU_ON\<close>, \<open>CPU_OFF\<close>,
  \<open>CPU_SUSPEND\<close>, \<open>SYSTEM_SUSPEND\<close>, wake-ups and warm boots, every power domain above a running CPU
  is in the run state: no other CPU's power-down request has turned it off.
\<close>

theorem running_cpu_domains_run:
  assumes "reach psci_booted psci_next (e, y)"
    and "c < psci_plat_core_count (sys_psci y)" "sys_pc y c = Running" "k < PLAT_MAX_PWR_LVL e"
  shows "node_state (sys_psci y) (psci_ancestor (sys_psci y) c k) = PSCI_LOCAL_STATE_RUN"
proof -
  note inv = reach_sys_inv [OF assms(1)]
  have "req_state (sys_psci y) k c = PSCI_LOCAL_STATE_RUN"
    using sys_inv_running [OF inv assms(2,3)] assms(4) by simp
  then show ?thesis
    using inv assms(2,4) by (simp add: sys_inv_def psci_inv_def run_requests_honoured_iff)
qed

lemma cold_boot_pc [simp]: "sys_pc (cold_boot e me) c = (if c = me then Running else Powered_down)"
  by (simp add: cold_boot_def)

lemma demo_mpidr: "c < 4 \<Longrightarrow> is_valid_mpidr demo_env (of_nat c) \<and> nat (plat_core_pos_by_mpidr demo_env (of_nat c)) = c"
  by (simp add: is_valid_mpidr_def demo_env_def word_less_nat_alt unat_of_nat uint_nat)

lemma demo_max_lvl [simp]: "PLAT_MAX_PWR_LVL demo_env = 2"
  by (simp add: demo_env_def)

lemma demo_port_ok: "port_ok demo_env"
  using demo_coordinating
  by (simp add: port_ok_def off_early_ok_def suspend_states_ok_def) (simp add: demo_env_def demo_ops_def)

lemma demo_boot_ok: "boot_ok demo_env"
  by code_simp

lemma demo_count: "psci_plat_core_count (sys_psci (cold_boot demo_env me)) = 4"
  unfolding cold_boot_core_count [OF demo_boot_ok] by code_simp

lemma demo_booted: "me < 4 \<Longrightarrow> psci_booted (demo_env, cold_boot demo_env me)"
  using demo_port_ok demo_boot_ok by (auto simp: psci_booted_def demo_count)

lemma demo_reach: "me < 4 \<Longrightarrow> reach psci_booted psci_next (demo_env, cold_boot demo_env me)"
  by (rule reach_init) (rule demo_booted)

theorem running_cpu_domains_run_witness:
  "node_state (sys_psci (cold_boot demo_env 2)) (psci_ancestor (sys_psci (cold_boot demo_env 2)) 2 1) = 0"
  using running_cpu_domains_run [OF demo_reach [of 2], of 2 1]
  by (simp add: demo_count)

text \<open>
  C2: \<open>AFFINITY_INFO\<close> tells the truth. In every reachable state, a CPU reported \<open>OFF\<close> or
  \<open>ON_PENDING\<close> is not executing, and a CPU that is executing is reported \<open>ON\<close>.
\<close>

theorem affinity_info_truthful:
  assumes "reach psci_booted psci_next (e, y)" "is_valid_mpidr e m"
    and "c = nat (plat_core_pos_by_mpidr e m)" "c < psci_plat_core_count (sys_psci y)"
    and "sys_pc y c \<noteq> Stopped"
  shows "(psci_affinity_info e m 0 (sys_psci y) \<noteq> 0 \<longrightarrow> sys_pc y c = Powered_down)
    \<and> (sys_pc y c = Running \<longrightarrow> psci_affinity_info e m 0 (sys_psci y) = 0)"
proof -
  have info: "psci_affinity_info e m 0 (sys_psci y) = aff_state_val (cpu_aff (sys_psci y) c)"
    using assms(2,3) by (simp add: psci_affinity_info_def)
  have "cpu_ok e (sys_psci y) c (sys_pc y c)"
    using sys_inv_running [OF reach_sys_inv [OF assms(1)] assms(4) refl] .
  then show ?thesis using assms(5) by (cases "sys_pc y c") (auto simp: info)
qed

theorem affinity_info_truthful_witness:
  "psci_affinity_info demo_env 2 0 (sys_psci (cold_boot demo_env 2)) = 0"
  using affinity_info_truthful [OF demo_reach [of 2], of 2 2] demo_mpidr [of 2]
  by (simp add: demo_count)

end
