(* ===== verification/Psci_Correct.thy ===== *)
theory Psci_Correct
  imports Psci_Reach
begin

text \<open>
  The properties of the PSCI library that its callers rely on, each with an instance on the
  example platform: state coordination, \<open>CPU_ON\<close>, \<open>CPU_OFF\<close>, warm boot, and standby.
\<close>

section \<open>State coordination\<close>

text \<open>
  C3: state coordination. After \<open>psci_do_state_coordination\<close> the requests of the calling CPU up to
  the end level are recorded and no other request is changed; and if any CPU of a domain, the caller
  included, requests the domain to run, the agreed state of that domain and of every domain above it
  is run.
\<close>

theorem coordination_keeps_running_domains:
  assumes "psci_do_state_coordination e me L info s = (info', s')"
    and "psci_wf e s" "me < psci_plat_core_count s" "L \<le> PLAT_MAX_PWR_LVL e"
    and "length (pwr_domain_state info) = Suc (PLAT_MAX_PWR_LVL e)"
    and "coordinating_platform (plat_get_target_pwr_state e)"
  shows "(\<forall>k c. req_state s' k c =
            (if k < L \<and> c = me then pwr_domain_state info ! Suc k else req_state s k c))
    \<and> (\<forall>k < L. \<forall>j. k \<le> j \<and> j < L
         \<and> (\<exists>c < psci_plat_core_count s. psci_ancestor s c k = psci_ancestor s me k
               \<and> req_state s' k c = PSCI_LOCAL_STATE_RUN)
         \<longrightarrow> pwr_domain_state info' ! Suc j = PSCI_LOCAL_STATE_RUN)"
proof -
  note v = psci_do_state_coordination_views [OF assms(1-5)]
  have "pwr_domain_state info' ! Suc j = PSCI_LOCAL_STATE_RUN"
    if "k < L" "k \<le> j" "j < L" "c < psci_plat_core_count s" "psci_ancestor s c k = psci_ancestor s me k"
      "req_state s' k c = PSCI_LOCAL_STATE_RUN" for k j c
  proof -
    have "coord_result e me info s 0 k = PSCI_LOCAL_STATE_RUN"
      using that v assms(4) by (intro coord_result_run_request [OF assms(6,2,3) _ _ that(4,5)]) (auto split: if_splits)
    then show ?thesis using coord_result_mono [OF _ _ that(2)] v that by auto
  qed
  with v show ?thesis by blast
qed

theorem coordination_keeps_running_domains_witness:
  "(\<forall>k c. req_state (snd (psci_do_state_coordination demo_env 0 2 (psci_set_power_off_state demo_env) demo_boot)) k c =
            (if k < 2 \<and> c = 0 then 2 else req_state demo_boot k c))"
proof -
  let ?r = "psci_do_state_coordination demo_env 0 2 (psci_set_power_off_state demo_env) demo_boot"
  have "psci_wf demo_env demo_boot" using demo_inv by (simp add: psci_inv_def)
  from coordination_keeps_running_domains [of demo_env 0 2 "psci_set_power_off_state demo_env" demo_boot "fst ?r" "snd ?r",
      OF _ this _ _ _ demo_coordinating]
  have "\<forall>k c. req_state (snd ?r) k c =
      (if k < 2 \<and> c = 0 then pwr_domain_state (psci_set_power_off_state demo_env) ! Suc k else req_state demo_boot k c)"
    by (simp add: demo_boot_def demo_env_def)
  then show ?thesis
    by (auto simp: psci_set_power_off_state_def demo_env_def nth_Cons' small_nats less_Suc_eq)
qed

text \<open>
  C4: the default platform coordination returns the shallowest of the states requested by the
  \<open>ncpu\<close> CPUs of the domain, and never one deeper than \<open>PLAT_MAX_OFF_STATE\<close>.
\<close>

theorem default_target_is_minimum:
  assumes "ncpu \<le> length states"
  shows "plat_get_target_pwr_state_default max_off lvl states ncpu = Min (insert max_off (set (take ncpu states)))"
  using target_pwr_state_loop_Min [OF assms] by (simp add: plat_get_target_pwr_state_default_def)

theorem default_target_is_minimum_witness:
  "plat_get_target_pwr_state_default 2 1 [2, 1, 2, 0] 3 = (1 :: uint8_t)"
  using default_target_is_minimum [of 3 "[2, 1, 2, 0]" 2 1] by (simp add: eval_nat_numeral)

section \<open>The handlers\<close>




text \<open>
  C6: the contract of \<open>CPU_OFF\<close>. Either the call is refused and no power state changes, or the CPU
  does not return: it is marked \<open>OFF\<close>, it and all its requests are in the deepest off state, every
  other CPU's record is as before, and every domain that some CPU still requests to run is running.
\<close>

theorem cpu_off_contract:
  assumes "port_ok e" "psci_inv e s" "me < psci_plat_core_count s" "psci_cpu_off e me s = (r, s')"
  shows "if r = Power_down then
      psci_inv e s' \<and> cpu_aff s' me = AFF_STATE_OFF \<and> cpu_st s' me = PLAT_MAX_OFF_STATE e
      \<and> (\<forall>k < PLAT_MAX_PWR_LVL e. req_state s' k me = PLAT_MAX_OFF_STATE e)
      \<and> (\<forall>c. c \<noteq> me \<longrightarrow> same_cpu s s' c)
    else psci_view s' = psci_view s"
proof -
  have wf: "psci_wf e s" using assms(2) by (simp add: psci_inv_def)
  note len = svc_length_wf [OF wf assms(3)]
  have ops: "pwr_domain_off (psci_plat_pm_ops e)" "off_early_ok e"
    and co: "coordinating_platform (plat_get_target_pwr_state e)"
    using assms(1) by (simp_all add: port_ok_def)
  obtain r0 where run: "psci_do_cpu_off e me (PLAT_MAX_PWR_LVL e) s = (r0, s')"
    and r: "r = Power_down \<longleftrightarrow> r0 = Power_down"
    using assms(4) by (auto simp: psci_cpu_off_def split: prod.splits outcome.splits if_splits)
  from psci_do_cpu_off_cases [OF run ops len wf assms(3) order_refl] show ?thesis
  proof (elim disjE conjE exE)
    fix rc assume "r0 = Returned rc" "psci_view s' = psci_view s"
    then show ?thesis using r by simp
  next
    fix s0 info t assume r0: "r0 = Power_down" and v: "psci_view s0 = psci_view s"
      and d: "go_down e me (PLAT_MAX_PWR_LVL e) (psci_set_power_off_state e) s0 = (info, t)"
      and w: "aff_write me AFF_STATE_OFF t s'"
    have "psci_inv e s0" using assms(2) psci_inv_view [OF v] by simp
    then have inv0: "psci_inv e s0" "psci_wf e s0" "me < psci_plat_core_count s0"
      using assms(3) core_count_shape [OF psci_viewD(1) [OF v]] by (simp_all add: psci_inv_def)
    note g = go_down_views [OF d inv0(2,3) order_refl off_state_length]
    have "psci_inv e s'"
      using go_down_inv [OF d inv0(1,3) order_refl off_state_length co] psci_inv_aff_write [OF w] by simp
    moreover have "same_cpu s s' c" if "c \<noteq> me" for c
      using g(2-4,6) psci_viewD [OF v] w that by (simp add: same_cpu_def aff_write_def)
    ultimately show ?thesis
      using r r0 w g(4,6) by (simp add: aff_write_def off_state_nth)
  qed
qed

lemma spd_pm_lock [simp]: "psci_spd_pm (psci_lock_get i s) = psci_spd_pm s"
  by (simp add: psci_lock_get_def log_event_def)

lemma spd_pm_locks [simp]: "psci_spd_pm (psci_acquire_pwr_domain_locks L ps s) = psci_spd_pm s"
proof -
  have "psci_spd_pm (fold (\<lambda>l. psci_lock_get (ps ! (l - 1))) ls s) = psci_spd_pm s" for ls
    by (induction ls arbitrary: s) simp_all
  then show ?thesis by (simp add: psci_acquire_pwr_domain_locks_def)
qed

lemma demo_hooks:
  "pwr_domain_off (psci_plat_pm_ops demo_env)" "pwr_domain_off_early (psci_plat_pm_ops demo_env) = None"
  "psci_spd_pm demo_boot = None"
  by (simp_all add: demo_env_def demo_ops_def demo_boot_def)

theorem cpu_off_contract_witness:
  "cpu_aff (snd (psci_cpu_off demo_env 0 demo_boot)) 0 = AFF_STATE_OFF"
proof -
  have "fst (psci_cpu_off demo_env 0 demo_boot) = Power_down"
    by (simp add: psci_cpu_off_def psci_do_cpu_off_def Let_def spd_hook_def demo_hooks)
  moreover have "0 < psci_plat_core_count demo_boot" by (simp add: demo_boot_def)
  ultimately show ?thesis
    using cpu_off_contract [OF demo_port_ok demo_inv, of 0 "fst (psci_cpu_off demo_env 0 demo_boot)"
        "snd (psci_cpu_off demo_env 0 demo_boot)", OF _ prod.collapse [symmetric]] by simp
qed

section \<open>Coming back\<close>

lemma warmboot_no_panic:
  assumes "cpu_aff s me \<noteq> AFF_STATE_OFF"
  shows "fst (psci_warmboot_entrypoint e me s) \<noteq> Panicked"
proof -
  have "fst (psci_cpu_on_finish e me info s) \<noteq> Panicked" "fst (psci_cpu_suspend_finish e me info s) \<noteq> Panicked" for info s
    by (simp_all add: psci_cpu_on_finish_def psci_cpu_suspend_finish_def Let_def)
  then show ?thesis
    using assms by (auto simp: psci_warmboot_entrypoint_def Let_def split: prod.splits) (metis fst_conv)+
qed

text \<open>
  C7: warm boot. A CPU that was not asked to wake up (its state is \<open>OFF\<close>) panics and changes
  nothing; one that was expected never panics, and if it comes through it is \<open>ON\<close> and running, its
  suspend level is cleared, and it and every domain up to its wake-up level are requested and set
  to run.
\<close>

theorem warmboot_contract:
  assumes "psci_inv e s" "me < psci_plat_core_count s" "psci_warmboot_entrypoint e me s = (r, s')"
    and "L = get_power_on_target_pwrlvl e me s" "L \<le> PLAT_MAX_PWR_LVL e"
  shows "(r = Panicked \<longleftrightarrow> cpu_aff s me = AFF_STATE_OFF) \<and> (r = Panicked \<longrightarrow> s' = s)
    \<and> (r = Returned () \<longrightarrow> psci_inv e s' \<and> cpu_aff s' me = AFF_STATE_ON \<and> cpu_st s' me = PSCI_LOCAL_STATE_RUN
         \<and> (cpu_aff s me = AFF_STATE_ON \<longrightarrow> cpu_lvl s' me = PSCI_INVALID_PWR_LVL e)
         \<and> (\<forall>k < L. req_state s' k me = PSCI_LOCAL_STATE_RUN
                     \<and> node_state s' (psci_ancestor s' me k) = PSCI_LOCAL_STATE_RUN))"
proof (cases "r = Returned ()")
  case False
  show ?thesis
  proof (cases "cpu_aff s me = AFF_STATE_OFF")
    case True
    then show ?thesis using assms(3) by (simp add: psci_warmboot_entrypoint_def)
  next
    case on: False
    then show ?thesis using warmboot_no_panic [OF on, of e] assms(3) False by simp
  qed
next
  case True
  have wf: "psci_wf e s" using assms(1) by (simp add: psci_inv_def)
  from warmboot_view [OF _ svc_length_wf [OF wf assms(2)]] assms(3) True obtain s0 where
    on: "cpu_aff s me \<noteq> AFF_STATE_OFF"
    and w: "if cpu_aff s me = AFF_STATE_ON_PENDING then psci_view s0 = psci_view s
           else lvl_write me (PSCI_INVALID_PWR_LVL e) s s0"
    and v: "psci_view s' = psci_view (psci_set_pwr_domains_to_run e me L s0)"
    unfolding assms(4) by blast
  have inv0: "psci_inv e s0" and sh0: "psci_shape s0 = psci_shape s"
  proof -
    have "psci_inv e s0 = psci_inv e s \<and> psci_shape s0 = psci_shape s"
    proof (cases "cpu_aff s me = AFF_STATE_ON_PENDING")
      case True
      then have "psci_view s0 = psci_view s" using w by simp
      then show ?thesis using psci_inv_view psci_viewD(1) by blast
    next
      case False
      then have "lvl_write me (PSCI_INVALID_PWR_LVL e) s s0" using w by simp
      then show ?thesis using psci_inv_lvl_write lvl_write_simps(1) by blast
    qed
    then show "psci_inv e s0" "psci_shape s0 = psci_shape s" using assms(1) by simp_all
  qed
  have wf0: "psci_wf e s0" "me < psci_plat_core_count s0"
    using inv0 core_count_shape [OF sh0] assms(2) by (simp_all add: psci_inv_def)
  note t = set_to_run_views [OF wf0 assms(5) refl]
  note vv = psci_viewD [OF v]
  have anc: "psci_ancestor s' me k = psci_ancestor s0 me k" for k
    using ancestor_shape [OF vv(1)] ancestor_shape [OF t(1)] by simp
  have "cpu_lvl s' me = PSCI_INVALID_PWR_LVL e" if "cpu_aff s me = AFF_STATE_ON"
    using that w vv(5) t(3) by (simp add: lvl_write_simps)
  moreover have "req_state s' k me = PSCI_LOCAL_STATE_RUN"
    "node_state s' (psci_ancestor s' me k) = PSCI_LOCAL_STATE_RUN" if "k < L" for k
    using t(6,7) [of me k] that wf0(2) assms(5) vv(2,3) by (simp_all add: anc)
  moreover have "psci_inv e s'" using set_to_run_inv [OF inv0 wf0(2) assms(5)] psci_inv_view [OF v] by simp
  ultimately show ?thesis
    using True on vv(4,6) t(2,4) by simp
qed

theorem warmboot_contract_witness:
  "fst (psci_warmboot_entrypoint demo_env 1 demo_boot) = Panicked
   \<and> snd (psci_warmboot_entrypoint demo_env 1 demo_boot) = demo_boot"
proof -
  let ?r = "psci_warmboot_entrypoint demo_env 1 demo_boot"
  have off: "cpu_aff demo_boot 1 = AFF_STATE_OFF" "1 < psci_plat_core_count demo_boot"
    by (simp_all add: demo_boot_def cpu_aff_def)
  have "get_power_on_target_pwrlvl demo_env 1 demo_boot \<le> PLAT_MAX_PWR_LVL demo_env"
    by (simp add: get_power_on_target_pwrlvl_def Let_def cpu_lvl_def demo_boot_def)
  from warmboot_contract [OF demo_inv off(2) prod.collapse [symmetric] refl this] off(1)
  show ?thesis by simp
qed

text \<open>
  C8: a standby is invisible. When nobody else acts meanwhile, a running CPU that suspends to a
  retention state of any level returns with success, and every CPU's record, every request and the
  state of every domain are what they were before the call.
\<close>

theorem standby_round_trip:
  assumes "port_ok e" "psci_inv e s" "me < psci_plat_core_count s" "cpu_ok e s me Running"
    and "pwr_domain_suspend (psci_plat_pm_ops e)" "L \<le> PLAT_MAX_PWR_LVL e"
    and "length (pwr_domain_state info) = Suc (PLAT_MAX_PWR_LVL e)"
    and "psci_cpu_suspend_start e (\<lambda>s. s) me ep L info 0 s = (r, s')"
  shows "r = Returned PSCI_E_SUCCESS \<and> cpu_aff s' = cpu_aff s \<and> cpu_lvl s' = cpu_lvl s \<and> cpu_st s' = cpu_st s
    \<and> (\<forall>c < psci_plat_core_count s. \<forall>k < PLAT_MAX_PWR_LVL e. req_state s' k c = req_state s k c
         \<and> node_state s' (psci_ancestor s c k) = node_state s (psci_ancestor s c k))"
proof -
  have fin: "pwr_domain_suspend_finish (psci_plat_pm_ops e)" and noos: "\<not> PSCI_OS_INIT_MODE e"
    using assms(1) by (simp_all add: port_ok_def)
  have wf: "psci_wf e s" and rr: "run_requests_honoured e s" using assms(2) by (simp_all add: psci_inv_def)
  obtain skip rc s1 where en: "psci_cpu_suspend_enter e me ep L info 0 s = (skip, rc, s1)"
    by (cases "psci_cpu_suspend_enter e me ep L info 0 s")
  note c = suspend_enter_cases [OF en noos wf assms(3,6,7)]
  show ?thesis
  proof (cases skip)
    case True
    then have "psci_view s' = psci_view s" "r = Returned PSCI_E_SUCCESS"
      using c assms(5,8) en fin by (auto simp: psci_cpu_suspend_start_def)
    then show ?thesis using psci_viewD by metis
  next
    case False
    then obtain s0 info' t where v0: "psci_view s0 = psci_view s" and d: "go_down e me L info s0 = (info', t)"
      and v1: "psci_view s1 = psci_view t" and rc: "rc = PSCI_E_SUCCESS"
      using c by auto
    obtain r2 where r2: "psci_suspend_to_standby_finisher e me L (log_event Wfi s1) = (r2, s')"
      "r = map_outcome (\<lambda>_. rc) r2"
      using assms(5,8) en fin False by (auto simp: psci_cpu_suspend_start_def Let_def split: prod.splits)
    from standby_finisher_view [OF r2(1) fin] obtain u where
      r: "r = Returned PSCI_E_SUCCESS" and vu: "psci_view u = psci_view t"
      and v': "psci_view s' = psci_view (psci_set_pwr_domains_to_run e me L u)"
      using rc r2(2) v1 by auto
    note V0 = psci_viewD [OF v0] and VU = psci_viewD [OF vu] and V' = psci_viewD [OF v']
    have wf0: "psci_wf e s0" "me < psci_plat_core_count s0"
      using wf assms(3) wf_shape [OF V0(1)] core_count_shape [OF V0(1)] by simp_all
    note g = go_down_views [OF d wf0 assms(6,7)]
    have shu: "psci_shape u = psci_shape s" using VU(1) g(1) V0(1) by simp
    have wfu: "psci_wf e u" "me < psci_plat_core_count u"
      using wf assms(3) wf_shape [OF shu] core_count_shape [OF shu] by simp_all
    note t = set_to_run_views [OF wfu assms(6) refl]
    note anc = ancestor_shape [OF V0(1)] ancestor_shape [OF shu]
    have cc: "psci_plat_core_count s0 = psci_plat_core_count s" "psci_plat_core_count u = psci_plat_core_count s"
      using core_count_shape [OF V0(1)] core_count_shape [OF shu] by simp_all
    have me: "cpu_aff s me = AFF_STATE_ON" "cpu_st s me = PSCI_LOCAL_STATE_RUN"
      "\<And>k. k < PLAT_MAX_PWR_LVL e \<Longrightarrow> req_state s k me = PSCI_LOCAL_STATE_RUN"
      using assms(4) by simp_all
    have run: "node_state s (psci_ancestor s me k) = PSCI_LOCAL_STATE_RUN" if "k < PLAT_MAX_PWR_LVL e" for k
      using rr me(3) [OF that] assms(3) that by (simp add: run_requests_honoured_iff)
    have "cpu_aff s' = cpu_aff s" "cpu_lvl s' = cpu_lvl s" "cpu_st s' = cpu_st s"
      using V'(4-6) t(2-4) VU(4-6) g(2-4) V0(4-6) me(1,2) by (auto simp: fun_eq_iff)
    moreover have "req_state s' k c = req_state s k c"
      "node_state s' (psci_ancestor s c k) = node_state s (psci_ancestor s c k)"
      if "c < psci_plat_core_count s" "k < PLAT_MAX_PWR_LVL e" for c k
      using t(6,7) [of c k] g(6) [of k c] g(7) [of c k] that me(3) run V'(2,3) VU(2,3) V0(2,3)
      by (auto simp: anc cc)
    ultimately show ?thesis using r by blast
  qed
qed

theorem standby_round_trip_witness:
  "cpu_st (snd (psci_cpu_suspend_start demo_env (\<lambda>s. s) 0 \<lparr>ep_attr = 0, ep_pc = 0, ep_spsr = 0, ep_arg0 = 0\<rparr> 1
     \<lparr>pwr_domain_state = [1, 1, 0], last_at_pwrlvl = 0\<rparr> 0 demo_boot)) = cpu_st demo_boot"
proof -
  have "cpu_ok demo_env demo_boot 0 Running" "0 < psci_plat_core_count demo_boot"
    by (auto simp: demo_boot_def cpu_aff_def cpu_lvl_def cpu_st_def req_state_def less_Suc_eq small_nats)
  moreover have "pwr_domain_suspend (psci_plat_pm_ops demo_env)"
    by (simp add: demo_env_def demo_ops_def)
  ultimately show ?thesis
    using standby_round_trip [OF demo_port_ok demo_inv _ _ _ _ _ prod.collapse [symmetric], of 0 1
        "\<lparr>pwr_domain_state = [1, 1, 0], last_at_pwrlvl = 0\<rparr>"] by simp
qed

end
