(* ===== verification/Psci_Front.thy ===== *)
theory Psci_Front
  imports Psci_Reach
begin

text \<open>
  The lock discipline of the power domain tree and the front end of the PSCI library: which calls
  are rejected, which suspend requests and memory ranges are accepted, and the fields of the
  \<open>power_state\<close> parameter.
\<close>

section \<open>Power domain locks\<close>

text \<open>The locks CPU \<open>c\<close> takes for an operation up to level \<open>L\<close>, in the order it takes them.\<close>

definition locks_of :: "psci_state \<Rightarrow> nat \<Rightarrow> nat \<Rightarrow> nat list" where
  "locks_of s c L = map (psci_ancestor s c) [0..<L]"

lemma locks_of_decreasing:
  assumes "psci_wf e s" "c < psci_plat_core_count s" "L \<le> PLAT_MAX_PWR_LVL e" "i < j" "j < L"
  shows "locks_of s c L ! j < locks_of s c L ! i"
proof -
  have "psci_ancestor s c (i + Suc d) < psci_ancestor s c i" if "i + Suc d < L" for d
    using that
  proof (induction d)
    case 0
    then show ?case
      using wf_ancestor [OF assms(1,2), of i] assms(3) by (simp add: ancestor_ok_def Let_def)
  next
    case (Suc d)
    then have "psci_ancestor s c (Suc (i + Suc d)) < psci_ancestor s c (i + Suc d)"
      using wf_ancestor [OF assms(1,2), of "i + Suc d"] assms(3) by (simp add: ancestor_ok_def Let_def)
    with Suc show ?case by simp
  qed
  from this [of "j - i - 1"] show ?thesis using assms(4,5) by (simp add: locks_of_def)
qed

lemma lock_events:
  "events (psci_lock_get i s) = events s @ [Lock_get (lock_index (psci_non_cpu_pd_nodes s ! i))]"
  "events (psci_lock_release i s) = events s @ [Lock_release (lock_index (psci_non_cpu_pd_nodes s ! i))]"
  "psci_non_cpu_pd_nodes (psci_lock_get i s) = psci_non_cpu_pd_nodes s"
  "psci_non_cpu_pd_nodes (psci_lock_release i s) = psci_non_cpu_pd_nodes s"
  by (simp_all add: psci_lock_get_def psci_lock_release_def log_event_def)

lemma events_locks:
  assumes "\<And>i. i \<in> set ls \<Longrightarrow> lock_index (psci_non_cpu_pd_nodes s ! (ps ! (i - 1))) = ps ! (i - 1)"
  shows "events (fold (\<lambda>l. psci_lock_get (ps ! (l - 1))) ls s) = events s @ map (\<lambda>l. Lock_get (ps ! (l - 1))) ls"
    and "events (fold (\<lambda>l. psci_lock_release (ps ! (l - 1))) ls s) = events s @ map (\<lambda>l. Lock_release (ps ! (l - 1))) ls"
  using assms by (induction ls arbitrary: s) (simp_all add: lock_events)

text \<open>
  C9: the power domain locks are taken from the CPU's own cluster upwards, in strictly decreasing
  order of node index, and released in the reverse order.
\<close>

theorem locks_ordered:
  assumes "psci_wf e s" "c < psci_plat_core_count s" "L \<le> PLAT_MAX_PWR_LVL e"
    and "ps = psci_get_parent_pwr_domain_nodes c L s"
  shows "events (psci_acquire_pwr_domain_locks L ps s) = events s @ map Lock_get (locks_of s c L)
    \<and> events (psci_release_pwr_domain_locks L ps s) = events s @ map Lock_release (rev (locks_of s c L))
    \<and> sorted_wrt (>) (locks_of s c L)"
proof -
  have ps: "ps = locks_of s c L" by (simp add: assms(4) parent_nodes_eq locks_of_def)
  have lk: "lock_index (psci_non_cpu_pd_nodes s ! (ps ! (l - 1))) = ps ! (l - 1)" if "l \<in> set [1..<Suc L]" for l
    using that wf_ancestor [OF assms(1,2), of "l - 1"] assms(3)
    by (auto simp: ps locks_of_def ancestor_ok_def Let_def)
  have "map (\<lambda>l. ps ! (l - 1)) [1..<Suc L] = ps"
    by (intro nth_equalityI) (simp_all add: ps locks_of_def del: upt_Suc)
  then have m: "map (\<lambda>l. f (ps ! (l - 1))) [1..<Suc L] = map f ps" for f :: "nat \<Rightarrow> psci_event"
    by (metis (no_types, lifting) list.map_comp comp_apply map_eq_conv)
  have "sorted_wrt (>) (locks_of s c L)"
    using locks_of_decreasing [OF assms(1-3)] by (auto simp: sorted_wrt_iff_nth_less locks_of_def)
  moreover have "map (\<lambda>l. Lock_release (ps ! (l - 1))) (rev [1..<Suc L]) = map Lock_release (rev ps)"
    using m [of Lock_release] by (simp only: rev_map [symmetric])
  ultimately show ?thesis
    using events_locks [of "[1..<Suc L]" s ps] events_locks [of "rev [1..<Suc L]" s ps] lk m
    by (simp only: psci_acquire_pwr_domain_locks_def psci_release_pwr_domain_locks_def ps set_rev)
qed

theorem locks_ordered_witness:
  "events (psci_acquire_pwr_domain_locks 2 (psci_get_parent_pwr_domain_nodes 3 2 demo_boot) demo_boot) =
     [Psci_arch_setup, Lock_get 2, Lock_get 0]"
proof -
  have "psci_wf demo_env demo_boot" using demo_inv by (simp add: psci_inv_def)
  from locks_ordered [OF this _ _ refl, of 3 2] show ?thesis
    by (simp add: demo_boot_def locks_of_def parent_of_def small_nats)
qed



section \<open>Which calls are served\<close>

text \<open>The identifiers the two halves of the dispatcher compare with; all are well formed.\<close>

definition psci_fids32 :: "uint32_t list" where
  "psci_fids32 = [PSCI_VERSION, PSCI_CPU_OFF, PSCI_CPU_SUSPEND_AARCH32, PSCI_CPU_ON_AARCH32,
     PSCI_AFFINITY_INFO_AARCH32, PSCI_MIG_AARCH32, PSCI_MIG_INFO_TYPE, PSCI_MIG_INFO_UP_CPU_AARCH32,
     PSCI_NODE_HW_STATE_AARCH32, PSCI_SYSTEM_SUSPEND_AARCH32, PSCI_SYSTEM_OFF, PSCI_SYSTEM_RESET, PSCI_FEATURES,
     PSCI_SET_SUSPEND_MODE, PSCI_STAT_RESIDENCY_AARCH32, PSCI_STAT_COUNT_AARCH32, PSCI_MEM_PROTECT,
     PSCI_MEM_CHK_RANGE_AARCH32, PSCI_SYSTEM_RESET2_AARCH32]"

definition psci_fids64 :: "uint32_t list" where
  "psci_fids64 = [PSCI_CPU_SUSPEND_AARCH64, PSCI_CPU_ON_AARCH64, PSCI_AFFINITY_INFO_AARCH64, PSCI_MIG_AARCH64,
     PSCI_MIG_INFO_UP_CPU_AARCH64, PSCI_NODE_HW_STATE_AARCH64, PSCI_SYSTEM_SUSPEND_AARCH64,
     PSCI_STAT_RESIDENCY_AARCH64, PSCI_STAT_COUNT_AARCH64, PSCI_MEM_CHK_RANGE_AARCH64, PSCI_SYSTEM_RESET2_AARCH64]"

lemma fids32_ok: "list_all (\<lambda>f. is_std_svc_call f \<and> is_valid_fast_smc f \<and> is_psci_fid f) psci_fids32"
  by (simp add: psci_fids32_def is_std_svc_call_def is_valid_fast_smc_def is_psci_fid_def)

lemma fids64_ok:
  "list_all (\<lambda>f. smc_cc f = 1 \<and> is_std_svc_call f \<and> is_valid_fast_smc f \<and> is_psci_fid f
      \<and> PSCI_CAP_64BIT_MASK AND define_psci_cap f = define_psci_cap f) psci_fids64"
  by (simp add: psci_fids64_def smc_cc_def is_std_svc_call_def is_valid_fast_smc_def is_psci_fid_def
      PSCI_CAP_64BIT_MASK_def define_psci_cap_def)

text \<open>
  C11: a call the library does not advertise is rejected without effect. If \<open>PSCI_FEATURES\<close> answers
  \<open>NOT_SUPPORTED\<close> for a function identifier, or the caller is secure, then the SMC handler returns
  \<open>SMC_UNK\<close> and leaves the state as it is, whatever the arguments.
\<close>

theorem unadvertised_rejected:
  assumes "is_caller_secure flags \<or> psci_features e smc_fid s = PSCI_E_NOT_SUPPORTED"
  shows "psci_smc_handler e others me smc_fid x1 x2 x3 flags s = (Returned SMC_UNK, s)"
proof (cases "is_caller_secure flags \<or> psci_caps s AND define_psci_cap smc_fid = 0")
  case True
  then show ?thesis by (auto simp: psci_smc_handler_def)
next
  case False
  then have nf: "psci_features e smc_fid s = PSCI_E_NOT_SUPPORTED" and cap: "psci_caps s AND define_psci_cap smc_fid \<noteq> 0"
    using assms by auto
  have adv32: "\<not> (is_std_svc_call smc_fid \<and> is_valid_fast_smc smc_fid \<and> is_psci_fid smc_fid)" if "smc_cc smc_fid = 0"
    using nf cap that by (auto simp: psci_features_def Let_def split: if_splits)
  have adv64: "\<not> (is_std_svc_call smc_fid \<and> is_valid_fast_smc smc_fid \<and> is_psci_fid smc_fid
      \<and> PSCI_CAP_64BIT_MASK AND define_psci_cap smc_fid = define_psci_cap smc_fid)" if "smc_cc smc_fid = 1"
  proof
    assume a: "is_std_svc_call smc_fid \<and> is_valid_fast_smc smc_fid \<and> is_psci_fid smc_fid
      \<and> PSCI_CAP_64BIT_MASK AND define_psci_cap smc_fid = define_psci_cap smc_fid"
    then have "(psci_caps s AND PSCI_CAP_64BIT_MASK) AND define_psci_cap smc_fid \<noteq> 0"
      using cap by (simp add: and.assoc)
    with nf a that show False by (auto simp: psci_features_def Let_def split: if_splits)
  qed
  show ?thesis
  proof (cases "smc_cc smc_fid = 0")
    case True
    then have "smc_fid \<notin> set psci_fids32" using adv32 fids32_ok by (auto simp: list_all_iff)
    then show ?thesis
      using False True by (simp add: psci_smc_handler_def psci_smc32_def psci_fids32_def)
  next
    case cc: False
    then have "smc_fid \<notin> set psci_fids64" using adv64 fids64_ok by (auto simp: list_all_iff)
    then show ?thesis
      using False cc by (simp add: psci_smc_handler_def psci_smc64_def psci_fids64_def)
  qed
qed

theorem unadvertised_rejected_witness:
  "psci_smc_handler demo_env (\<lambda>s. s) 0 PSCI_MIG_AARCH64 1 0 0 1 demo_boot = (Returned SMC_UNK, demo_boot)"
proof -
  have "psci_features demo_env PSCI_MIG_AARCH64 demo_boot = PSCI_E_NOT_SUPPORTED"
    by (simp add: psci_features_def Let_def demo_boot_def define_psci_cap_def PSCI_CAP_64BIT_MASK_def smc_cc_def)
  then show ?thesis using unadvertised_rejected [of 1 demo_env PSCI_MIG_AARCH64 demo_boot] by blast
qed

text \<open>
  C12: \<open>MEM_PROTECT_CHECK_RANGE\<close> succeeds exactly for a non-empty range that ends within the
  64-bit address space and that the platform accepts; an empty or wrapping range never reaches the
  platform's decision.
\<close>

theorem mem_chk_range_iff:
  assumes "mem_protect_chk (psci_plat_pm_ops e) = Some f"
  shows "psci_mem_chk_range e base len = Returned (ret_int PSCI_E_SUCCESS) \<longleftrightarrow>
    0 < unat len \<and> unat base + unat len \<le> 2 ^ 64 \<and> 0 \<le> f base len"
proof (cases "len = 0")
  case True
  then show ?thesis using assms by (simp add: psci_mem_chk_range_def ret_int_def)
next
  case False
  then have "unat (len - 1) = unat len - 1" "0 < unat len"
    by (simp_all add: unat_minus_one unat_gt_0)
  then have "check_uptr_overflow base (len - 1) \<longleftrightarrow> \<not> unat base + unat len \<le> 2 ^ 64"
    unfolding check_uptr_overflow_iff by linarith
  then show ?thesis
    using assms False by (auto simp: psci_mem_chk_range_def ret_int_def unat_gt_0)
qed

theorem mem_chk_range_iff_witness:
  "psci_mem_chk_range demo_env 0xFFFFFFFFFFFFF000 0x1000 = Returned 0
   \<and> psci_mem_chk_range demo_env 0xFFFFFFFFFFFFF000 0x1001 \<noteq> Returned 0"
proof -
  have "mem_protect_chk (psci_plat_pm_ops demo_env) = Some (\<lambda>_ _. 0)"
    by (simp add: demo_env_def demo_ops_def)
  from mem_chk_range_iff [OF this, of "0xFFFFFFFFFFFFF000" "0x1000"]
    mem_chk_range_iff [OF this, of "0xFFFFFFFFFFFFF000" "0x1001"]
  show ?thesis by (simp add: ret_int_def)
qed

section \<open>Suspend requests\<close>

lemma find_down_Some:
  "find_down P n = Some i \<longleftrightarrow> i \<le> n \<and> P i \<and> (\<forall>j. i < j \<and> j \<le> n \<longrightarrow> \<not> P j)"
  by (induction n) (auto simp: le_Suc_eq)

lemma find_down_None: "find_down P n = None \<longleftrightarrow> (\<forall>j \<le> n. \<not> P j)"
  by (induction n) (auto simp: le_Suc_eq)

definition state_depth :: "psci_env \<Rightarrow> psci_power_state_t \<Rightarrow> nat \<Rightarrow> nat" where
  "state_depth e info i = state_type_val (find_local_state_type e (pwr_domain_state info ! i))"

lemma state_depth_iff:
  "state_depth e info i = 0 \<longleftrightarrow> is_local_state_run (pwr_domain_state info ! i)"
  "pwr_domain_state info ! i \<le> PLAT_MAX_OFF_STATE e \<Longrightarrow>
     state_depth e info i = 2 \<longleftrightarrow> is_local_state_off e (pwr_domain_state info ! i)"
  by (auto simp: state_depth_def find_local_state_type_def is_local_state_run_def is_local_state_off_def)

lemma deeper_downwards_iff:
  "deeper_downwards e info d n \<longleftrightarrow>
     state_type_val d \<le> state_depth e info n \<and> (\<forall>i j. i \<le> j \<and> j \<le> n \<longrightarrow> state_depth e info j \<le> state_depth e info i)"
proof (induction n arbitrary: d)
  case 0
  then show ?case by (auto simp: state_depth_def)
next
  case (Suc n)
  let ?D = "state_depth e info"
  have "(\<forall>i j. i \<le> j \<and> j \<le> Suc n \<longrightarrow> ?D j \<le> ?D i) \<longleftrightarrow>
      ?D (Suc n) \<le> ?D n \<and> (\<forall>i j. i \<le> j \<and> j \<le> n \<longrightarrow> ?D j \<le> ?D i)"
    by (auto simp: le_Suc_eq) (meson le_trans order_refl)
  then show ?case by (auto simp: Suc Let_def state_depth_def not_less)
qed

text \<open>
  C13: a composite suspend request is accepted exactly when some level is not running, no level is
  in a deeper kind of state (run, retention, off) than a level below it, and, for a standby request,
  no level is off.
\<close>

theorem validate_suspend_req_iff:
  assumes "\<forall>i \<le> PLAT_MAX_PWR_LVL e. pwr_domain_state info ! i \<le> PLAT_MAX_OFF_STATE e"
  shows "psci_validate_suspend_req e info pd = PSCI_E_SUCCESS \<longleftrightarrow>
    (\<exists>i \<le> PLAT_MAX_PWR_LVL e. state_depth e info i \<noteq> 0)
    \<and> (\<forall>i j. i \<le> j \<and> j \<le> PLAT_MAX_PWR_LVL e \<longrightarrow> state_depth e info j \<le> state_depth e info i)
    \<and> (pd = 0 \<longrightarrow> (\<forall>i \<le> PLAT_MAX_PWR_LVL e. state_depth e info i \<noteq> 2))"
proof -
  let ?M = "PLAT_MAX_PWR_LVL e" and ?D = "state_depth e info"
  let ?t = "find_down (\<lambda>i. \<not> is_local_state_run (pwr_domain_state info ! i)) ?M"
  let ?o = "find_down (\<lambda>i. is_local_state_off e (pwr_domain_state info ! i)) ?M"
  show ?thesis
  proof (cases ?t)
    case None
    then have "\<forall>i \<le> ?M. ?D i = 0" by (simp add: find_down_None state_depth_iff)
    then show ?thesis
      using None by (simp add: psci_validate_suspend_req_def psci_find_target_suspend_lvl_def)
  next
    case (Some t)
    then have t: "t \<le> ?M" "?D t \<noteq> 0" "\<And>j. t < j \<Longrightarrow> j \<le> ?M \<Longrightarrow> ?D j = 0"
      by (auto simp: find_down_Some state_depth_iff)
    have mono: "(\<forall>i j. i \<le> j \<and> j \<le> t \<longrightarrow> ?D j \<le> ?D i) \<longleftrightarrow> (\<forall>i j. i \<le> j \<and> j \<le> ?M \<longrightarrow> ?D j \<le> ?D i)"
      using t(1,3) by (metis le_trans not_le zero_le)
    have off: "(?o = None) \<longleftrightarrow> (\<forall>i \<le> ?M. ?D i \<noteq> 2)"
      using assms by (auto simp: find_down_None state_depth_iff(2))
    have os: "?o = Some i \<Longrightarrow> i \<le> ?M" for i by (simp add: find_down_Some)
    show ?thesis
      using t Some off os
      by (auto simp: psci_validate_suspend_req_def psci_find_target_suspend_lvl_def psci_find_max_off_lvl_def
          Let_def deeper_downwards_iff mono split: option.splits)
  qed
qed

theorem validate_suspend_req_iff_witness:
  "psci_validate_suspend_req demo_env \<lparr>pwr_domain_state = [1, 1, 0], last_at_pwrlvl = 0\<rparr> 0 = 0"
proof -
  let ?i = "\<lparr>pwr_domain_state = [1, 1, 0 :: uint8_t], last_at_pwrlvl = 0\<rparr>"
  have d: "state_depth demo_env ?i 0 = 1" "state_depth demo_env ?i 1 = 1" "state_depth demo_env ?i 2 = 0"
    by (simp_all add: state_depth_def find_local_state_type_def demo_env_def)
  have le2: "i \<le> 2 \<longleftrightarrow> i = 0 \<or> i = 1 \<or> i = 2" for i :: nat by auto
  have "\<forall>i \<le> PLAT_MAX_PWR_LVL demo_env. pwr_domain_state ?i ! i \<le> PLAT_MAX_OFF_STATE demo_env"
    by (auto simp: le2) (simp_all add: demo_env_def)
  note iff = validate_suspend_req_iff [OF this, of 0]
  have "state_depth demo_env ?i j \<le> state_depth demo_env ?i i" if "i \<le> j \<and> j \<le> 2" for i j
  proof -
    have "i = 0 \<and> j = 0 \<or> i \<le> 1 \<and> j = 1 \<or> j = 2" using that by auto
    moreover have "i \<le> 1 \<longleftrightarrow> i = 0 \<or> i = 1" by auto
    ultimately show ?thesis using d by auto
  qed
  moreover have "\<exists>i \<le> 2. state_depth demo_env ?i i \<noteq> 0" using d(1) by (intro exI [of _ 0]) simp
  moreover have "\<forall>i \<le> 2. state_depth demo_env ?i i \<noteq> 2" using d by (auto simp: le2)
  ultimately show ?thesis using iff by simp
qed

section \<open>The power_state parameter\<close>

lemma and_masks:
  fixes x :: uint32_t
  shows "x AND 0xffff = take_bit 16 x" "x AND 3 = take_bit 2 x" "x AND 1 = take_bit 1 x"
  by (simp_all add: take_bit_eq_mask mask_eq_exp_minus_1)

lemma power_state_fields:
  fixes i ty lvl :: uint32_t
  shows "take_bit 16 (take_bit 16 i OR push_bit 16 (take_bit 1 ty) OR push_bit 24 (take_bit 2 lvl)) = take_bit 16 i"
    and "take_bit 1 (drop_bit 16 (take_bit 16 i OR push_bit 16 (take_bit 1 ty) OR push_bit 24 (take_bit 2 lvl))) = take_bit 1 ty"
    and "take_bit 2 (drop_bit 24 (take_bit 16 i OR push_bit 16 (take_bit 1 ty) OR push_bit 24 (take_bit 2 lvl))) = take_bit 2 lvl"
    and "(take_bit 16 i OR push_bit 16 (take_bit 1 ty) OR push_bit 24 (take_bit 2 lvl))
           AND (push_bit 17 (mask 7) OR push_bit 26 (mask 6)) = 0"
proof -
  define w where "w = take_bit 16 i OR push_bit 16 (take_bit 1 ty) OR push_bit 24 (take_bit 2 lvl)"
  have b: "bit w n \<longleftrightarrow> n < 32 \<and> (n < 16 \<and> bit i n \<or> n = 16 \<and> bit ty 0 \<or> 24 \<le> n \<and> n < 26 \<and> bit lvl (n - 24))" for n
    by (auto simp: w_def bit_or_iff bit_take_bit_iff bit_push_bit_iff bit_imp_le_length bit_0)
  have "take_bit 16 w = take_bit 16 i" "take_bit 1 (drop_bit 16 w) = take_bit 1 ty"
    "take_bit 2 (drop_bit 24 w) = take_bit 2 lvl"
    by (rule bit_word_eqI, auto simp: bit_take_bit_iff b bit_drop_bit_eq even_drop_bit_iff_not_bit bit_0)+
  moreover have "w AND (push_bit 17 (mask 7) OR push_bit 26 (mask 6)) = 0"
    by (rule bit_word_eqI) (auto simp: bit_and_iff bit_or_iff bit_push_bit_iff bit_mask_iff b)
  ultimately show "take_bit 16 (take_bit 16 i OR push_bit 16 (take_bit 1 ty) OR push_bit 24 (take_bit 2 lvl)) = take_bit 16 i"
    "take_bit 1 (drop_bit 16 (take_bit 16 i OR push_bit 16 (take_bit 1 ty) OR push_bit 24 (take_bit 2 lvl))) = take_bit 1 ty"
    "take_bit 2 (drop_bit 24 (take_bit 16 i OR push_bit 16 (take_bit 1 ty) OR push_bit 24 (take_bit 2 lvl))) = take_bit 2 lvl"
    "(take_bit 16 i OR push_bit 16 (take_bit 1 ty) OR push_bit 24 (take_bit 2 lvl))
           AND (push_bit 17 (mask 7) OR push_bit 26 (mask 6)) = 0"
    by (simp_all only: w_def)
qed

text \<open>
  C14: a \<open>power_state\<close> composed of a state id, a type and a level by the original-format macro has
  no reserved bit set, and the extraction functions give back the three fields.
\<close>

theorem powerstate_round_trip:
  assumes "\<not> PSCI_EXTENDED_STATE_ID e"
  shows "psci_check_power_state e (psci_make_powerstate i ty lvl) = 0
    \<and> psci_get_pstate_id e (psci_make_powerstate i ty lvl) = i AND 0xffff
    \<and> psci_get_pstate_type e (psci_make_powerstate i ty lvl) = ty AND 1
    \<and> psci_get_pstate_pwrlvl (psci_make_powerstate i ty lvl) = lvl AND 3"
proof -
  have m: "(0xFCFE0000 :: uint32_t) = push_bit 17 (mask 7) OR push_bit 26 (mask 6)"
    by (simp add: mask_eq_exp_minus_1 push_bit_eq_mult)
  show ?thesis
    using assms
    unfolding psci_check_power_state_def psci_get_pstate_id_def psci_get_pstate_type_def psci_get_pstate_pwrlvl_def
      psci_make_powerstate_def PSTATE_VALID_MASK_def PSTATE_ID_MASK_def PSTATE_TYPE_SHIFT_def m and_masks
    by (simp only: if_False and_masks power_state_fields)
qed

theorem powerstate_round_trip_witness:
  "psci_get_pstate_id demo_env (psci_make_powerstate 0x1234 1 2) = 0x1234"
  using powerstate_round_trip [of demo_env "0x1234" 1 2] by (simp add: demo_env_def)

section \<open>Residency\<close>


section \<open>OS-initiated coordination\<close>




end
