(* ===== verification/Fwu.thy ===== *)
theory Fwu
  imports Prelude
begin

text \<open>
  The firmware update service of BL1: \<open>bl1/bl1_fwu.c\<close>, with the image descriptor lookup and the
  memory check of the Arm platforms (\<open>plat/arm/common/arm_bl1_fwu.c\<close>) and the state change of
  \<open>bl1_prepare_next_image\<close>. The descriptors, the list of loaded images, the id of the secure image
  last executed and memory are the state; the world whose context the handler returns to is part of
  it. Authentication, the platform's load hooks and the platform's memory map are parameters.
  Console output, cache maintenance and the saving of system registers are not represented.
\<close>

section \<open>Data\<close>

abbreviation (input) INVALID_IMAGE_ID :: uint32_t where "INVALID_IMAGE_ID \<equiv> 0xFFFFFFFF"
abbreviation (input) EPERM :: int where "EPERM \<equiv> 1"
abbreviation (input) ENOMEM :: int where "ENOMEM \<equiv> 12"
abbreviation (input) EAUTH :: int where "EAUTH \<equiv> 80"
abbreviation (input) SECURE :: uint32_t where "SECURE \<equiv> 0"
abbreviation (input) NON_SECURE :: uint32_t where "NON_SECURE \<equiv> 1"

datatype image_state_t =
    IMAGE_STATE_RESET
  | IMAGE_STATE_COPIED
  | IMAGE_STATE_COPYING
  | IMAGE_STATE_AUTHENTICATED
  | IMAGE_STATE_EXECUTED
  | IMAGE_STATE_INTERRUPTED

record image_desc_t =
  image_id :: uint32_t
  img_state :: image_state_t
  copied_size :: uint32_t
  image_base :: uintptr_t
  image_size :: uint32_t
  image_max_size :: uint32_t
  ep_info_attr :: uint32_t

definition GET_SECURITY_STATE :: "uint32_t \<Rightarrow> uint32_t" where
  "GET_SECURITY_STATE x = x AND 0x21"

definition EP_GET_EXE :: "uint32_t \<Rightarrow> uint32_t" where
  "EP_GET_EXE x = x AND 0x8"

abbreviation (input) NON_EXECUTABLE :: uint32_t where "NON_EXECUTABLE \<equiv> 0"
abbreviation (input) EXECUTABLE :: uint32_t where "EXECUTABLE \<equiv> 8"

text \<open>\<open>fwu_next_ctx\<close> is the security state of the context the \<open>handle\<close> points to.\<close>

record fwu_state =
  image_descs :: "image_desc_t list"
  bl1_fwu_loaded_ids :: "uint32_t list"
  sec_exec_image_id :: uint32_t
  fwu_mem :: "uintptr_t \<Rightarrow> uint8_t"
  auth_img_flags :: "uint32_t \<Rightarrow> uint32_t"
  fwu_next_ctx :: uint32_t

record fwu_env =
  fwu_assertions :: bool
  auth_mod_verify_img :: "uint32_t \<Rightarrow> uint8_t list \<Rightarrow> int"
  bl1_plat_handle_pre_image_load :: "uint32_t \<Rightarrow> int"
  bl1_plat_handle_post_image_load :: "uint32_t \<Rightarrow> int"
  fwu_addr_map_secure :: "(uintptr_t \<times> uint32_t) list"
  fwu_addr_map_non_secure :: "(uintptr_t \<times> uint32_t) list"

section \<open>Memory\<close>

text \<open>Addresses \<open>base\<close>, \<open>base + 1\<close>, \<dots>, \<open>base + (n - 1)\<close>, modulo the address space.\<close>

definition in_block :: "uintptr_t \<Rightarrow> uint32_t \<Rightarrow> uintptr_t \<Rightarrow> bool" where
  "in_block base n a \<longleftrightarrow> a - base < ucast n"

definition mem_copy ::
  "uintptr_t \<Rightarrow> uintptr_t \<Rightarrow> uint32_t \<Rightarrow> (uintptr_t \<Rightarrow> uint8_t) \<Rightarrow> uintptr_t \<Rightarrow> uint8_t" where
  "mem_copy dst src n m a = (if in_block dst n a then m (src + (a - dst)) else m a)"

definition zero_normalmem ::
  "uintptr_t \<Rightarrow> uint32_t \<Rightarrow> (uintptr_t \<Rightarrow> uint8_t) \<Rightarrow> uintptr_t \<Rightarrow> uint8_t" where
  "zero_normalmem base n m a = (if in_block base n a then 0 else m a)"

definition mem_bytes :: "(uintptr_t \<Rightarrow> uint8_t) \<Rightarrow> uintptr_t \<Rightarrow> uint32_t \<Rightarrow> uint8_t list" where
  "mem_bytes m base n = map (\<lambda>i. m (base + of_nat i)) [0..<unat n]"

section \<open>Platform services\<close>

text \<open>The table of descriptors up to its terminating entry; the first match is used.\<close>

definition bl1_plat_get_image_desc :: "uint32_t \<Rightarrow> fwu_state \<Rightarrow> image_desc_t option" where
  "bl1_plat_get_image_desc i s = List.find (\<lambda>d. image_id d = i) (image_descs s)"

fun upd_first :: "('a \<Rightarrow> bool) \<Rightarrow> ('a \<Rightarrow> 'a) \<Rightarrow> 'a list \<Rightarrow> 'a list" where
  "upd_first P f [] = []"
| "upd_first P f (x # xs) = (if P x then f x # xs else x # upd_first P f xs)"

definition upd_desc :: "uint32_t \<Rightarrow> (image_desc_t \<Rightarrow> image_desc_t) \<Rightarrow> fwu_state \<Rightarrow> fwu_state" where
  "upd_desc i f s = s\<lparr>image_descs := upd_first (\<lambda>d. image_id d = i) f (image_descs s)\<rparr>"

fun mem_map_covers :: "(uintptr_t \<times> uint32_t) list \<Rightarrow> uintptr_t \<Rightarrow> uint32_t \<Rightarrow> bool" where
  "mem_map_covers [] mem_base mem_size = False"
| "mem_map_covers ((b, n) # mmap) mem_base mem_size =
     (if mem_base \<ge> b \<and> mem_base + ucast mem_size \<le> b + ucast n then True
      else mem_map_covers mmap mem_base mem_size)"

definition bl1_plat_mem_check :: "fwu_env \<Rightarrow> uintptr_t \<Rightarrow> uint32_t \<Rightarrow> uint32_t \<Rightarrow> int outcome" where
  "bl1_plat_mem_check e mem_base mem_size flags =
     (if fwu_assertions e \<and> (mem_base = 0 \<or> mem_size = 0 \<or> check_uptr_overflow mem_base (ucast (mem_size - 1)))
      then Assert_failed
      else
        let mmap = (if GET_SECURITY_STATE flags = SECURE then fwu_addr_map_secure e else fwu_addr_map_non_secure e)
        in Returned (if mem_map_covers mmap mem_base mem_size then 0 else - ENOMEM))"

section \<open>Images loaded\<close>

text \<open>The result is the return value, 0 or 1, and the array afterwards.\<close>

definition bl1_fwu_add_loaded_id :: "uint32_t \<Rightarrow> fwu_state \<Rightarrow> int \<times> fwu_state" where
  "bl1_fwu_add_loaded_id i s =
     (if i \<in> set (bl1_fwu_loaded_ids s) then (0, s)
      else if INVALID_IMAGE_ID \<in> set (bl1_fwu_loaded_ids s)
      then (0, s\<lparr>bl1_fwu_loaded_ids := upd_first (\<lambda>x. x = INVALID_IMAGE_ID) (\<lambda>_. i) (bl1_fwu_loaded_ids s)\<rparr>)
      else (1, s))"

definition bl1_fwu_remove_loaded_id :: "uint32_t \<Rightarrow> fwu_state \<Rightarrow> int \<times> fwu_state" where
  "bl1_fwu_remove_loaded_id i s =
     (if i \<in> set (bl1_fwu_loaded_ids s)
      then (0, s\<lparr>bl1_fwu_loaded_ids := upd_first (\<lambda>x. x = i) (\<lambda>_. INVALID_IMAGE_ID) (bl1_fwu_loaded_ids s)\<rparr>)
      else (1, s))"

text \<open>One entry of the loop of \<open>bl1_fwu_image_check_overlaps\<close>, and the loop.\<close>

fun overlaps_loop :: "fwu_env \<Rightarrow> uint32_t \<Rightarrow> uintptr_t \<Rightarrow> uintptr_t \<Rightarrow> uint32_t list \<Rightarrow> fwu_state \<Rightarrow> int outcome" where
  "overlaps_loop e i checked_base checked_end [] s = Returned 0"
| "overlaps_loop e i checked_base checked_end (l # ls) s =
     (if l = INVALID_IMAGE_ID \<or> l = i then overlaps_loop e i checked_base checked_end ls s
      else
        (case bl1_plat_get_image_desc l s of
           None \<Rightarrow> Assert_failed
         | Some d \<Rightarrow>
             if fwu_assertions e \<and> img_state d = IMAGE_STATE_RESET then Assert_failed
             else if image_size d = 0 then overlaps_loop e i checked_base checked_end ls s
             else
               let base = image_base d; last = base + ucast (image_size d) - 1
               in if fwu_assertions e \<and> \<not> last > base then Assert_failed
                  else if \<not> (last < checked_base \<or> checked_end < base) then Returned (- EPERM)
                  else overlaps_loop e i checked_base checked_end ls s))"

definition bl1_fwu_image_check_overlaps :: "fwu_env \<Rightarrow> uint32_t \<Rightarrow> fwu_state \<Rightarrow> int outcome" where
  "bl1_fwu_image_check_overlaps e i s =
     (case bl1_plat_get_image_desc i s of
        None \<Rightarrow> Assert_failed
      | Some d \<Rightarrow>
          if fwu_assertions e \<and> image_size d = 0 then Assert_failed
          else overlaps_loop e i (image_base d) (image_base d + ucast (image_size d) - 1) (bl1_fwu_loaded_ids s) s)"

section \<open>Copy\<close>

text \<open>
  The checks of a first copy request, which record the size, and of a later one. A result
  \<open>Inl\<close> is returned at once, \<open>Inr\<close> is the total image size with the state to go on with.
\<close>

definition copy_prepare ::
  "fwu_env \<Rightarrow> uint32_t \<Rightarrow> image_desc_t \<Rightarrow> uint32_t \<Rightarrow> fwu_state \<Rightarrow> (int outcome + uint32_t) \<times> fwu_state" where
  "copy_prepare e i d sz s =
     (if img_state d = IMAGE_STATE_COPYING then
        if fwu_assertions e \<and> (copied_size d = 0 \<or> image_size d = 0 \<or> \<not> copied_size d < image_size d)
        then (Inl Assert_failed, s) else (Inr (image_size d), s)
      else if sz = 0 then (Inl (Returned (- ENOMEM)), s)
      else if sz > image_max_size d then (Inl (Returned (- ENOMEM)), s)
      else
        let s = upd_desc i (\<lambda>d. d\<lparr>image_size := sz\<rparr>) s
        in case bl1_fwu_image_check_overlaps e i s of
             Returned rc \<Rightarrow>
               if rc \<noteq> 0 then (Inl (Returned (- EPERM)), upd_desc i (\<lambda>d. d\<lparr>image_size := 0\<rparr>) s)
               else (Inr sz, upd_desc i (\<lambda>d. d\<lparr>copied_size := 0\<rparr>) s)
           | r \<Rightarrow> (Inl r, s))"

text \<open>The block is copied and the descriptor updated.\<close>

definition copy_block ::
  "uint32_t \<Rightarrow> uintptr_t \<Rightarrow> uint32_t \<Rightarrow> uint32_t \<Rightarrow> image_desc_t \<Rightarrow> fwu_state \<Rightarrow> fwu_state" where
  "copy_block i src block remaining d s =
     upd_desc i (\<lambda>d. d\<lparr>copied_size := copied_size d + block,
         img_state := if block = remaining then IMAGE_STATE_COPIED else IMAGE_STATE_COPYING\<rparr>)
       (s\<lparr>fwu_mem := mem_copy (image_base d + ucast (copied_size d)) src block (fwu_mem s)\<rparr>)"

definition bl1_fwu_image_copy ::
  "fwu_env \<Rightarrow> uint32_t \<Rightarrow> uintptr_t \<Rightarrow> uint32_t \<Rightarrow> uint32_t \<Rightarrow> uint32_t \<Rightarrow> fwu_state \<Rightarrow> int outcome \<times> fwu_state" where
  "bl1_fwu_image_copy e i image_src block_size sz flags s =
     (case bl1_plat_get_image_desc i s of
        None \<Rightarrow> (Returned (- EPERM), s)
      | Some d \<Rightarrow>
          if GET_SECURITY_STATE flags = SECURE then (Returned (- EPERM), s)
          else if GET_SECURITY_STATE (ep_info_attr d) = NON_SECURE then (Returned (- EPERM), s)
          else if img_state d \<noteq> IMAGE_STATE_RESET \<and> img_state d \<noteq> IMAGE_STATE_COPYING then (Returned (- EPERM), s)
          else if image_src = 0 \<or> block_size = 0 \<or> check_uptr_overflow image_src (ucast (block_size - 1))
          then (Returned (- ENOMEM), s)
          else
            (case copy_prepare e i d sz s of
               (Inl r, s) \<Rightarrow> (r, s)
             | (Inr sz, s) \<Rightarrow>
                 let d = the (bl1_plat_get_image_desc i s);
                     remaining = sz - copied_size d;
                     block_size = (if block_size > remaining then remaining else block_size)
                 in case bl1_plat_mem_check e image_src block_size flags of
                      Returned rc \<Rightarrow>
                        if rc \<noteq> 0 then (Returned (- ENOMEM), s)
                        else
                          let (rc, s) = bl1_fwu_add_loaded_id i s
                          in if rc \<noteq> 0 then (Returned (- ENOMEM), s)
                             else if img_state d = IMAGE_STATE_RESET \<and> bl1_plat_handle_pre_image_load e i \<noteq> 0
                             then (Returned (- EPERM), s)
                             else (Returned 0, copy_block i image_src block_size remaining d s)
                    | r \<Rightarrow> (r, s)))"

section \<open>Authenticate\<close>

text \<open>The checks and parameter selection before the authentication: address and size to verify.\<close>

definition auth_prepare ::
  "fwu_env \<Rightarrow> uint32_t \<Rightarrow> image_desc_t \<Rightarrow> uintptr_t \<Rightarrow> uint32_t \<Rightarrow> fwu_state
     \<Rightarrow> (int outcome + uintptr_t \<times> uint32_t) \<times> fwu_state" where
  "auth_prepare e i d image_src sz s =
     (if img_state d = IMAGE_STATE_COPIED then (Inr (image_base d, image_size d), s)
      else if image_src = 0 \<or> sz = 0 \<or> check_uptr_overflow image_src (ucast (sz - 1))
      then (Inl (Returned (- ENOMEM)), s)
      else
        (case bl1_plat_mem_check e image_src sz (ep_info_attr d) of
           Returned rc \<Rightarrow>
             if rc \<noteq> 0 then (Inl (Returned (- ENOMEM)), s)
             else
               let (rc, s) = bl1_fwu_add_loaded_id i s
               in if rc \<noteq> 0 then (Inl (Returned (- ENOMEM)), s)
                  else (Inr (image_src, sz), upd_desc i (\<lambda>d. d\<lparr>image_size := sz\<rparr>) s)
         | r \<Rightarrow> (Inl r, s)))"

definition auth_allowed :: "image_desc_t \<Rightarrow> uint32_t \<Rightarrow> bool" where
  "auth_allowed d flags \<longleftrightarrow>
     (if GET_SECURITY_STATE flags = SECURE then img_state d = IMAGE_STATE_RESET
      else if GET_SECURITY_STATE (ep_info_attr d) = SECURE then img_state d = IMAGE_STATE_COPIED
      else img_state d = IMAGE_STATE_RESET)"

text \<open>The authentication module marks an image it verified in \<open>auth_img_flags\<close>.\<close>

definition bl1_fwu_image_auth ::
  "fwu_env \<Rightarrow> uint32_t \<Rightarrow> uintptr_t \<Rightarrow> uint32_t \<Rightarrow> uint32_t \<Rightarrow> fwu_state \<Rightarrow> int outcome \<times> fwu_state" where
  "bl1_fwu_image_auth e i image_src sz flags s =
     (case bl1_plat_get_image_desc i s of
        None \<Rightarrow> (Returned (- EPERM), s)
      | Some d \<Rightarrow>
          if \<not> auth_allowed d flags then (Returned (- EPERM), s)
          else
            (case auth_prepare e i d image_src sz s of
               (Inl r, s) \<Rightarrow> (r, s)
             | (Inr (base_addr, total_size), s) \<Rightarrow>
                 if auth_mod_verify_img e i (mem_bytes (fwu_mem s) base_addr total_size) \<noteq> 0 then
                   let s = (if img_state d = IMAGE_STATE_COPIED
                            then upd_desc i (\<lambda>d. d\<lparr>img_state := IMAGE_STATE_RESET\<rparr>)
                                   (s\<lparr>fwu_mem := zero_normalmem base_addr total_size (fwu_mem s)\<rparr>)
                            else s)
                   in (Returned (- EAUTH), snd (bl1_fwu_remove_loaded_id i s))
                 else
                   let s = s\<lparr>auth_img_flags := (auth_img_flags s)(i := auth_img_flags s i OR 1)\<rparr>;
                       s = upd_desc i (\<lambda>d. d\<lparr>img_state := IMAGE_STATE_AUTHENTICATED\<rparr>) s
                   in if bl1_plat_handle_post_image_load e i \<noteq> 0 then (Panicked, s) else (Returned 0, s)))"

section \<open>Execute, resume, done\<close>

text \<open>\<open>bl1_prepare_next_image\<close> sets up the context of the image and marks it executed.\<close>

definition bl1_prepare_next_image :: "uint32_t \<Rightarrow> fwu_state \<Rightarrow> fwu_state" where
  "bl1_prepare_next_image i s = upd_desc i (\<lambda>d. d\<lparr>img_state := IMAGE_STATE_EXECUTED\<rparr>) s"

definition bl1_fwu_image_execute :: "fwu_env \<Rightarrow> uint32_t \<Rightarrow> uint32_t \<Rightarrow> fwu_state \<Rightarrow> int outcome \<times> fwu_state" where
  "bl1_fwu_image_execute e i flags s =
     (case bl1_plat_get_image_desc i s of
        None \<Rightarrow> (Returned (- EPERM), s)
      | Some d \<Rightarrow>
          if GET_SECURITY_STATE flags = SECURE \<or> GET_SECURITY_STATE (ep_info_attr d) = NON_SECURE
             \<or> EP_GET_EXE (ep_info_attr d) = NON_EXECUTABLE \<or> img_state d \<noteq> IMAGE_STATE_AUTHENTICATED
          then (Returned (- EPERM), s)
          else (Returned 0, (bl1_prepare_next_image i s)\<lparr>sec_exec_image_id := i, fwu_next_ctx := SECURE\<rparr>))"

definition bl1_fwu_image_resume ::
  "fwu_env \<Rightarrow> u_register_t \<Rightarrow> uint32_t \<Rightarrow> fwu_state \<Rightarrow> u_register_t outcome \<times> fwu_state" where
  "bl1_fwu_image_resume e image_param flags s =
     (let caller = GET_SECURITY_STATE flags
      in case bl1_plat_get_image_desc (sec_exec_image_id s) s of
           None \<Rightarrow> if caller = NON_SECURE then (Returned (word_of_int (- EPERM)), s) else (Assert_failed, s)
         | Some d \<Rightarrow>
             if fwu_assertions e
                \<and> (GET_SECURITY_STATE (ep_info_attr d) \<noteq> SECURE \<or> EP_GET_EXE (ep_info_attr d) \<noteq> EXECUTABLE)
             then (Assert_failed, s)
             else if caller = SECURE then
               if fwu_assertions e \<and> img_state d \<noteq> IMAGE_STATE_EXECUTED then (Assert_failed, s)
               else (Returned image_param,
                     (upd_desc (sec_exec_image_id s) (\<lambda>d. d\<lparr>img_state := IMAGE_STATE_INTERRUPTED\<rparr>) s)
                       \<lparr>fwu_next_ctx := NON_SECURE\<rparr>)
             else if fwu_assertions e \<and> img_state d \<noteq> IMAGE_STATE_INTERRUPTED then (Assert_failed, s)
             else (Returned image_param,
                   (upd_desc (sec_exec_image_id s) (\<lambda>d. d\<lparr>img_state := IMAGE_STATE_EXECUTED\<rparr>) s)
                     \<lparr>fwu_next_ctx := SECURE\<rparr>))"

definition bl1_fwu_sec_image_done :: "fwu_env \<Rightarrow> uint32_t \<Rightarrow> fwu_state \<Rightarrow> int outcome \<times> fwu_state" where
  "bl1_fwu_sec_image_done e flags s =
     (if GET_SECURITY_STATE flags = NON_SECURE then (Returned (- EPERM), s)
      else
        (case bl1_plat_get_image_desc (sec_exec_image_id s) s of
           None \<Rightarrow> (Assert_failed, s)
         | Some d \<Rightarrow>
             if fwu_assertions e
                \<and> (GET_SECURITY_STATE (ep_info_attr d) \<noteq> SECURE \<or> EP_GET_EXE (ep_info_attr d) \<noteq> EXECUTABLE
                   \<or> img_state d \<noteq> IMAGE_STATE_EXECUTED)
             then (Assert_failed, s)
             else
               let (rc, s) = bl1_fwu_remove_loaded_id (sec_exec_image_id s) s
               in if fwu_assertions e \<and> rc \<noteq> 0 then (Assert_failed, s)
                  else (Returned 0,
                        (upd_desc (sec_exec_image_id s) (\<lambda>d. d\<lparr>img_state := IMAGE_STATE_RESET\<rparr>) s)
                          \<lparr>sec_exec_image_id := INVALID_IMAGE_ID, fwu_next_ctx := NON_SECURE\<rparr>)))"

section \<open>Reset\<close>

text \<open>The work for an image that is loaded and not executing.\<close>

definition reset_loaded :: "fwu_env \<Rightarrow> uint32_t \<Rightarrow> image_desc_t \<Rightarrow> fwu_state \<Rightarrow> int outcome \<times> fwu_state" where
  "reset_loaded e i d s =
     (let (rc, s) = bl1_fwu_remove_loaded_id i s
      in if rc \<noteq> 0 then (Returned (- EPERM), s)
         else if copied_size d \<noteq> 0 \<and> fwu_assertions e \<and> GET_SECURITY_STATE (ep_info_attr d) \<noteq> SECURE
         then (Assert_failed, s)
         else
           let s = (if copied_size d \<noteq> 0
                    then s\<lparr>fwu_mem := zero_normalmem (image_base d) (copied_size d) (fwu_mem s)\<rparr> else s);
               s = upd_desc i (\<lambda>d. d\<lparr>copied_size := 0, image_size := 0, img_state := IMAGE_STATE_RESET\<rparr>) s
           in (Returned 0, s\<lparr>auth_img_flags := (auth_img_flags s)(i := 0)\<rparr>))"

definition bl1_fwu_image_reset :: "fwu_env \<Rightarrow> uint32_t \<Rightarrow> uint32_t \<Rightarrow> fwu_state \<Rightarrow> int outcome \<times> fwu_state" where
  "bl1_fwu_image_reset e i flags s =
     (case bl1_plat_get_image_desc i s of
        None \<Rightarrow> (Returned (- EPERM), s)
      | Some d \<Rightarrow>
          if GET_SECURITY_STATE flags = SECURE then (Returned (- EPERM), s)
          else (case img_state d of
                  IMAGE_STATE_RESET \<Rightarrow> (Returned 0, s)
                | IMAGE_STATE_EXECUTED \<Rightarrow> (if fwu_assertions e then Assert_failed else Returned 0, s)
                | _ \<Rightarrow> reset_loaded e i d s))"

section \<open>The SMC handler\<close>

abbreviation (input) FWU_SMC_IMAGE_COPY :: uint32_t where "FWU_SMC_IMAGE_COPY \<equiv> 0x10"
abbreviation (input) FWU_SMC_IMAGE_AUTH :: uint32_t where "FWU_SMC_IMAGE_AUTH \<equiv> 0x11"
abbreviation (input) FWU_SMC_IMAGE_EXECUTE :: uint32_t where "FWU_SMC_IMAGE_EXECUTE \<equiv> 0x12"
abbreviation (input) FWU_SMC_IMAGE_RESUME :: uint32_t where "FWU_SMC_IMAGE_RESUME \<equiv> 0x13"
abbreviation (input) FWU_SMC_SEC_IMAGE_DONE :: uint32_t where "FWU_SMC_SEC_IMAGE_DONE \<equiv> 0x14"
abbreviation (input) FWU_SMC_UPDATE_DONE :: uint32_t where "FWU_SMC_UPDATE_DONE \<equiv> 0x15"
abbreviation (input) FWU_SMC_IMAGE_RESET :: uint32_t where "FWU_SMC_IMAGE_RESET \<equiv> 0x16"

definition smc_ret :: "int outcome \<times> fwu_state \<Rightarrow> u_register_t outcome \<times> fwu_state" where
  "smc_ret = map_prod (map_outcome word_of_int) id"

text \<open>\<open>bl1_fwu_done\<close> calls the platform, which does not return.\<close>

definition bl1_fwu_smc_handler ::
  "fwu_env \<Rightarrow> uint32_t \<Rightarrow> u_register_t \<Rightarrow> u_register_t \<Rightarrow> u_register_t \<Rightarrow> u_register_t \<Rightarrow> uint32_t
     \<Rightarrow> fwu_state \<Rightarrow> u_register_t outcome \<times> fwu_state" where
  "bl1_fwu_smc_handler e smc_fid x1 x2 x3 x4 flags s =
     (if smc_fid = FWU_SMC_IMAGE_COPY then
        smc_ret (bl1_fwu_image_copy e (ucast x1) x2 (ucast x3) (ucast x4) flags s)
      else if smc_fid = FWU_SMC_IMAGE_AUTH then
        smc_ret (bl1_fwu_image_auth e (ucast x1) x2 (ucast x3) flags s)
      else if smc_fid = FWU_SMC_IMAGE_EXECUTE then smc_ret (bl1_fwu_image_execute e (ucast x1) flags s)
      else if smc_fid = FWU_SMC_IMAGE_RESUME then bl1_fwu_image_resume e x1 flags s
      else if smc_fid = FWU_SMC_SEC_IMAGE_DONE then smc_ret (bl1_fwu_sec_image_done e flags s)
      else if smc_fid = FWU_SMC_IMAGE_RESET then smc_ret (bl1_fwu_image_reset e (ucast x1) flags s)
      else if smc_fid = FWU_SMC_UPDATE_DONE then (Power_down, s)
      else if fwu_assertions e then (Assert_failed, s)
      else (Returned (- 1), s))"

end
