(* ===== verification/Fwu_Inv.thy ===== *)
theory Fwu_Inv
  imports Fwu
begin

text \<open>
  The invariant of the firmware update service: images in secure memory that are being copied, are
  copied or authenticated are listed as loaded, loaded secure images lie in disjoint blocks, and
  the bytes of an authenticated image are ones the authentication accepted.
\<close>

section \<open>Blocks of memory\<close>

lemma in_block_iff:
  assumes "unat base + unat n \<le> 2 ^ 64"
  shows "in_block base n a \<longleftrightarrow> unat base \<le> unat a \<and> unat a < unat base + unat n"
proof -
  have n: "unat (ucast n :: uintptr_t) = unat n"
    by (simp add: unsigned_ucast_eq take_bit_nat_eq_self unat_bound [of n, simplified] order.strict_trans [OF unat_bound])
  show ?thesis
  proof (cases "base \<le> a")
    case True
    then show ?thesis
      by (auto simp: in_block_def word_less_nat_alt word_le_nat_alt n unat_sub)
  next
    case False
    then have "unat (a - base) = unat a + 2 ^ 64 - unat base"
      by (simp add: unat_sub_if' word_le_nat_alt)
    then show ?thesis
      using False assms by (simp add: in_block_def word_less_nat_alt word_le_nat_alt n)
  qed
qed

lemma unat_ucast64 [simp]: "unat (ucast (n :: uint32_t) :: uintptr_t) = unat n"
  by (simp add: unsigned_ucast_eq take_bit_nat_eq_self order.strict_trans [OF unat_bound])

lemma mem_bytes_cong:
  assumes "\<And>a. in_block base n a \<Longrightarrow> m' a = m a"
  shows "mem_bytes m' base n = mem_bytes m base n"
proof -
  have "m' (base + of_nat i) = m (base + of_nat i)" if "i < unat n" for i
  proof (rule assms)
    have "i < 2 ^ 64" using that unat_bound [of n] by simp
    then show "in_block base n (base + of_nat i)"
      using that by (simp add: in_block_def word_less_nat_alt unat_of_nat)
  qed
  then show ?thesis by (simp add: mem_bytes_def)
qed

section \<open>Reading back the tables\<close>

lemma find_upd_first:
  assumes "\<And>x. key (f x) = key x"
  shows "List.find (\<lambda>x. key x = j) (upd_first (\<lambda>x. key x = i) f xs) =
    (if j = i then map_option f (List.find (\<lambda>x. key x = i) xs) else List.find (\<lambda>x. key x = j) xs)"
  by (induction xs) (auto simp: assms)

lemma get_upd_desc:
  assumes "\<And>d. image_id (f d) = image_id d"
  shows "bl1_plat_get_image_desc j (upd_desc i f s) =
    (if j = i then map_option f (bl1_plat_get_image_desc i s) else bl1_plat_get_image_desc j s)"
  using find_upd_first [where key = image_id, OF assms, of j i "image_descs s"]
  by (simp add: bl1_plat_get_image_desc_def upd_desc_def)

lemma upd_desc_frame [simp]:
  "bl1_fwu_loaded_ids (upd_desc i f s) = bl1_fwu_loaded_ids s" "fwu_mem (upd_desc i f s) = fwu_mem s"
  "sec_exec_image_id (upd_desc i f s) = sec_exec_image_id s" "fwu_next_ctx (upd_desc i f s) = fwu_next_ctx s"
  by (simp_all add: upd_desc_def)

lemma get_desc_frame [simp]:
  "bl1_plat_get_image_desc i (s\<lparr>fwu_mem := m\<rparr>) = bl1_plat_get_image_desc i s"
  "bl1_plat_get_image_desc i (s\<lparr>bl1_fwu_loaded_ids := l\<rparr>) = bl1_plat_get_image_desc i s"
  "bl1_plat_get_image_desc i (s\<lparr>sec_exec_image_id := x\<rparr>) = bl1_plat_get_image_desc i s"
  "bl1_plat_get_image_desc i (s\<lparr>auth_img_flags := fl\<rparr>) = bl1_plat_get_image_desc i s"
  "bl1_plat_get_image_desc i (s\<lparr>fwu_next_ctx := w\<rparr>) = bl1_plat_get_image_desc i s"
  by (simp_all add: bl1_plat_get_image_desc_def)

lemma get_desc_id: "bl1_plat_get_image_desc i s = Some d \<Longrightarrow> image_id d = i"
  by (auto simp: bl1_plat_get_image_desc_def find_Some_iff)

text \<open>The list of loaded ids has no valid id twice.\<close>

definition ids_distinct :: "uint32_t list \<Rightarrow> bool" where
  "ids_distinct ls \<longleftrightarrow> (\<forall>i \<noteq> INVALID_IMAGE_ID. count_list ls i \<le> 1)"

lemma count_upd_first:
  "x \<in> set ls \<Longrightarrow> x \<noteq> y \<Longrightarrow>
     count_list (upd_first (\<lambda>z. z = x) (\<lambda>_. y) ls) i =
       (if i = x then count_list ls x - 1 else if i = y then count_list ls y + 1 else count_list ls i)"
  by (induction ls) (auto simp: count_list_0_iff)

lemma set_count: "i \<in> set ls \<longleftrightarrow> 0 < count_list ls i"
  by (metis count_list_0_iff neq0_conv)

lemma add_loaded_id:
  assumes "bl1_fwu_add_loaded_id i s = (rc, s')" "i \<noteq> INVALID_IMAGE_ID" "ids_distinct (bl1_fwu_loaded_ids s)"
  shows "\<exists>ls. s' = s\<lparr>bl1_fwu_loaded_ids := ls\<rparr> \<and> ids_distinct ls \<and> (rc = 0 \<longrightarrow> i \<in> set ls)
    \<and> (\<forall>j. j \<noteq> INVALID_IMAGE_ID \<and> j \<noteq> i \<longrightarrow> (j \<in> set ls \<longleftrightarrow> j \<in> set (bl1_fwu_loaded_ids s)))
    \<and> (rc \<noteq> 0 \<longrightarrow> ls = bl1_fwu_loaded_ids s)"
proof (cases "i \<in> set (bl1_fwu_loaded_ids s) \<or> INVALID_IMAGE_ID \<notin> set (bl1_fwu_loaded_ids s)")
  case True
  then have "s' = s" "rc = 0 \<longrightarrow> i \<in> set (bl1_fwu_loaded_ids s)"
    using assms(1) by (auto simp: bl1_fwu_add_loaded_id_def split: if_splits)
  then show ?thesis using assms(3) by (intro exI [of _ "bl1_fwu_loaded_ids s"]) simp
next
  case False
  define ls where "ls = upd_first (\<lambda>x. x = INVALID_IMAGE_ID) (\<lambda>_. i) (bl1_fwu_loaded_ids s)"
  have c: "count_list ls j = (if j = INVALID_IMAGE_ID then count_list (bl1_fwu_loaded_ids s) INVALID_IMAGE_ID - 1
      else if j = i then count_list (bl1_fwu_loaded_ids s) i + 1 else count_list (bl1_fwu_loaded_ids s) j)" for j
    unfolding ls_def using False assms(2) by (intro count_upd_first) auto
  have "count_list (bl1_fwu_loaded_ids s) i = 0" using False by (simp add: count_list_0_iff)
  then have "ids_distinct ls" using assms(3) c by (auto simp: ids_distinct_def)
  moreover have "s' = s\<lparr>bl1_fwu_loaded_ids := ls\<rparr>" "rc = 0"
    using assms(1) False by (auto simp: bl1_fwu_add_loaded_id_def ls_def)
  ultimately show ?thesis using c assms(2) by (intro exI [of _ ls]) (simp add: set_count)
qed

lemma remove_loaded_id:
  assumes "bl1_fwu_remove_loaded_id i s = (rc, s')" "i \<noteq> INVALID_IMAGE_ID" "ids_distinct (bl1_fwu_loaded_ids s)"
  shows "\<exists>ls. s' = s\<lparr>bl1_fwu_loaded_ids := ls\<rparr> \<and> ids_distinct ls \<and> i \<notin> set ls
    \<and> (\<forall>j. j \<noteq> INVALID_IMAGE_ID \<and> j \<noteq> i \<longrightarrow> (j \<in> set ls \<longleftrightarrow> j \<in> set (bl1_fwu_loaded_ids s)))
    \<and> (rc = 0 \<longleftrightarrow> i \<in> set (bl1_fwu_loaded_ids s)) \<and> (rc \<noteq> 0 \<longrightarrow> ls = bl1_fwu_loaded_ids s)"
proof (cases "i \<in> set (bl1_fwu_loaded_ids s)")
  case False
  then show ?thesis
    using assms by (intro exI [of _ "bl1_fwu_loaded_ids s"]) (simp add: bl1_fwu_remove_loaded_id_def)
next
  case True
  define ls where "ls = upd_first (\<lambda>x. x = i) (\<lambda>_. INVALID_IMAGE_ID) (bl1_fwu_loaded_ids s)"
  have c: "count_list ls j = (if j = i then count_list (bl1_fwu_loaded_ids s) i - 1
      else if j = INVALID_IMAGE_ID then count_list (bl1_fwu_loaded_ids s) INVALID_IMAGE_ID + 1
      else count_list (bl1_fwu_loaded_ids s) j)" for j
    unfolding ls_def using True assms(2) by (intro count_upd_first) auto
  have "ids_distinct ls" using assms(3) c by (auto simp: ids_distinct_def)
  moreover have "i \<notin> set ls" using assms(2,3) c by (simp add: set_count ids_distinct_def)
  moreover have "s' = s\<lparr>bl1_fwu_loaded_ids := ls\<rparr>" "rc = 0"
    using assms(1) True by (auto simp: bl1_fwu_remove_loaded_id_def ls_def)
  ultimately show ?thesis using c assms(2) True by (intro exI [of _ ls]) (simp add: set_count)
qed

section \<open>The invariant\<close>

definition secure_desc :: "image_desc_t \<Rightarrow> bool" where
  "secure_desc d \<longleftrightarrow> GET_SECURITY_STATE (ep_info_attr d) = SECURE"

text \<open>What the platform's table must satisfy: a security state, a slot within the address space, and no copying in of a non-secure image.\<close>

definition desc_ok :: "image_desc_t \<Rightarrow> bool" where
  "desc_ok d \<longleftrightarrow> (secure_desc d \<or> GET_SECURITY_STATE (ep_info_attr d) = NON_SECURE)
     \<and> unat (image_base d) + unat (image_max_size d) \<le> 2 ^ 64
     \<and> (\<not> secure_desc d \<longrightarrow> copied_size d = 0)"

definition blocks_disjoint :: "image_desc_t \<Rightarrow> image_desc_t \<Rightarrow> bool" where
  "blocks_disjoint d d' \<longleftrightarrow>
     (\<forall>a. \<not> (in_block (image_base d) (image_size d) a \<and> in_block (image_base d') (image_size d') a))"

definition image_ok :: "fwu_env \<Rightarrow> fwu_state \<Rightarrow> uint32_t \<Rightarrow> image_desc_t \<Rightarrow> bool" where
  "image_ok e s i d \<longleftrightarrow>
     (img_state d \<in> {IMAGE_STATE_COPYING, IMAGE_STATE_COPIED, IMAGE_STATE_AUTHENTICATED}
        \<longrightarrow> i \<in> set (bl1_fwu_loaded_ids s))
     \<and> (i \<in> set (bl1_fwu_loaded_ids s) \<longrightarrow> image_size d \<le> image_max_size d \<and> copied_size d \<le> image_size d
          \<and> (img_state d = IMAGE_STATE_RESET \<longrightarrow> copied_size d = 0))
     \<and> (img_state d = IMAGE_STATE_AUTHENTICATED \<longrightarrow>
          auth_mod_verify_img e i (mem_bytes (fwu_mem s) (image_base d) (image_size d)) = 0)"

definition loaded_secure :: "fwu_state \<Rightarrow> uint32_t \<Rightarrow> image_desc_t \<Rightarrow> bool" where
  "loaded_secure s i d \<longleftrightarrow>
     bl1_plat_get_image_desc i s = Some d \<and> secure_desc d \<and> i \<in> set (bl1_fwu_loaded_ids s)"

definition fwu_inv :: "fwu_env \<Rightarrow> fwu_state \<Rightarrow> bool" where
  "fwu_inv e s \<longleftrightarrow>
     ids_distinct (bl1_fwu_loaded_ids s) \<and> bl1_plat_get_image_desc INVALID_IMAGE_ID s = None
     \<and> (\<forall>i d. bl1_plat_get_image_desc i s = Some d \<longrightarrow> desc_ok d \<and> (secure_desc d \<longrightarrow> image_ok e s i d))
     \<and> (\<forall>i j d d'. i \<noteq> j \<and> loaded_secure s i d \<and> loaded_secure s j d' \<longrightarrow> blocks_disjoint d d')"

lemma fwu_invD:
  assumes "fwu_inv e s"
  shows "ids_distinct (bl1_fwu_loaded_ids s)"
    and "bl1_plat_get_image_desc i s = Some d \<Longrightarrow> i \<noteq> INVALID_IMAGE_ID"
    and "bl1_plat_get_image_desc i s = Some d \<Longrightarrow> desc_ok d"
    and "bl1_plat_get_image_desc i s = Some d \<Longrightarrow> secure_desc d \<Longrightarrow> image_ok e s i d"
    and "i \<noteq> j \<Longrightarrow> loaded_secure s i d \<Longrightarrow> loaded_secure s j d' \<Longrightarrow> blocks_disjoint d d'"
  using assms by (auto simp: fwu_inv_def)

lemma blocks_disjoint_sym: "blocks_disjoint d d' \<Longrightarrow> blocks_disjoint d' d"
  by (auto simp: blocks_disjoint_def)

text \<open>
  A change that concerns one image: its descriptor, its membership in the list, and memory away from
  the other loaded secure images.
\<close>

lemma fwu_inv_change:
  assumes "fwu_inv e s" "bl1_plat_get_image_desc i s = Some d" "bl1_plat_get_image_desc i s' = Some d'"
    and "ep_info_attr d' = ep_info_attr d" "image_base d' = image_base d" "image_max_size d' = image_max_size d"
    and others: "\<And>j. j \<noteq> i \<Longrightarrow> bl1_plat_get_image_desc j s' = bl1_plat_get_image_desc j s"
    and ids: "ids_distinct (bl1_fwu_loaded_ids s')"
      "\<And>j. j \<noteq> INVALID_IMAGE_ID \<Longrightarrow> j \<noteq> i \<Longrightarrow> j \<in> set (bl1_fwu_loaded_ids s') \<longleftrightarrow> j \<in> set (bl1_fwu_loaded_ids s)"
    and own: "secure_desc d' \<Longrightarrow> image_ok e s' i d'" "\<not> secure_desc d' \<Longrightarrow> copied_size d' = 0"
    and sep: "\<And>j dj. j \<noteq> i \<Longrightarrow> loaded_secure s' i d' \<Longrightarrow> loaded_secure s j dj \<Longrightarrow> blocks_disjoint d' dj"
    and mem: "\<And>j dj a. j \<noteq> i \<Longrightarrow> loaded_secure s j dj \<Longrightarrow> in_block (image_base dj) (image_size dj) a \<Longrightarrow> fwu_mem s' a = fwu_mem s a"
  shows "fwu_inv e s'"
proof -
  have ne: "i \<noteq> INVALID_IMAGE_ID" using fwu_invD(2) [OF assms(1,2)] .
  have inv: "bl1_plat_get_image_desc INVALID_IMAGE_ID s' = None"
    using assms(1) others [of INVALID_IMAGE_ID] ne by (auto simp: fwu_inv_def)
  have ok: "desc_ok d'" using fwu_invD(3) [OF assms(1,2)] assms(4-6) own(2) by (simp add: desc_ok_def secure_desc_def)
  have ls: "loaded_secure s' j dj \<longleftrightarrow> loaded_secure s j dj" if "j \<noteq> i" for j dj
    using others [OF that] ids(2) [of j] that fwu_invD(2) [OF assms(1), of j dj] by (auto simp: loaded_secure_def)
  have "image_ok e s' j dj" if j: "j \<noteq> i" and g: "bl1_plat_get_image_desc j s = Some dj" "secure_desc dj" for j dj
  proof -
    have o: "image_ok e s j dj" by (rule fwu_invD(4) [OF assms(1) g])
    have l: "j \<in> set (bl1_fwu_loaded_ids s') \<longleftrightarrow> j \<in> set (bl1_fwu_loaded_ids s)"
      using ids(2) [OF fwu_invD(2) [OF assms(1) g(1)] j] .
    have "mem_bytes (fwu_mem s') (image_base dj) (image_size dj) = mem_bytes (fwu_mem s) (image_base dj) (image_size dj)"
      if "j \<in> set (bl1_fwu_loaded_ids s)"
      using that g mem [OF j] by (intro mem_bytes_cong) (simp add: loaded_secure_def)
    then show ?thesis using o l by (auto simp: image_ok_def)
  qed
  then have "\<forall>j dj. bl1_plat_get_image_desc j s' = Some dj \<longrightarrow> desc_ok dj \<and> (secure_desc dj \<longrightarrow> image_ok e s' j dj)"
    using ok own(1) others assms(3) fwu_invD(3) [OF assms(1)] by (metis option.inject)
  moreover have "blocks_disjoint dj dk"
    if "j \<noteq> k" "loaded_secure s' j dj" "loaded_secure s' k dk" for j k dj dk
  proof (cases "j = i \<or> k = i")
    case True
    then show ?thesis
    proof
      assume "j = i"
      then have "dj = d'" using that(2) assms(3) by (simp add: loaded_secure_def)
      then show ?thesis using sep [of k dk] that ls [of k dk] \<open>j = i\<close> by auto
    next
      assume "k = i"
      then have "dk = d'" using that(3) assms(3) by (simp add: loaded_secure_def)
      then show ?thesis using blocks_disjoint_sym [OF sep [of j dj]] that ls [of j dj] \<open>k = i\<close> by auto
    qed
  next
    case False
    then show ?thesis using fwu_invD(5) [OF assms(1) that(1)] that ls by blast
  qed
  ultimately show ?thesis using ids(1) inv unfolding fwu_inv_def by blast
qed

section \<open>The overlap check\<close>

lemma overlaps_loop_ok:
  "overlaps_loop e i cb ce ls s = Returned 0 \<Longrightarrow> l \<in> set ls \<Longrightarrow> l \<noteq> INVALID_IMAGE_ID \<Longrightarrow> l \<noteq> i \<Longrightarrow>
     \<exists>d. bl1_plat_get_image_desc l s = Some d
         \<and> (image_size d = 0 \<or> image_base d + ucast (image_size d) - 1 < cb \<or> ce < image_base d)"
  by (induction ls) (auto simp: Let_def split: if_splits option.splits)

lemma last_byte:
  fixes b :: uintptr_t and n :: uint32_t
  assumes "unat b + unat n \<le> 2 ^ 64" "n \<noteq> 0"
  shows "unat (b + ucast n - 1) = unat b + unat n - 1"
proof -
  have n: "0 < unat n" using assms(2) by (simp add: unat_gt_0)
  have eq: "b + ucast n - 1 = b + (ucast n - 1)" by simp
  have "unat (ucast n - 1 :: uintptr_t) = unat n - 1"
    using n unat_ucast64 [of n] by (subst unat_minus_one) (auto simp: unat_eq_zero [symmetric])
  then show ?thesis
    using assms(1) n unfolding eq by (subst unat_word_ariths(1)) simp
qed

lemma not_overlapping:
  assumes "unat (image_base d) + unat (image_size d) \<le> 2 ^ 64" "unat (image_base d') + unat (image_size d') \<le> 2 ^ 64"
    and "image_size d' \<noteq> 0"
    and "image_size d = 0 \<or> image_base d + ucast (image_size d) - 1 < image_base d'
      \<or> image_base d' + ucast (image_size d') - 1 < image_base d"
  shows "blocks_disjoint d' d"
proof (cases "image_size d = 0")
  case True
  then show ?thesis by (simp add: blocks_disjoint_def in_block_def)
next
  case False
  show ?thesis
    using assms(1,2,4) False last_byte [OF assms(1) False] last_byte [OF assms(2,3)]
    by (auto simp: blocks_disjoint_def in_block_iff word_less_nat_alt)
qed

end
