(* ===== verification/Fwu_Safe.thy ===== *)
theory Fwu_Safe
  imports Fwu_Inv
begin

text \<open>
  Every firmware update SMC keeps the invariant of \<open>Fwu_Inv\<close>, one lemma per handler, and what
  follows for every sequence of SMCs and of writes by the non-secure world: a secure image is
  entered by \<open>FWU_SMC_IMAGE_EXECUTE\<close> only with bytes the authentication module accepted.
\<close>

section \<open>Changes the invariant does not see\<close>

lemma loaded_secure_frame [simp]:
  "loaded_secure (s\<lparr>sec_exec_image_id := x\<rparr>) = loaded_secure s"
  "loaded_secure (s\<lparr>auth_img_flags := fl\<rparr>) = loaded_secure s"
  "loaded_secure (s\<lparr>fwu_next_ctx := w\<rparr>) = loaded_secure s"
  "loaded_secure (s\<lparr>fwu_mem := m\<rparr>) = loaded_secure s"
  by (simp_all add: loaded_secure_def fun_eq_iff)

lemma image_ok_frame [simp]:
  "image_ok e (s\<lparr>sec_exec_image_id := x\<rparr>) = image_ok e s"
  "image_ok e (s\<lparr>auth_img_flags := fl\<rparr>) = image_ok e s"
  "image_ok e (s\<lparr>fwu_next_ctx := w\<rparr>) = image_ok e s"
  "image_ok e (upd_desc i f s) = image_ok e s"
  by (simp_all add: image_ok_def fun_eq_iff)

lemma fwu_inv_frame [simp]:
  "fwu_inv e (s\<lparr>sec_exec_image_id := x\<rparr>) = fwu_inv e s"
  "fwu_inv e (s\<lparr>auth_img_flags := fl\<rparr>) = fwu_inv e s"
  "fwu_inv e (s\<lparr>fwu_next_ctx := w\<rparr>) = fwu_inv e s"
  by (simp_all add: fwu_inv_def)

lemma in_block_mono: "in_block b n a \<Longrightarrow> n \<le> n' \<Longrightarrow> in_block b n' a"
  by (simp add: in_block_def word_less_nat_alt word_le_nat_alt)

lemma in_block_part:
  fixes b :: uintptr_t and c n m :: uint32_t
  assumes "in_block (b + ucast c) n a" "unat c + unat n \<le> unat m" "unat b + unat m \<le> 2 ^ 64"
  shows "in_block b m a"
proof (cases "n = 0")
  case True
  then show ?thesis using assms(1) by (simp add: in_block_def)
next
  case False
  then have "0 < unat n" by (simp add: unat_gt_0)
  then have "unat (b + ucast c) = unat b + unat c"
    using assms(2,3) by (subst unat_word_ariths(1)) simp
  then show ?thesis
    using assms by (auto simp: in_block_iff)
qed

lemma secure_not_ns: "secure_desc d \<Longrightarrow> GET_SECURITY_STATE (ep_info_attr d) = NON_SECURE \<longleftrightarrow> False"
  by (simp add: secure_desc_def)

lemma desc_ok_secure: "desc_ok d \<Longrightarrow> GET_SECURITY_STATE (ep_info_attr d) \<noteq> NON_SECURE \<Longrightarrow> secure_desc d"
  by (auto simp: desc_ok_def)

text \<open>Only the state of an image changes, to one that promises nothing.\<close>

lemma fwu_inv_state:
  assumes "fwu_inv e s" "bl1_plat_get_image_desc i s = Some d"
    and "st = IMAGE_STATE_EXECUTED \<or> st = IMAGE_STATE_INTERRUPTED"
  shows "fwu_inv e (upd_desc i (\<lambda>d. d\<lparr>img_state := st\<rparr>) s)"
proof (rule fwu_inv_change [OF assms(1,2), where d' = "d\<lparr>img_state := st\<rparr>"])
  show "image_ok e (upd_desc i (\<lambda>d. d\<lparr>img_state := st\<rparr>) s) i (d\<lparr>img_state := st\<rparr>)"
    if "secure_desc (d\<lparr>img_state := st\<rparr>)"
    using fwu_invD(4) [OF assms(1,2)] that assms(3) by (auto simp: secure_desc_def image_ok_def)
  show "copied_size (d\<lparr>img_state := st\<rparr>) = 0" if "\<not> secure_desc (d\<lparr>img_state := st\<rparr>)"
    using fwu_invD(3) [OF assms(1,2)] that by (simp add: desc_ok_def secure_desc_def)
  show "blocks_disjoint (d\<lparr>img_state := st\<rparr>) dj"
    if "j \<noteq> i" "loaded_secure (upd_desc i (\<lambda>d. d\<lparr>img_state := st\<rparr>) s) i (d\<lparr>img_state := st\<rparr>)"
      "loaded_secure s j dj" for j dj
  proof -
    have "loaded_secure s i d" using that(2) assms(2) by (simp add: loaded_secure_def secure_desc_def)
    from fwu_invD(5) [OF assms(1) _ this that(3)] that(1) show ?thesis by (auto simp: blocks_disjoint_def)
  qed
qed (use assms fwu_invD(1) [OF assms(1)] in \<open>simp_all add: get_upd_desc\<close>)

text \<open>An image leaves the list; its descriptor becomes \<open>f d\<close>, and its block may be overwritten.\<close>

lemma fwu_inv_unload:
  assumes "fwu_inv e s" "bl1_plat_get_image_desc i s = Some d" "bl1_plat_get_image_desc i s' = Some d'"
    and "ep_info_attr d' = ep_info_attr d" "image_base d' = image_base d" "image_max_size d' = image_max_size d"
    and "\<And>j. j \<noteq> i \<Longrightarrow> bl1_plat_get_image_desc j s' = bl1_plat_get_image_desc j s"
    and "ids_distinct (bl1_fwu_loaded_ids s')" "i \<notin> set (bl1_fwu_loaded_ids s')"
      "\<And>j. j \<noteq> INVALID_IMAGE_ID \<Longrightarrow> j \<noteq> i \<Longrightarrow> j \<in> set (bl1_fwu_loaded_ids s') \<longleftrightarrow> j \<in> set (bl1_fwu_loaded_ids s)"
    and st: "secure_desc d \<Longrightarrow>
      img_state d' \<notin> {IMAGE_STATE_COPYING, IMAGE_STATE_COPIED, IMAGE_STATE_AUTHENTICATED}"
      "\<not> secure_desc d \<Longrightarrow> copied_size d' = 0"
    and mem: "\<And>a. fwu_mem s' a \<noteq> fwu_mem s a \<Longrightarrow>
      secure_desc d \<and> i \<in> set (bl1_fwu_loaded_ids s) \<and> in_block (image_base d) (image_size d) a"
  shows "fwu_inv e s'"
proof (rule fwu_inv_change [OF assms(1-3)])
  show "fwu_mem s' a = fwu_mem s a"
    if "j \<noteq> i" "loaded_secure s j dj" "in_block (image_base dj) (image_size dj) a" for j dj a
  proof (rule ccontr)
    assume "fwu_mem s' a \<noteq> fwu_mem s a"
    from mem [OF this] have "loaded_secure s i d" "in_block (image_base d) (image_size d) a"
      using assms(2) by (simp_all add: loaded_secure_def)
    then show False
      using fwu_invD(5) [OF assms(1) that(1) that(2)] that(3) by (auto simp: blocks_disjoint_def)
  qed
  show "image_ok e s' i d'" if "secure_desc d'"
    using that st(1) assms(4,9) by (auto simp: image_ok_def secure_desc_def)
qed (use assms in \<open>auto simp: loaded_secure_def secure_desc_def\<close>)

section \<open>The handlers\<close>

lemma execute_inv:
  assumes "fwu_inv e s" "bl1_fwu_image_execute e i flags s = (r, s')"
  shows "fwu_inv e s'"
  using assms fwu_inv_state [of e s i]
  by (auto simp: bl1_fwu_image_execute_def bl1_prepare_next_image_def split: option.splits if_splits)

lemma resume_inv:
  assumes "fwu_inv e s" "bl1_fwu_image_resume e p flags s = (r, s')"
  shows "fwu_inv e s'"
  using assms fwu_inv_state [of e s "sec_exec_image_id s"]
  by (auto simp: bl1_fwu_image_resume_def Let_def split: option.splits if_splits)

lemma done_inv:
  assumes "fwu_inv e s" "bl1_fwu_sec_image_done e flags s = (Returned rc, s')"
  shows "fwu_inv e s'"
proof (cases "GET_SECURITY_STATE flags = NON_SECURE")
  case True
  then show ?thesis using assms by (simp add: bl1_fwu_sec_image_done_def)
next
  case False
  let ?i = "sec_exec_image_id s"
  obtain d where d: "bl1_plat_get_image_desc ?i s = Some d"
    using assms(2) False by (auto simp: bl1_fwu_sec_image_done_def split: option.splits)
  obtain rc0 s0 where r: "bl1_fwu_remove_loaded_id ?i s = (rc0, s0)" by force
  obtain ls where ls: "s0 = s\<lparr>bl1_fwu_loaded_ids := ls\<rparr>" "ids_distinct ls" "?i \<notin> set ls"
      "\<forall>j. j \<noteq> INVALID_IMAGE_ID \<and> j \<noteq> ?i \<longrightarrow> (j \<in> set ls \<longleftrightarrow> j \<in> set (bl1_fwu_loaded_ids s))"
    using remove_loaded_id [OF r fwu_invD(2) [OF assms(1) d] fwu_invD(1) [OF assms(1)]] by auto
  have s': "s' = (upd_desc ?i (\<lambda>d. d\<lparr>img_state := IMAGE_STATE_RESET\<rparr>) s0)
      \<lparr>sec_exec_image_id := INVALID_IMAGE_ID, fwu_next_ctx := NON_SECURE\<rparr>"
    using assms(2) False d r ls(1) by (auto simp: bl1_fwu_sec_image_done_def Let_def split: if_splits)
  have "fwu_inv e (upd_desc ?i (\<lambda>d. d\<lparr>img_state := IMAGE_STATE_RESET\<rparr>) s0)"
    using ls fwu_invD(3) [OF assms(1) d]
    by (intro fwu_inv_unload [OF assms(1) d, where d' = "d\<lparr>img_state := IMAGE_STATE_RESET\<rparr>"])
      (simp_all add: get_upd_desc d desc_ok_def)
  then show ?thesis by (simp add: s')
qed

lemma reset_loaded_inv:
  assumes "fwu_inv e s" "bl1_plat_get_image_desc i s = Some d" "reset_loaded e i d s = (Returned rc, s')"
  shows "fwu_inv e s'"
proof -
  obtain rc0 s0 where r: "bl1_fwu_remove_loaded_id i s = (rc0, s0)" by force
  obtain ls where ls: "s0 = s\<lparr>bl1_fwu_loaded_ids := ls\<rparr>" "ids_distinct ls" "i \<notin> set ls"
      "\<forall>j. j \<noteq> INVALID_IMAGE_ID \<and> j \<noteq> i \<longrightarrow> (j \<in> set ls \<longleftrightarrow> j \<in> set (bl1_fwu_loaded_ids s))"
      "rc0 = 0 \<longleftrightarrow> i \<in> set (bl1_fwu_loaded_ids s)" "rc0 \<noteq> 0 \<longrightarrow> ls = bl1_fwu_loaded_ids s"
    using remove_loaded_id [OF r fwu_invD(2) [OF assms(1,2)] fwu_invD(1) [OF assms(1)]] by auto
  show ?thesis
  proof (cases "rc0 = 0")
    case False
    then have "s' = s" using assms(3) r ls(1,6) by (simp add: reset_loaded_def)
    then show ?thesis using assms(1) by simp
  next
    case True
    let ?m = "if copied_size d \<noteq> 0 then zero_normalmem (image_base d) (copied_size d) (fwu_mem s) else fwu_mem s"
    let ?f = "\<lambda>d. d\<lparr>copied_size := 0, image_size := 0, img_state := IMAGE_STATE_RESET\<rparr>"
    have s': "s' = (upd_desc i ?f (s0\<lparr>fwu_mem := ?m\<rparr>))\<lparr>auth_img_flags := (auth_img_flags s)(i := 0)\<rparr>"
      using assms(3) r True ls(1) by (auto simp: reset_loaded_def upd_desc_def Let_def split: if_splits)
    have m: "secure_desc d \<and> i \<in> set (bl1_fwu_loaded_ids s) \<and> in_block (image_base d) (image_size d) a"
      if "?m a \<noteq> fwu_mem s a" for a
    proof -
      have "in_block (image_base d) (copied_size d) a" "copied_size d \<noteq> 0"
        using that by (auto simp: zero_normalmem_def split: if_splits)
      moreover from this(2) have "secure_desc d" using fwu_invD(3) [OF assms(1,2)] by (auto simp: desc_ok_def)
      moreover from fwu_invD(4) [OF assms(1,2) this] True ls(5)
      have "copied_size d \<le> image_size d" by (simp add: image_ok_def)
      ultimately show ?thesis using in_block_mono True ls(5) by blast
    qed
    have "fwu_inv e (upd_desc i ?f (s0\<lparr>fwu_mem := ?m\<rparr>))"
    proof (rule fwu_inv_unload [OF assms(1,2), where d' = "?f d"])
      show "secure_desc d \<and> i \<in> set (bl1_fwu_loaded_ids s) \<and> in_block (image_base d) (image_size d) a"
        if "fwu_mem (upd_desc i ?f (s0\<lparr>fwu_mem := ?m\<rparr>)) a \<noteq> fwu_mem s a" for a
        using m [of a] that by simp
    qed (use ls(1-4) in \<open>simp_all add: get_upd_desc assms(2)\<close>)
    then show ?thesis by (simp add: s')
  qed
qed

lemma reset_inv:
  assumes "fwu_inv e s" "bl1_fwu_image_reset e i flags s = (Returned rc, s')"
  shows "fwu_inv e s'"
  using assms reset_loaded_inv [OF assms(1)]
  by (auto simp: bl1_fwu_image_reset_def split: option.splits if_splits image_state_t.splits)

text \<open>An authentication by the non-secure world: a copied secure image, or a non-secure one in place.\<close>

lemma auth_prepare_copied:
  "img_state d = IMAGE_STATE_COPIED \<Longrightarrow> auth_prepare e i d src sz s = (Inr (image_base d, image_size d), s)"
  by (simp add: auth_prepare_def)

lemma auth_secure_inv:
  assumes "fwu_inv e s" "bl1_plat_get_image_desc i s = Some d" "secure_desc d" "GET_SECURITY_STATE flags \<noteq> SECURE"
    and "bl1_fwu_image_auth e i src sz flags s = (Returned rc, s')"
  shows "fwu_inv e s'"
proof (cases "img_state d = IMAGE_STATE_COPIED")
  case False
  then show ?thesis
    using assms by (simp add: bl1_fwu_image_auth_def auth_allowed_def secure_desc_def)
next
  case True
  note ok = fwu_invD(4) [OF assms(1-3)]
  have l: "i \<in> set (bl1_fwu_loaded_ids s)" using ok True by (simp add: image_ok_def)
  let ?bytes = "mem_bytes (fwu_mem s) (image_base d) (image_size d)"
  show ?thesis
  proof (cases "auth_mod_verify_img e i ?bytes = 0")
    case good: True
    let ?f = "\<lambda>d. d\<lparr>img_state := IMAGE_STATE_AUTHENTICATED\<rparr>"
    have "s' = upd_desc i ?f (s\<lparr>auth_img_flags := (auth_img_flags s)(i := auth_img_flags s i OR 1)\<rparr>)"
      using assms(2-5) True good
      by (auto simp: bl1_fwu_image_auth_def auth_allowed_def secure_desc_def auth_prepare_copied Let_def split: if_splits)
    moreover have "fwu_inv e (upd_desc i ?f (s\<lparr>auth_img_flags := fl\<rparr>))" for fl
    proof (rule fwu_inv_change [OF assms(1,2), where d' = "?f d"])
      show "image_ok e (upd_desc i ?f (s\<lparr>auth_img_flags := fl\<rparr>)) i (?f d)" if "secure_desc (?f d)"
        using ok good l by (simp add: image_ok_def)
      show "copied_size (?f d) = 0" if "\<not> secure_desc (?f d)" using that assms(3) by (simp add: secure_desc_def)
      show "blocks_disjoint (?f d) dj" if "j \<noteq> i" "loaded_secure s j dj" for j dj
        using fwu_invD(5) [OF assms(1), of i j d dj] assms(2,3) l that by (auto simp: loaded_secure_def blocks_disjoint_def)
    qed (use assms(2) fwu_invD(1) [OF assms(1)] in \<open>simp_all add: get_upd_desc\<close>)
    ultimately show ?thesis by simp
  next
    case False
    let ?f = "\<lambda>d. d\<lparr>img_state := IMAGE_STATE_RESET\<rparr>"
    let ?s = "upd_desc i ?f (s\<lparr>fwu_mem := zero_normalmem (image_base d) (image_size d) (fwu_mem s)\<rparr>)"
    have s': "s' = snd (bl1_fwu_remove_loaded_id i ?s)"
      using assms(2-5) True False
      by (auto simp: bl1_fwu_image_auth_def auth_allowed_def secure_desc_def auth_prepare_copied Let_def split: if_splits)
    then obtain rc0 where r: "bl1_fwu_remove_loaded_id i ?s = (rc0, s')" by (metis prod.collapse)
    obtain ls where ls: "s' = ?s\<lparr>bl1_fwu_loaded_ids := ls\<rparr>" "ids_distinct ls" "i \<notin> set ls"
        "\<forall>j. j \<noteq> INVALID_IMAGE_ID \<and> j \<noteq> i \<longrightarrow> (j \<in> set ls \<longleftrightarrow> j \<in> set (bl1_fwu_loaded_ids s))"
      using remove_loaded_id [OF r fwu_invD(2) [OF assms(1,2)]] fwu_invD(1) [OF assms(1)] by auto
    show ?thesis
    proof (rule fwu_inv_unload [OF assms(1,2), where d' = "?f d"])
      show "secure_desc d \<and> i \<in> set (bl1_fwu_loaded_ids s) \<and> in_block (image_base d) (image_size d) a"
        if "fwu_mem s' a \<noteq> fwu_mem s a" for a
        using that assms(3) l ls(1) by (auto simp: zero_normalmem_def split: if_splits)
    qed (use ls(2-4) assms(2,3) in \<open>simp_all add: ls(1) get_upd_desc\<close>)
  qed
qed

text \<open>Whatever happens to a non-secure image alone keeps the invariant.\<close>

lemma fwu_inv_nonsecure:
  assumes "fwu_inv e s" "bl1_plat_get_image_desc i s = Some d" "\<not> secure_desc d"
    and "bl1_plat_get_image_desc i s' = Some d'" "ep_info_attr d' = ep_info_attr d" "image_base d' = image_base d"
      "image_max_size d' = image_max_size d" "copied_size d' = copied_size d"
    and "\<And>j. j \<noteq> i \<Longrightarrow> bl1_plat_get_image_desc j s' = bl1_plat_get_image_desc j s"
    and "ids_distinct (bl1_fwu_loaded_ids s')"
      "\<And>j. j \<noteq> INVALID_IMAGE_ID \<Longrightarrow> j \<noteq> i \<Longrightarrow> j \<in> set (bl1_fwu_loaded_ids s') \<longleftrightarrow> j \<in> set (bl1_fwu_loaded_ids s)"
    and "fwu_mem s' = fwu_mem s"
  shows "fwu_inv e s'"
  using fwu_invD(3) [OF assms(1,2)] assms(3-)
  by (intro fwu_inv_change [OF assms(1,2)]) (auto simp: loaded_secure_def secure_desc_def desc_ok_def)

lemma auth_prepare_nonsecure:
  assumes "fwu_inv e s" "bl1_plat_get_image_desc i s = Some d" "\<not> secure_desc d" "img_state d = IMAGE_STATE_RESET"
    and "auth_prepare e i d src sz s = (r, s')" "r \<noteq> Inl Assert_failed"
  shows "fwu_inv e s' \<and> (\<exists>z. bl1_plat_get_image_desc i s' = Some (d\<lparr>image_size := z\<rparr>))"
proof (cases "s' = s")
  case True
  then show ?thesis using assms(1,2) by (auto intro: exI [of _ "image_size d"])
next
  case False
  obtain rc0 s0 where a: "bl1_fwu_add_loaded_id i s = (rc0, s0)" by force
  obtain ls where ls: "s0 = s\<lparr>bl1_fwu_loaded_ids := ls\<rparr>" "ids_distinct ls"
      "\<forall>j. j \<noteq> INVALID_IMAGE_ID \<and> j \<noteq> i \<longrightarrow> (j \<in> set ls \<longleftrightarrow> j \<in> set (bl1_fwu_loaded_ids s))"
      "rc0 \<noteq> 0 \<longrightarrow> ls = bl1_fwu_loaded_ids s"
    using add_loaded_id [OF a fwu_invD(2) [OF assms(1,2)] fwu_invD(1) [OF assms(1)]] by auto
  have s': "s' = upd_desc i (\<lambda>d. d\<lparr>image_size := sz\<rparr>) s0"
    using assms(4-6) False a ls(1,4) by (auto simp: auth_prepare_def Let_def split: if_splits outcome.splits)
  have "fwu_inv e s'"
    by (rule fwu_inv_nonsecure [OF assms(1-3), where d' = "d\<lparr>image_size := sz\<rparr>"])
      (use ls(2,3) assms(2) in \<open>simp_all add: s' ls(1) get_upd_desc\<close>)
  then show ?thesis by (auto simp: s' ls(1) get_upd_desc assms(2))
qed

lemma auth_nonsecure_inv:
  assumes "fwu_inv e s" "bl1_plat_get_image_desc i s = Some d" "\<not> secure_desc d"
    and "bl1_fwu_image_auth e i src sz flags s = (Returned rc, s')"
  shows "fwu_inv e s'"
proof (cases "auth_allowed d flags")
  case False
  then show ?thesis using assms by (simp add: bl1_fwu_image_auth_def)
next
  case True
  have st: "img_state d = IMAGE_STATE_RESET"
    using True assms(3) by (auto simp: auth_allowed_def secure_desc_def split: if_splits)
  obtain r s0 where p: "auth_prepare e i d src sz s = (r, s0)" by force
  have "r \<noteq> Inl Assert_failed" using assms(2,4) True p by (auto simp: bl1_fwu_image_auth_def)
  from auth_prepare_nonsecure [OF assms(1-3) st p this] obtain z
    where inv0: "fwu_inv e s0" and g0: "bl1_plat_get_image_desc i s0 = Some (d\<lparr>image_size := z\<rparr>)" by auto
  have ns: "\<not> secure_desc (d\<lparr>image_size := z\<rparr>)" using assms(3) by (simp add: secure_desc_def)
  obtain rc0 s1 where r1: "bl1_fwu_remove_loaded_id i s0 = (rc0, s1)" by force
  obtain ls where ls: "s1 = s0\<lparr>bl1_fwu_loaded_ids := ls\<rparr>" "ids_distinct ls"
      "\<forall>j. j \<noteq> INVALID_IMAGE_ID \<and> j \<noteq> i \<longrightarrow> (j \<in> set ls \<longleftrightarrow> j \<in> set (bl1_fwu_loaded_ids s0))"
    using remove_loaded_id [OF r1 fwu_invD(2) [OF assms(1,2)] fwu_invD(1) [OF inv0]] by auto
  have inv1: "fwu_inv e s1"
    by (rule fwu_inv_nonsecure [OF inv0 g0 ns, where d' = "d\<lparr>image_size := z\<rparr>"])
      (use ls(2,3) g0 in \<open>simp_all add: ls(1)\<close>)
  let ?f = "\<lambda>d. d\<lparr>img_state := IMAGE_STATE_AUTHENTICATED\<rparr>"
  have inv2: "fwu_inv e (upd_desc i ?f (s0\<lparr>auth_img_flags := fl\<rparr>))" for fl
    by (rule fwu_inv_nonsecure [OF inv0 g0 ns, where d' = "?f (d\<lparr>image_size := z\<rparr>)"])
      (use g0 fwu_invD(1) [OF inv0] in \<open>simp_all add: get_upd_desc\<close>)
  show ?thesis
  proof (cases r)
    case (Inl x)
    then show ?thesis using assms(2,4) True p inv0 by (simp add: bl1_fwu_image_auth_def)
  next
    case (Inr x)
    show ?thesis
      using assms(2,4) True p inv1 inv2 Inr st r1
      by (auto simp: bl1_fwu_image_auth_def Let_def split: if_splits prod.splits)
  qed
qed

section \<open>Copying\<close>

lemma check_overlaps_disjoint:
  assumes "bl1_fwu_image_check_overlaps e i s = Returned 0" "bl1_plat_get_image_desc i s = Some d"
    and "desc_ok d" "image_size d \<le> image_max_size d" "image_size d \<noteq> 0"
    and "loaded_secure s j dj" "j \<noteq> i" "j \<noteq> INVALID_IMAGE_ID" "desc_ok dj" "image_size dj \<le> image_max_size dj"
  shows "blocks_disjoint d dj"
proof -
  have "overlaps_loop e i (image_base d) (image_base d + ucast (image_size d) - 1) (bl1_fwu_loaded_ids s) s = Returned 0"
    using assms(1,2) by (auto simp: bl1_fwu_image_check_overlaps_def split: if_splits)
  from overlaps_loop_ok [OF this, of j] assms(6-8)
  have "image_size dj = 0 \<or> image_base dj + ucast (image_size dj) - 1 < image_base d
      \<or> image_base d + ucast (image_size d) - 1 < image_base dj"
    by (auto simp: loaded_secure_def)
  then show ?thesis
    using assms(3-5,9,10) by (intro not_overlapping) (auto simp: desc_ok_def word_le_nat_alt)
qed

text \<open>What the copy may rely on once the request has been checked.\<close>

definition copy_ready :: "fwu_env \<Rightarrow> uint32_t \<Rightarrow> fwu_state \<Rightarrow> image_desc_t \<Rightarrow> bool" where
  "copy_ready e i s d \<longleftrightarrow>
     fwu_inv e s \<and> bl1_plat_get_image_desc i s = Some d \<and> secure_desc d
     \<and> (img_state d = IMAGE_STATE_RESET \<and> copied_size d = 0 \<or> img_state d = IMAGE_STATE_COPYING)
     \<and> image_size d \<le> image_max_size d \<and> copied_size d \<le> image_size d
     \<and> (\<forall>j dj. j \<noteq> i \<and> loaded_secure s j dj \<longrightarrow> blocks_disjoint d dj)"

lemma upd_desc_cong:
  "bl1_plat_get_image_desc i s = Some d \<Longrightarrow> f d = g d \<Longrightarrow> upd_desc i f s = upd_desc i g s"
proof -
  have "List.find P xs = Some d \<Longrightarrow> f d = g d \<Longrightarrow> upd_first P f xs = upd_first P g xs" for P xs
    by (induction xs) (auto split: if_splits)
  then show "bl1_plat_get_image_desc i s = Some d \<Longrightarrow> f d = g d \<Longrightarrow> upd_desc i f s = upd_desc i g s"
    by (simp add: bl1_plat_get_image_desc_def upd_desc_def)
qed

lemma overlaps_loop_outcome: "overlaps_loop e i cb ce ls s \<noteq> Panicked \<and> overlaps_loop e i cb ce ls s \<noteq> Power_down"
  by (induction ls) (auto simp: Let_def split: option.splits)

lemma resize_inv:
  assumes "fwu_inv e s" "bl1_plat_get_image_desc i s = Some d" "secure_desc d" "img_state d = IMAGE_STATE_RESET"
    and "bl1_plat_get_image_desc i s' = Some (d\<lparr>image_size := z, copied_size := c\<rparr>)"
    and "\<And>j. j \<noteq> i \<Longrightarrow> bl1_plat_get_image_desc j s' = bl1_plat_get_image_desc j s"
    and "bl1_fwu_loaded_ids s' = bl1_fwu_loaded_ids s" "fwu_mem s' = fwu_mem s"
    and "i \<in> set (bl1_fwu_loaded_ids s) \<Longrightarrow> c = 0" "z \<le> image_max_size d"
    and "\<And>j dj. j \<noteq> i \<Longrightarrow> loaded_secure s j dj \<Longrightarrow> blocks_disjoint (d\<lparr>image_size := z, copied_size := c\<rparr>) dj"
  shows "fwu_inv e s'"
  using assms(3-) fwu_invD(1) [OF assms(1)]
  by (intro fwu_inv_change [OF assms(1,2,5)]) (auto simp: image_ok_def secure_desc_def)

lemma blocks_disjoint_empty: "image_size d = 0 \<Longrightarrow> blocks_disjoint d dj"
  by (simp add: blocks_disjoint_def in_block_def)

lemma loaded_secure_upd_other:
  "(\<And>d. image_id (f d) = image_id d) \<Longrightarrow> j \<noteq> i \<Longrightarrow> loaded_secure (upd_desc i f s) j = loaded_secure s j"
  by (simp add: loaded_secure_def get_upd_desc fun_eq_iff)

lemma copy_prepare_fresh:
  assumes "fwu_inv e s" "bl1_plat_get_image_desc i s = Some d" "secure_desc d" "img_state d = IMAGE_STATE_RESET"
    and "copy_prepare e i d sz s = (r, s')" "r \<noteq> Inl Assert_failed"
  shows "fwu_inv e s' \<and> (\<forall>n. r = Inr n \<longrightarrow>
    n = sz \<and> copy_ready e i s' (d\<lparr>image_size := sz, copied_size := 0\<rparr>))"
proof (cases "sz = 0 \<or> sz > image_max_size d")
  case True
  then show ?thesis using assms by (auto simp: copy_prepare_def split: if_splits)
next
  case False
  let ?s1 = "upd_desc i (\<lambda>d. d\<lparr>image_size := sz\<rparr>) s"
  have g1: "bl1_plat_get_image_desc j ?s1 =
      (if j = i then Some (d\<lparr>image_size := sz\<rparr>) else bl1_plat_get_image_desc j s)" for j
    by (simp add: get_upd_desc assms(2))
  have unl: "i \<in> set (bl1_fwu_loaded_ids s) \<Longrightarrow> copied_size d = 0"
    using fwu_invD(4) [OF assms(1-3)] assms(4) by (simp add: image_ok_def)
  obtain rc where rc: "bl1_fwu_image_check_overlaps e i ?s1 = Returned rc"
    using assms(4-6) False g1 [of i]
    by (cases "bl1_fwu_image_check_overlaps e i ?s1")
      (auto simp: copy_prepare_def Let_def bl1_fwu_image_check_overlaps_def overlaps_loop_outcome split: if_splits)
  show ?thesis
  proof (cases "rc = 0")
    case bad: False
    then have s': "s' = upd_desc i (\<lambda>d. d\<lparr>image_size := 0\<rparr>) ?s1" "r = Inl (Returned (- EPERM))"
      using assms(4,5) False rc by (auto simp: copy_prepare_def Let_def)
    have "fwu_inv e s'"
      by (rule resize_inv [OF assms(1-4), where z = 0 and c = "copied_size d"])
        (use unl in \<open>simp_all add: s' get_upd_desc assms(2) blocks_disjoint_empty\<close>)
    then show ?thesis by (simp add: s')
  next
    case True
    then have s': "s' = upd_desc i (\<lambda>d. d\<lparr>copied_size := 0\<rparr>) ?s1" "r = Inr sz"
      using assms(4,5) False rc by (auto simp: copy_prepare_def Let_def)
    have dis: "blocks_disjoint (d\<lparr>image_size := sz, copied_size := 0\<rparr>) dj"
      if j: "j \<noteq> i" "loaded_secure s j dj" for j dj
    proof -
      have gj: "bl1_plat_get_image_desc j s = Some dj" "secure_desc dj" "j \<in> set (bl1_fwu_loaded_ids s)"
        using j(2) by (simp_all add: loaded_secure_def)
      have "loaded_secure ?s1 j dj" using j by (simp add: loaded_secure_upd_other)
      then have "blocks_disjoint (d\<lparr>image_size := sz\<rparr>) dj"
        using rc True False j(1) fwu_invD(2,3) [OF assms(1) gj(1)] fwu_invD(4) [OF assms(1) gj(1,2)] gj(3)
          fwu_invD(3) [OF assms(1,2)] assms(3)
        by (intro check_overlaps_disjoint [of e i ?s1])
          (auto simp: g1 image_ok_def desc_ok_def secure_desc_def)
      then show ?thesis by (simp add: blocks_disjoint_def)
    qed
    have g': "bl1_plat_get_image_desc i s' = Some (d\<lparr>image_size := sz, copied_size := 0\<rparr>)"
      by (simp add: s' get_upd_desc assms(2))
    have "fwu_inv e s'"
      by (rule resize_inv [OF assms(1-4) g'])
        (use False dis in \<open>auto simp: s' get_upd_desc\<close>)
    moreover have "loaded_secure s' j = loaded_secure s j" if "j \<noteq> i" for j
      using that by (simp add: s' loaded_secure_upd_other)
    ultimately show ?thesis
      using g' dis assms(3,4) False by (auto simp: s'(2) copy_ready_def secure_desc_def)
  qed
qed

lemma copy_prepare_later:
  assumes "fwu_inv e s" "bl1_plat_get_image_desc i s = Some d" "secure_desc d" "img_state d = IMAGE_STATE_COPYING"
    and "copy_prepare e i d sz s = (r, s')" "r \<noteq> Inl Assert_failed"
  shows "s' = s \<and> r = Inr (image_size d) \<and> copy_ready e i s d"
proof -
  have l: "loaded_secure s i d" using fwu_invD(4) [OF assms(1-3)] assms(2-4) by (simp add: image_ok_def loaded_secure_def)
  have "\<forall>j dj. j \<noteq> i \<and> loaded_secure s j dj \<longrightarrow> blocks_disjoint d dj"
    using fwu_invD(5) [OF assms(1) _ l] by metis
  then have "copy_ready e i s d"
    using assms(1-4) fwu_invD(4) [OF assms(1-3)] by (simp add: copy_ready_def image_ok_def)
  then show ?thesis using assms(4-6) by (auto simp: copy_prepare_def split: if_splits)
qed

lemma copy_ready_add:
  assumes "copy_ready e i s d" "bl1_fwu_add_loaded_id i s = (rc, s')"
  shows "fwu_inv e s' \<and> (rc = 0 \<longrightarrow> copy_ready e i s' d \<and> i \<in> set (bl1_fwu_loaded_ids s'))"
proof -
  have r: "fwu_inv e s" "bl1_plat_get_image_desc i s = Some d" "secure_desc d"
    using assms(1) by (simp_all add: copy_ready_def)
  obtain ls where ls: "s' = s\<lparr>bl1_fwu_loaded_ids := ls\<rparr>" "ids_distinct ls" "rc = 0 \<longrightarrow> i \<in> set ls"
      "\<forall>j. j \<noteq> INVALID_IMAGE_ID \<and> j \<noteq> i \<longrightarrow> (j \<in> set ls \<longleftrightarrow> j \<in> set (bl1_fwu_loaded_ids s))"
      "rc \<noteq> 0 \<longrightarrow> ls = bl1_fwu_loaded_ids s"
    using add_loaded_id [OF assms(2) fwu_invD(2) [OF r(1,2)] fwu_invD(1) [OF r(1)]] by auto
  show ?thesis
  proof (cases "rc = 0")
    case False
    then show ?thesis using ls(1,5) r(1) by simp
  next
    case True
    have "fwu_inv e s'"
      by (rule fwu_inv_change [OF r(1,2), where d' = d])
        (use assms(1) ls True in \<open>auto simp: copy_ready_def image_ok_def\<close>)
    moreover have "loaded_secure s' j dj \<longleftrightarrow> loaded_secure s j dj" if "j \<noteq> i" for j dj
      using that ls(1,4) fwu_invD(2) [OF r(1), of j dj] by (auto simp: loaded_secure_def)
    ultimately show ?thesis using assms(1) ls(1,3) True by (auto simp: copy_ready_def)
  qed
qed

lemma copy_block_inv:
  assumes "copy_ready e i s d" "i \<in> set (bl1_fwu_loaded_ids s)" "block \<le> image_size d - copied_size d"
  shows "fwu_inv e (copy_block i src block (image_size d - copied_size d) d s)"
proof -
  let ?rem = "image_size d - copied_size d"
  let ?f = "\<lambda>d. d\<lparr>copied_size := copied_size d + block,
      img_state := if block = ?rem then IMAGE_STATE_COPIED else IMAGE_STATE_COPYING\<rparr>"
  have r: "fwu_inv e s" "bl1_plat_get_image_desc i s = Some d" "secure_desc d"
      "image_size d \<le> image_max_size d" "copied_size d \<le> image_size d"
      "\<forall>j dj. j \<noteq> i \<and> loaded_secure s j dj \<longrightarrow> blocks_disjoint d dj"
    using assms(1) by (simp_all add: copy_ready_def)
  have rem: "unat ?rem = unat (image_size d) - unat (copied_size d)"
    using r(5) by (simp add: unat_sub)
  have sum: "unat (copied_size d) + unat block \<le> unat (image_size d)"
    using assms(3) rem r(5) by (simp add: word_le_nat_alt)
  have le: "copied_size d + block \<le> image_size d"
    using sum unat_bound [of "image_size d"] by (simp add: word_le_nat_alt unat_word_ariths)
  show ?thesis
    unfolding copy_block_def
  proof (rule fwu_inv_change [OF r(1,2), where d' = "?f d"])
    show "copied_size (?f d) = 0" if "\<not> secure_desc (?f d)" using that r(3) by (simp add: secure_desc_def)
    show "blocks_disjoint (?f d) dj" if "j \<noteq> i" "loaded_secure s j dj" for j dj
      using r(6) that by (simp add: blocks_disjoint_def)
    show "fwu_mem (upd_desc i ?f (s\<lparr>fwu_mem := mem_copy (image_base d + ucast (copied_size d)) src block (fwu_mem s)\<rparr>)) a
        = fwu_mem s a"
      if "j \<noteq> i" "loaded_secure s j dj" "in_block (image_base dj) (image_size dj) a" for j dj a
    proof -
      have "\<not> in_block (image_base d) (image_size d) a"
        using r(6) that by (auto simp: blocks_disjoint_def)
      then have "\<not> in_block (image_base d + ucast (copied_size d)) block a"
        using in_block_part [OF _ sum, of "image_base d" a] fwu_invD(3) [OF r(1,2)] r(4)
        by (auto simp: desc_ok_def word_le_nat_alt)
      then show ?thesis by (simp add: mem_copy_def)
    qed
  qed (use assms(2) le r(2-4) fwu_invD(1) [OF r(1)] in \<open>simp_all add: get_upd_desc image_ok_def\<close>)
qed

lemma copy_inv:
  assumes "fwu_inv e s" "bl1_fwu_image_copy e i src block sz flags s = (Returned rc, s')"
  shows "fwu_inv e s'"
proof (cases "s' = s")
  case True
  then show ?thesis using assms(1) by simp
next
  case False
  obtain d where d: "bl1_plat_get_image_desc i s = Some d" "GET_SECURITY_STATE (ep_info_attr d) \<noteq> NON_SECURE"
      "img_state d = IMAGE_STATE_RESET \<or> img_state d = IMAGE_STATE_COPYING"
    using assms(2) False by (auto simp: bl1_fwu_image_copy_def split: option.splits if_splits)
  have sec: "secure_desc d" using desc_ok_secure [OF fwu_invD(3) [OF assms(1) d(1)] d(2)] .
  obtain r s0 where p: "copy_prepare e i d sz s = (r, s0)" by force
  have body: "(case r of Inl r \<Rightarrow> (r, s0) | Inr sz \<Rightarrow>
      let d = the (bl1_plat_get_image_desc i s0);
          remaining = sz - copied_size d;
          block_size = (if block > remaining then remaining else block)
      in case bl1_plat_mem_check e src block_size flags of
           Returned rc \<Rightarrow>
             if rc \<noteq> 0 then (Returned (- ENOMEM), s0)
             else
               let (rc, s) = bl1_fwu_add_loaded_id i s0
               in if rc \<noteq> 0 then (Returned (- ENOMEM), s)
                  else if img_state d = IMAGE_STATE_RESET \<and> bl1_plat_handle_pre_image_load e i \<noteq> 0
                  then (Returned (- EPERM), s)
                  else (Returned 0, copy_block i src block_size remaining d s)
         | r \<Rightarrow> (r, s0)) = (Returned rc, s')"
    using assms(2) False d p by (auto simp: bl1_fwu_image_copy_def split: if_splits sum.splits)
  then have ne: "r \<noteq> Inl Assert_failed" by auto
  have inv0: "fwu_inv e s0 \<and> (\<forall>n. r = Inr n \<longrightarrow> (\<exists>d'. image_size d' = n \<and> copy_ready e i s0 d'))"
    using d(3)
  proof
    assume "img_state d = IMAGE_STATE_RESET"
    from copy_prepare_fresh [OF assms(1) d(1) sec this p ne] show ?thesis
      by (auto intro: exI [of _ "d\<lparr>image_size := sz, copied_size := 0\<rparr>"])
  next
    assume "img_state d = IMAGE_STATE_COPYING"
    from copy_prepare_later [OF assms(1) d(1) sec this p ne] show ?thesis using assms(1) by auto
  qed
  show ?thesis
  proof (cases r)
    case (Inl x)
    then show ?thesis using body inv0 by simp
  next
    case (Inr n)
    then obtain d' where d': "image_size d' = n" "copy_ready e i s0 d'" using inv0 by auto
    obtain rc1 s1 where a: "bl1_fwu_add_loaded_id i s0 = (rc1, s1)" by force
    from copy_ready_add [OF d'(2) a] have inv1: "fwu_inv e s1"
      "rc1 = 0 \<Longrightarrow> copy_ready e i s1 d'" "rc1 = 0 \<Longrightarrow> i \<in> set (bl1_fwu_loaded_ids s1)" by auto
    have g: "bl1_plat_get_image_desc i s0 = Some d'" using d'(2) by (simp add: copy_ready_def)
    show ?thesis
      using body inv0 inv1 a g d'(1) Inr copy_block_inv [OF inv1(2,3)]
      by (auto simp: Let_def split: if_splits outcome.splits)
  qed
qed

section \<open>The whole service\<close>

lemma smc_ret_Returned: "smc_ret x = (Returned r, s') \<longleftrightarrow> (\<exists>rc. x = (Returned rc, s') \<and> r = word_of_int rc)"
  by (cases x; cases "fst x") (auto simp: smc_ret_def)

lemma handler_inv:
  assumes "fwu_inv e s" "bl1_fwu_smc_handler e fid x1 x2 x3 x4 flags s = (Returned r, s')"
    and "GET_SECURITY_STATE flags = SECURE \<Longrightarrow> fid \<noteq> FWU_SMC_IMAGE_AUTH"
  shows "fwu_inv e s'"
proof (cases "fid = FWU_SMC_IMAGE_AUTH")
  case True
  let ?i = "ucast x1 :: uint32_t"
  obtain rc where a: "bl1_fwu_image_auth e ?i x2 (ucast x3) flags s = (Returned rc, s')"
    using assms(2) True by (auto simp: bl1_fwu_smc_handler_def smc_ret_Returned)
  show ?thesis
  proof (cases "bl1_plat_get_image_desc ?i s")
    case None
    then show ?thesis using a assms(1) by (simp add: bl1_fwu_image_auth_def)
  next
    case (Some d)
    then show ?thesis
      using auth_secure_inv [OF assms(1) Some _ _ a] auth_nonsecure_inv [OF assms(1) Some _ a] assms(3) True by blast
  qed
next
  case False
  then show ?thesis
    using assms(1,2) copy_inv [OF assms(1)] execute_inv [OF assms(1)] resume_inv [OF assms(1)]
      done_inv [OF assms(1)] reset_inv [OF assms(1)]
    by (auto simp: bl1_fwu_smc_handler_def smc_ret_Returned split: if_splits)
qed

text \<open>
  The system: an SMC of either world, a write of the non-secure world, which cannot touch the
  memory set aside for secure images, or a write of the secure image that is executing, which
  leaves the slots of the other secure images alone. The environment is constant. The image that
  runs in the secure world does not itself authenticate images in place.
\<close>

inductive fwu_step :: "fwu_env \<Rightarrow> fwu_state \<Rightarrow> fwu_state \<Rightarrow> bool" where
  smc: "bl1_fwu_smc_handler e fid x1 x2 x3 x4 flags s = (Returned r, s') \<Longrightarrow>
     (GET_SECURITY_STATE flags = SECURE \<Longrightarrow> fid \<noteq> FWU_SMC_IMAGE_AUTH) \<Longrightarrow> fwu_step e s s'"
| ns_write: "(\<And>a j d. m a \<noteq> fwu_mem s a \<Longrightarrow> bl1_plat_get_image_desc j s = Some d \<Longrightarrow> secure_desc d \<Longrightarrow>
       \<not> in_block (image_base d) (image_max_size d) a) \<Longrightarrow>
     fwu_step e s (s\<lparr>fwu_mem := m\<rparr>)"
| sec_write: "bl1_plat_get_image_desc (sec_exec_image_id s) s = Some d0 \<Longrightarrow> img_state d0 = IMAGE_STATE_EXECUTED \<Longrightarrow>
     (\<And>a j d. m a \<noteq> fwu_mem s a \<Longrightarrow> j \<noteq> sec_exec_image_id s \<Longrightarrow> bl1_plat_get_image_desc j s = Some d \<Longrightarrow>
       secure_desc d \<Longrightarrow> \<not> in_block (image_base d) (image_max_size d) a) \<Longrightarrow>
     fwu_step e s (s\<lparr>fwu_mem := m\<rparr>)"

lemma write_inv:
  assumes "fwu_inv e s"
    and "\<And>a j d. m a \<noteq> fwu_mem s a \<Longrightarrow> bl1_plat_get_image_desc j s = Some d \<Longrightarrow> secure_desc d \<Longrightarrow>
       img_state d = IMAGE_STATE_AUTHENTICATED \<Longrightarrow> \<not> in_block (image_base d) (image_max_size d) a"
  shows "fwu_inv e (s\<lparr>fwu_mem := m\<rparr>)"
proof -
  have "image_ok e (s\<lparr>fwu_mem := m\<rparr>) j d" if "bl1_plat_get_image_desc j s = Some d" "secure_desc d" for j d
  proof -
    have o: "image_ok e s j d" by (rule fwu_invD(4) [OF assms(1) that])
    have "mem_bytes m (image_base d) (image_size d) = mem_bytes (fwu_mem s) (image_base d) (image_size d)"
      if st: "img_state d = IMAGE_STATE_AUTHENTICATED"
    proof (rule mem_bytes_cong)
      fix a assume a: "in_block (image_base d) (image_size d) a"
      have "image_size d \<le> image_max_size d" using o st by (simp add: image_ok_def)
      from in_block_mono [OF a this] show "m a = fwu_mem s a"
        using assms(2) [of a j d] that st \<open>bl1_plat_get_image_desc j s = Some d\<close> \<open>secure_desc d\<close> by blast
    qed
    then show ?thesis using o by (auto simp: image_ok_def)
  qed
  then show ?thesis using assms(1) by (simp add: fwu_inv_def)
qed

lemma fwu_step_inv: "fwu_step e s s' \<Longrightarrow> fwu_inv e s \<Longrightarrow> fwu_inv e s'"
proof (induction rule: fwu_step.induct)
  case smc
  then show ?case using handler_inv by blast
next
  case ns_write
  then show ?case by (intro write_inv) auto
next
  case (sec_write s d0 m e)
  show ?case
  proof (rule write_inv [OF sec_write.prems])
    fix a j d
    assume h: "m a \<noteq> fwu_mem s a" "bl1_plat_get_image_desc j s = Some d" "secure_desc d"
      "img_state d = IMAGE_STATE_AUTHENTICATED"
    then have "j \<noteq> sec_exec_image_id s" using sec_write.hyps(1,2) by auto
    then show "\<not> in_block (image_base d) (image_max_size d) a" using sec_write.hyps(3) h by blast
  qed
qed

text \<open>The tables as BL1 starts with them.\<close>

definition fwu_booted :: "fwu_env \<times> fwu_state \<Rightarrow> bool" where
  "fwu_booted x \<longleftrightarrow>
     (\<forall>d \<in> set (image_descs (snd x)). image_id d \<noteq> INVALID_IMAGE_ID \<and> desc_ok d
        \<and> (secure_desc d \<longrightarrow> img_state d = IMAGE_STATE_RESET))
     \<and> set (bl1_fwu_loaded_ids (snd x)) \<subseteq> {INVALID_IMAGE_ID}
     \<and> sec_exec_image_id (snd x) = INVALID_IMAGE_ID"

definition fwu_next :: "fwu_env \<times> fwu_state \<Rightarrow> fwu_env \<times> fwu_state \<Rightarrow> bool" where
  "fwu_next x y \<longleftrightarrow> fst y = fst x \<and> fwu_step (fst x) (snd x) (snd y)"

definition fwu_good :: "fwu_env \<times> fwu_state \<Rightarrow> bool" where
  "fwu_good x \<longleftrightarrow> fwu_inv (fst x) (snd x)"

lemma get_desc_set: "bl1_plat_get_image_desc i s = Some d \<Longrightarrow> d \<in> set (image_descs s)"
  by (auto simp: bl1_plat_get_image_desc_def find_Some_iff)

lemma booted_inv:
  assumes "fwu_booted (e, s)"
  shows "fwu_inv e s"
proof -
  have ids: "i \<in> set (bl1_fwu_loaded_ids s) \<Longrightarrow> i = INVALID_IMAGE_ID" for i
    using assms by (auto simp: fwu_booted_def)
  have d: "d \<in> set (image_descs s) \<Longrightarrow> image_id d \<noteq> INVALID_IMAGE_ID \<and> desc_ok d
      \<and> (secure_desc d \<longrightarrow> img_state d = IMAGE_STATE_RESET)" for d
    using assms by (auto simp: fwu_booted_def)
  have none: "bl1_plat_get_image_desc INVALID_IMAGE_ID s = None"
  proof (rule ccontr)
    assume "bl1_plat_get_image_desc INVALID_IMAGE_ID s \<noteq> None"
    then obtain x where "bl1_plat_get_image_desc INVALID_IMAGE_ID s = Some x" by blast
    from d [OF get_desc_set [OF this]] get_desc_id [OF this] show False by simp
  qed
  have nl: "bl1_plat_get_image_desc i s = Some d \<Longrightarrow> i \<notin> set (bl1_fwu_loaded_ids s)" for i d
    using ids [of i] none by auto
  have ok: "desc_ok x \<and> (secure_desc x \<longrightarrow> image_ok e s i x)" if "bl1_plat_get_image_desc i s = Some x" for i x
    using d [OF get_desc_set [OF that]] nl [OF that] by (simp add: image_ok_def)
  have "count_list (bl1_fwu_loaded_ids s) i = 0" if "i \<noteq> INVALID_IMAGE_ID" for i
    using ids [of i] that by (auto simp: count_list_0_iff)
  then have "ids_distinct (bl1_fwu_loaded_ids s)" by (simp add: ids_distinct_def)
  then show ?thesis
    using none ok nl unfolding fwu_inv_def loaded_secure_def by blast
qed

interpretation fwu_sys: inductive_invariant fwu_booted fwu_next fwu_good
proof
  show "fwu_good x" if "fwu_booted x" for x
    using booted_inv [of "fst x" "snd x"] that by (simp add: fwu_good_def)
  show "fwu_good y" if "fwu_good x" "fwu_next x y" for x y
    using fwu_step_inv that by (auto simp: fwu_good_def fwu_next_def)
qed

end
