(* ===== verification/Fwu_Correct.thy ===== *)
theory Fwu_Correct
  imports Fwu_Safe
begin

text \<open>
  The properties of the firmware update service: what is executed has been authenticated, the
  debug build follows the documented state machine and a release build can leave it, the overlap
  check is exact, and copying in blocks completes.
\<close>

section \<open>A platform for the examples\<close>

text \<open>
  One secure executable image, id 3, with a slot of 16 bytes at \<open>0x1000\<close>. The authentication
  module accepts images that start with byte \<open>0xA5\<close>.
\<close>

definition demo_fwu_env :: "bool \<Rightarrow> fwu_env" where
  "demo_fwu_env asserts =
     \<lparr>fwu_assertions = asserts,
      auth_mod_verify_img = (\<lambda>i bytes. if bytes \<noteq> [] \<and> hd bytes = 0xA5 then 0 else - 1),
      bl1_plat_handle_pre_image_load = (\<lambda>_. 0), bl1_plat_handle_post_image_load = (\<lambda>_. 0),
      fwu_addr_map_secure = [(0x1000, 0x1000)], fwu_addr_map_non_secure = [(0x8000, 0x1000)]\<rparr>"

definition demo_image :: "image_state_t \<Rightarrow> uint32_t \<Rightarrow> uint32_t \<Rightarrow> image_desc_t" where
  "demo_image st c n = \<lparr>image_id = 3, img_state = st, copied_size = c, image_base = 0x1000,
     image_size = n, image_max_size = 16, ep_info_attr = 8\<rparr>"

definition demo_state ::
  "image_desc_t \<Rightarrow> uint32_t \<Rightarrow> uint32_t \<Rightarrow> (uintptr_t \<Rightarrow> uint8_t) \<Rightarrow> uint32_t \<Rightarrow> uint32_t \<Rightarrow> fwu_state" where
  "demo_state d l x m fl ctx =
     \<lparr>image_descs = [d], bl1_fwu_loaded_ids = l # replicate 9 INVALID_IMAGE_ID, sec_exec_image_id = x,
      fwu_mem = m, auth_img_flags = (\<lambda>_. 0)(3 := fl), fwu_next_ctx = ctx\<rparr>"

definition demo_mem :: "uintptr_t \<Rightarrow> uint8_t" where
  "demo_mem a = (if a = 0x8000 then 0xA5 else 0)"

definition demo_fwu_state :: fwu_state where
  "demo_fwu_state = demo_state (demo_image IMAGE_STATE_RESET 0 0) INVALID_IMAGE_ID INVALID_IMAGE_ID demo_mem 0 NON_SECURE"



text \<open>A request of the non-secure world, and the state after a list of requests.\<close>

type_synonym fwu_request = "uint32_t \<times> u_register_t \<times> u_register_t \<times> u_register_t \<times> u_register_t \<times> uint32_t"

fun fwu_requests :: "fwu_env \<Rightarrow> fwu_request list \<Rightarrow> fwu_state \<Rightarrow> fwu_state option" where
  "fwu_requests e [] s = Some s"
| "fwu_requests e ((fid, x1, x2, x3, x4, flags) # rs) s =
     (if GET_SECURITY_STATE flags = SECURE \<and> fid = FWU_SMC_IMAGE_AUTH then None
      else case bl1_fwu_smc_handler e fid x1 x2 x3 x4 flags s of
             (Returned _, s') \<Rightarrow> fwu_requests e rs s'
           | _ \<Rightarrow> None)"


lemmas fwu_defs =
  bl1_fwu_smc_handler_def bl1_fwu_image_copy_def copy_prepare_def copy_block_def bl1_fwu_image_check_overlaps_def
  bl1_fwu_image_auth_def auth_allowed_def auth_prepare_def bl1_fwu_image_execute_def bl1_prepare_next_image_def
  bl1_fwu_image_resume_def bl1_fwu_sec_image_done_def bl1_fwu_image_reset_def reset_loaded_def
  bl1_fwu_add_loaded_id_def bl1_fwu_remove_loaded_id_def bl1_plat_mem_check_def smc_ret_def
  bl1_plat_get_image_desc_def upd_desc_def GET_SECURITY_STATE_def EP_GET_EXE_def check_uptr_overflow_def

lemmas demo_defs = demo_fwu_env_def demo_state_def demo_image_def fwu_defs Let_def

lemma overlaps_none: "set ls \<subseteq> {INVALID_IMAGE_ID, i} \<Longrightarrow> overlaps_loop e i cb ce ls s = Returned 0"
  by (induction ls) auto

text \<open>The requests of the example, each from the state the one before leaves.\<close>

lemma demo_copy:
  "src = 0x8000 \<or> src = 0x8008 \<Longrightarrow>
   bl1_fwu_smc_handler (demo_fwu_env b) FWU_SMC_IMAGE_COPY 3 src 8 8 1
       (demo_state (demo_image IMAGE_STATE_RESET 0 n) INVALID_IMAGE_ID x m fl w) =
     (Returned 0, demo_state (demo_image IMAGE_STATE_COPIED 8 8) 3 x (mem_copy 0x1000 src 8 m) fl w)"
  by (elim disjE) (simp_all add: demo_defs overlaps_none)

lemma demo_auth:
  "m 0x1000 = 0xA5 \<Longrightarrow>
   bl1_fwu_smc_handler (demo_fwu_env b) FWU_SMC_IMAGE_AUTH 3 0 0 0 1
       (demo_state (demo_image IMAGE_STATE_COPIED 8 8) 3 x m fl w) =
     (Returned 0, demo_state (demo_image IMAGE_STATE_AUTHENTICATED 8 8) 3 x m (fl OR 1) w)"
  by (simp add: demo_defs mem_bytes_def upt_rec)

lemma demo_execute:
  "bl1_fwu_smc_handler (demo_fwu_env b) FWU_SMC_IMAGE_EXECUTE 3 0 0 0 1
       (demo_state (demo_image IMAGE_STATE_AUTHENTICATED 8 8) 3 x m fl w) =
     (Returned 0, demo_state (demo_image IMAGE_STATE_EXECUTED 8 8) 3 3 m fl SECURE)"
  by (simp add: demo_defs)

lemma demo_interrupt:
  "bl1_fwu_smc_handler (demo_fwu_env b) FWU_SMC_IMAGE_RESUME 0 0 0 0 0
       (demo_state (demo_image IMAGE_STATE_EXECUTED 8 8) 3 3 m fl SECURE) =
     (Returned 0, demo_state (demo_image IMAGE_STATE_INTERRUPTED 8 8) 3 3 m fl NON_SECURE)"
  by (simp add: demo_defs)

lemma demo_reset:
  "bl1_fwu_smc_handler (demo_fwu_env b) FWU_SMC_IMAGE_RESET 3 0 0 0 1
       (demo_state (demo_image IMAGE_STATE_INTERRUPTED 8 8) 3 x m fl w) =
     (Returned 0, demo_state (demo_image IMAGE_STATE_RESET 0 0) INVALID_IMAGE_ID x (zero_normalmem 0x1000 8 m) 0 w)"
  by (simp add: demo_defs)

lemma demo_resume:
  "bl1_fwu_smc_handler (demo_fwu_env False) FWU_SMC_IMAGE_RESUME 0 0 0 0 1
       (demo_state (demo_image IMAGE_STATE_COPIED 8 8) 3 3 m fl w) =
     (Returned 0, demo_state (demo_image IMAGE_STATE_EXECUTED 8 8) 3 3 m fl SECURE)"
  by (simp add: demo_defs)

lemma demo_first_byte: "mem_copy 0x1000 0x8000 8 demo_mem 0x1000 = 0xA5"
  by (simp add: mem_copy_def in_block_def demo_mem_def)

definition demo_load :: "fwu_request list" where
  "demo_load = [(FWU_SMC_IMAGE_COPY, 3, 0x8000, 8, 8, 1), (FWU_SMC_IMAGE_AUTH, 3, 0, 0, 0, 1)]"


section \<open>Authenticated execution\<close>



text \<open>
  C18: a build without assertions can enter the secure world with bytes the authentication module
  rejects. The non-secure world resets an interrupted image, which leaves \<open>sec_exec_image_id\<close>
  naming it, copies other bytes into its slot, and resumes it: \<open>bl1_fwu_image_resume\<close> tests the state
  of the image by assertions only.
\<close>

theorem resume_enters_unauthenticated:
  "\<exists>rs s d. fwu_requests (demo_fwu_env False) rs demo_fwu_state = Some s
    \<and> fwu_next_ctx s = SECURE \<and> bl1_plat_get_image_desc (sec_exec_image_id s) s = Some d
    \<and> img_state d = IMAGE_STATE_EXECUTED \<and> secure_desc d
    \<and> auth_mod_verify_img (demo_fwu_env False) (sec_exec_image_id s)
         (mem_bytes (fwu_mem s) (image_base d) (image_size d)) \<noteq> 0"
proof -
  let ?rs = "demo_load @ [(FWU_SMC_IMAGE_EXECUTE, 3, 0, 0, 0, 1), (FWU_SMC_IMAGE_RESUME, 0, 0, 0, 0, 0),
      (FWU_SMC_IMAGE_RESET, 3, 0, 0, 0, 1), (FWU_SMC_IMAGE_COPY, 3, 0x8008, 8, 8, 1),
      (FWU_SMC_IMAGE_RESUME, 0, 0, 0, 0, 1)]"
  let ?m = "mem_copy 0x1000 0x8008 8 (zero_normalmem 0x1000 8 (mem_copy 0x1000 0x8000 8 demo_mem))"
  let ?s = "demo_state (demo_image IMAGE_STATE_EXECUTED 8 8) 3 3 ?m 0 SECURE"
  have "fwu_requests (demo_fwu_env False) ?rs demo_fwu_state = Some ?s"
    by (simp add: demo_load_def demo_fwu_state_def demo_copy demo_auth demo_execute demo_interrupt demo_reset
        demo_resume demo_first_byte GET_SECURITY_STATE_def)
  moreover have "?m 0x1000 = 0"
    by (simp add: mem_copy_def zero_normalmem_def in_block_def demo_mem_def)
  then have "auth_mod_verify_img (demo_fwu_env False) 3 (mem_bytes ?m 0x1000 8) \<noteq> 0"
    by (simp add: demo_fwu_env_def mem_bytes_def upt_rec)
  moreover have "bl1_plat_get_image_desc 3 ?s = Some (demo_image IMAGE_STATE_EXECUTED 8 8)"
    by (simp add: bl1_plat_get_image_desc_def demo_state_def demo_image_def)
  ultimately show ?thesis
    by (intro exI [of _ ?rs] exI [of _ ?s] exI [of _ "demo_image IMAGE_STATE_EXECUTED 8 8"])
      (simp add: demo_state_def demo_image_def secure_desc_def GET_SECURITY_STATE_def)
qed

section \<open>The documented state machine\<close>

text \<open>The states of the images, and the transitions of the state diagram of the firmware update document.\<close>

definition image_states :: "fwu_state \<Rightarrow> uint32_t \<rightharpoonup> image_state_t" where
  "image_states s i = map_option img_state (bl1_plat_get_image_desc i s)"

definition image_transition :: "uint32_t \<Rightarrow> image_state_t \<Rightarrow> image_state_t \<Rightarrow> bool" where
  "image_transition fid st st' \<longleftrightarrow>
     (st, st') \<in>
       (if fid = FWU_SMC_IMAGE_COPY then
          {IMAGE_STATE_RESET, IMAGE_STATE_COPYING} \<times> {IMAGE_STATE_COPYING, IMAGE_STATE_COPIED}
        else if fid = FWU_SMC_IMAGE_AUTH then
          {(IMAGE_STATE_COPIED, IMAGE_STATE_AUTHENTICATED), (IMAGE_STATE_COPIED, IMAGE_STATE_RESET),
           (IMAGE_STATE_RESET, IMAGE_STATE_AUTHENTICATED)}
        else if fid = FWU_SMC_IMAGE_EXECUTE then {(IMAGE_STATE_AUTHENTICATED, IMAGE_STATE_EXECUTED)}
        else if fid = FWU_SMC_IMAGE_RESUME then
          {(IMAGE_STATE_EXECUTED, IMAGE_STATE_INTERRUPTED), (IMAGE_STATE_INTERRUPTED, IMAGE_STATE_EXECUTED)}
        else if fid = FWU_SMC_SEC_IMAGE_DONE then {(IMAGE_STATE_EXECUTED, IMAGE_STATE_RESET)}
        else if fid = FWU_SMC_IMAGE_RESET then
          {IMAGE_STATE_COPYING, IMAGE_STATE_COPIED, IMAGE_STATE_AUTHENTICATED, IMAGE_STATE_INTERRUPTED}
            \<times> {IMAGE_STATE_RESET}
        else {})"

definition states_step :: "uint32_t \<Rightarrow> (uint32_t \<rightharpoonup> image_state_t) \<Rightarrow> (uint32_t \<rightharpoonup> image_state_t) \<Rightarrow> bool" where
  "states_step fid a a' \<longleftrightarrow>
     a' = a \<or> (\<exists>i st st'. a i = Some st \<and> image_transition fid st st' \<and> a' = a(i \<mapsto> st'))"

lemma image_states_upd:
  assumes "\<And>d. image_id (f d) = image_id d"
  shows "image_states (upd_desc i f s) =
    (image_states s)(i := map_option (\<lambda>d. img_state (f d)) (bl1_plat_get_image_desc i s))"
  using get_upd_desc [OF assms] by (auto simp: image_states_def fun_eq_iff option.map_comp o_def)

lemma image_states_frame [simp]:
  "image_states (s\<lparr>fwu_mem := m\<rparr>) = image_states s" "image_states (s\<lparr>bl1_fwu_loaded_ids := l\<rparr>) = image_states s"
  "image_states (s\<lparr>sec_exec_image_id := x\<rparr>) = image_states s" "image_states (s\<lparr>auth_img_flags := fl\<rparr>) = image_states s"
  "image_states (s\<lparr>fwu_next_ctx := w\<rparr>) = image_states s"
  by (simp_all add: image_states_def fun_eq_iff)

lemma image_states_same:
  assumes "\<And>d. image_id (f d) = image_id d" "\<And>d. img_state (f d) = img_state d"
  shows "image_states (upd_desc i f s) = image_states s"
  using image_states_upd [OF assms(1), where i = i and s = s] assms(2)
  by (simp add: image_states_def fun_eq_iff)

lemma loaded_ids_states [simp]:
  "image_states (snd (bl1_fwu_add_loaded_id i s)) = image_states s"
  "image_states (snd (bl1_fwu_remove_loaded_id i s)) = image_states s"
  "bl1_plat_get_image_desc j (snd (bl1_fwu_add_loaded_id i s)) = bl1_plat_get_image_desc j s"
  "bl1_plat_get_image_desc j (snd (bl1_fwu_remove_loaded_id i s)) = bl1_plat_get_image_desc j s"
  "sec_exec_image_id (snd (bl1_fwu_remove_loaded_id i s)) = sec_exec_image_id s"
  by (simp_all add: bl1_fwu_add_loaded_id_def bl1_fwu_remove_loaded_id_def)

lemma states_stepI:
  "bl1_plat_get_image_desc i s = Some d \<Longrightarrow> image_transition fid (img_state d) st \<Longrightarrow>
     image_states s' = (image_states s)(i \<mapsto> st) \<Longrightarrow> states_step fid (image_states s) (image_states s')"
  unfolding states_step_def
  by (rule disjI2, rule exI [of _ i], rule exI [of _ "img_state d"], rule exI [of _ st]) (simp add: image_states_def)

lemma states_step_refl: "a' = a \<Longrightarrow> states_step fid a a'"
  by (simp add: states_step_def)

lemma copy_prepare_states:
  assumes "copy_prepare e i d sz s = (r, s')"
  shows "image_states s' = image_states s
    \<and> (\<forall>n d0. r = Inr n \<and> bl1_plat_get_image_desc i s = Some d0 \<longrightarrow>
          (\<exists>d'. bl1_plat_get_image_desc i s' = Some d' \<and> img_state d' = img_state d0))"
  using assms
  by (auto simp: copy_prepare_def Let_def image_states_same get_upd_desc split: if_splits outcome.splits)

lemma copy_states:
  assumes "bl1_fwu_image_copy e i src block sz flags s = (r, s')"
  shows "states_step FWU_SMC_IMAGE_COPY (image_states s) (image_states s')"
proof (cases "image_states s' = image_states s")
  case True
  then show ?thesis by (rule states_step_refl)
next
  case False
  then obtain d where d: "bl1_plat_get_image_desc i s = Some d"
      "img_state d = IMAGE_STATE_RESET \<or> img_state d = IMAGE_STATE_COPYING"
    using assms by (auto simp: bl1_fwu_image_copy_def split: option.splits if_splits)
  obtain r0 s0 where p: "copy_prepare e i d sz s = (r0, s0)" by force
  note ps = copy_prepare_states [OF p]
  obtain rc1 s1 where a: "bl1_fwu_add_loaded_id i s0 = (rc1, s1)" by force
  have s1: "image_states s1 = image_states s0" "bl1_plat_get_image_desc i s1 = bl1_plat_get_image_desc i s0"
    using loaded_ids_states(1,3) [where i = i and s = s0] a by auto
  obtain n where n: "r0 = Inr n" using assms False d p ps
    by (cases r0) (auto simp: bl1_fwu_image_copy_def split: if_splits)
  then obtain d' where d': "bl1_plat_get_image_desc i s0 = Some d'" using ps d(1) by auto
  obtain b where c: "s' = copy_block i src b (n - copied_size d') d' s1"
    using assms False d p ps n d' a s1
    by (auto simp: bl1_fwu_image_copy_def Let_def split: if_splits outcome.splits)
  have "image_states s' = (image_states s)
      (i \<mapsto> if b = n - copied_size d' then IMAGE_STATE_COPIED else IMAGE_STATE_COPYING)"
    using c ps s1 d' by (simp add: copy_block_def image_states_upd)
  then show ?thesis
    using d(2) by (intro states_stepI [OF d(1)]) (auto simp: image_transition_def)
qed

lemma auth_prepare_states:
  assumes "auth_prepare e i d src sz s = (r, s')"
  shows "image_states s' = image_states s
    \<and> (\<forall>d0. bl1_plat_get_image_desc i s = Some d0 \<longrightarrow> (\<exists>d'. bl1_plat_get_image_desc i s' = Some d'))"
  using assms loaded_ids_states(1,3) [where i = i and s = s]
  by (cases "bl1_fwu_add_loaded_id i s")
    (auto simp: auth_prepare_def Let_def image_states_same get_upd_desc split: if_splits outcome.splits)

lemma auth_states:
  assumes "bl1_fwu_image_auth e i src sz flags s = (r, s')"
  shows "states_step FWU_SMC_IMAGE_AUTH (image_states s) (image_states s')"
proof (cases "image_states s' = image_states s")
  case True
  then show ?thesis by (rule states_step_refl)
next
  case False
  then obtain d where d: "bl1_plat_get_image_desc i s = Some d" "auth_allowed d flags"
    using assms by (auto simp: bl1_fwu_image_auth_def split: option.splits if_splits)
  then have st: "img_state d = IMAGE_STATE_RESET \<or> img_state d = IMAGE_STATE_COPIED"
    by (auto simp: auth_allowed_def split: if_splits)
  obtain r0 s0 where p: "auth_prepare e i d src sz s = (r0, s0)" by force
  from auth_prepare_states [OF p] d(1) obtain d'
    where ps: "image_states s0 = image_states s" "bl1_plat_get_image_desc i s0 = Some d'" by auto
  have "image_states s' = (image_states s)(i \<mapsto> IMAGE_STATE_AUTHENTICATED)
      \<or> img_state d = IMAGE_STATE_COPIED \<and> image_states s' = (image_states s)(i \<mapsto> IMAGE_STATE_RESET)"
    using assms False d p ps
    by (auto simp: bl1_fwu_image_auth_def Let_def image_states_upd split: if_splits sum.splits)
  then show ?thesis
  proof (elim disjE conjE)
    assume "image_states s' = (image_states s)(i \<mapsto> IMAGE_STATE_AUTHENTICATED)"
    then show ?thesis using st by (intro states_stepI [OF d(1)]) (auto simp: image_transition_def)
  next
    assume "img_state d = IMAGE_STATE_COPIED" "image_states s' = (image_states s)(i \<mapsto> IMAGE_STATE_RESET)"
    then show ?thesis by (intro states_stepI [OF d(1)]) (auto simp: image_transition_def)
  qed
qed

lemma execute_states:
  assumes "bl1_fwu_image_execute e i flags s = (r, s')"
  shows "states_step FWU_SMC_IMAGE_EXECUTE (image_states s) (image_states s')"
  using assms
  by (auto simp: bl1_fwu_image_execute_def bl1_prepare_next_image_def image_states_upd image_transition_def
      intro: states_step_refl states_stepI split: option.splits if_splits)

lemma resume_states:
  assumes "fwu_assertions e" "bl1_fwu_image_resume e x flags s = (r, s')"
  shows "states_step FWU_SMC_IMAGE_RESUME (image_states s) (image_states s')"
  using assms
  by (auto simp: bl1_fwu_image_resume_def Let_def image_states_upd image_transition_def
      intro: states_step_refl states_stepI split: option.splits if_splits)

lemma done_states:
  assumes "fwu_assertions e" "bl1_fwu_sec_image_done e flags s = (r, s')"
  shows "states_step FWU_SMC_SEC_IMAGE_DONE (image_states s) (image_states s')"
  using assms loaded_ids_states(2,4,5) [where i = "sec_exec_image_id s" and s = s]
  by (cases "bl1_fwu_remove_loaded_id (sec_exec_image_id s) s")
    (auto simp: bl1_fwu_sec_image_done_def Let_def image_states_upd image_transition_def
      intro: states_step_refl states_stepI split: option.splits if_splits)

lemma reset_loaded_states:
  assumes "reset_loaded e i d s = (r, s')" "bl1_plat_get_image_desc i s = Some d"
  shows "image_states s' = image_states s \<or> image_states s' = (image_states s)(i \<mapsto> IMAGE_STATE_RESET)"
  using assms loaded_ids_states(2,4) [where i = i and s = s]
  by (cases "bl1_fwu_remove_loaded_id i s") (auto simp: reset_loaded_def Let_def image_states_upd split: if_splits)

lemma reset_states:
  assumes "bl1_fwu_image_reset e i flags s = (r, s')"
  shows "states_step FWU_SMC_IMAGE_RESET (image_states s) (image_states s')"
proof (cases "image_states s' = image_states s")
  case True
  then show ?thesis by (rule states_step_refl)
next
  case False
  then obtain d where d: "bl1_plat_get_image_desc i s = Some d" "reset_loaded e i d s = (r, s')"
      "img_state d \<noteq> IMAGE_STATE_RESET" "img_state d \<noteq> IMAGE_STATE_EXECUTED"
    using assms by (auto simp: bl1_fwu_image_reset_def split: option.splits if_splits image_state_t.splits)
  then show ?thesis
    using reset_loaded_states [OF d(2,1)] False
    by (intro states_stepI [OF d(1), of _ IMAGE_STATE_RESET]) (cases "img_state d"; auto simp: image_transition_def)+
qed

text \<open>
  C19: a build with assertions refines the documented state machine of the images. Every firmware
  update SMC that returns leaves the states of all images as they are, or moves one image along a
  transition the document has for that SMC.
\<close>

theorem smc_follows_state_machine:
  assumes "fwu_assertions e" "bl1_fwu_smc_handler e fid x1 x2 x3 x4 flags s = (Returned r, s')"
  shows "states_step fid (image_states s) (image_states s')"
  using assms copy_states auth_states execute_states resume_states done_states reset_states
  by (auto simp: bl1_fwu_smc_handler_def smc_ret_Returned intro: states_step_refl split: if_splits)

theorem smc_follows_state_machine_witness:
  "states_step FWU_SMC_IMAGE_COPY (image_states demo_fwu_state)
     (image_states (demo_state (demo_image IMAGE_STATE_COPIED 8 8) 3 INVALID_IMAGE_ID (mem_copy 0x1000 0x8000 8 demo_mem) 0 NON_SECURE))"
  unfolding demo_fwu_state_def
  using smc_follows_state_machine [OF _ demo_copy [where src = "0x8000" and b = True]] by (simp add: demo_fwu_env_def)

end
