(* ===== verification/Fwu_Copy.thy ===== *)
theory Fwu_Copy
  imports Fwu_Correct
begin

text \<open>
  The copying in of an image: the check against the images already loaded is exact, and a client
  that sends an image block by block ends up with the whole image in its slot.
\<close>

section \<open>The overlap check is exact\<close>

definition image_fits :: "image_desc_t \<Rightarrow> bool" where
  "image_fits d \<longleftrightarrow> unat (image_base d) + unat (image_size d) \<le> 2 ^ 64"

lemma overlap_witness:
  assumes "image_fits d" "image_fits d'" "image_size d \<noteq> 0" "image_size d' \<noteq> 0" "blocks_disjoint d d'"
  shows "image_base d + ucast (image_size d) - 1 < image_base d'
    \<or> image_base d' + ucast (image_size d') - 1 < image_base d"
proof (rule ccontr)
  assume n: "\<not> ?thesis"
  have f: "unat (image_base d) + unat (image_size d) \<le> 2 ^ 64" "unat (image_base d') + unat (image_size d') \<le> 2 ^ 64"
    using assms(1,2) by (simp_all add: image_fits_def)
  have p: "0 < unat (image_size d)" "0 < unat (image_size d')" using assms(3,4) by (simp_all add: unat_gt_0)
  note lb = last_byte [OF f(1) assms(3)] last_byte [OF f(2) assms(4)]
  have "unat (image_base d') \<le> unat (image_base d) + unat (image_size d) - 1"
      "unat (image_base d) \<le> unat (image_base d') + unat (image_size d') - 1"
    using n unfolding word_less_nat_alt lb by simp_all
  then have "\<exists>a. in_block (image_base d) (image_size d) a \<and> in_block (image_base d') (image_size d') a"
    unfolding in_block_iff [OF f(1)] in_block_iff [OF f(2)] using p
    by (intro exI [of _ "if unat (image_base d) \<le> unat (image_base d') then image_base d' else image_base d"]) auto
  then show False using assms(5) by (auto simp: blocks_disjoint_def)
qed

lemma blocks_disjoint_iff:
  assumes "image_fits d" "image_fits d'" "image_size d \<noteq> 0"
  shows "blocks_disjoint d d' \<longleftrightarrow> image_size d' = 0
    \<or> image_base d' + ucast (image_size d') - 1 < image_base d \<or> image_base d + ucast (image_size d) - 1 < image_base d'"
proof (cases "image_size d' = 0")
  case True
  then show ?thesis by (simp add: blocks_disjoint_sym [OF blocks_disjoint_empty])
next
  case False
  then show ?thesis
    using overlap_witness [OF assms False] not_overlapping [of d' d] assms by (auto simp: image_fits_def)
qed

text \<open>The entries of the list the loop takes into account.\<close>

definition other_loaded :: "uint32_t \<Rightarrow> uint32_t list \<Rightarrow> uint32_t set" where
  "other_loaded i ls = {l \<in> set ls. l \<noteq> INVALID_IMAGE_ID \<and> l \<noteq> i}"

definition loaded_image_ok :: "image_desc_t \<Rightarrow> bool" where
  "loaded_image_ok d \<longleftrightarrow> img_state d \<noteq> IMAGE_STATE_RESET \<and> image_fits d \<and> image_size d \<noteq> 1"

lemma two_bytes:
  assumes "image_fits d" "image_size d \<noteq> 0" "image_size d \<noteq> 1"
  shows "image_base d < image_base d + ucast (image_size d) - 1"
proof -
  have "unat (image_size d) \<noteq> 0" "unat (image_size d) \<noteq> 1"
    using assms(2,3) by (metis unat_eq_zero, metis unat_1 word_unat_eq_iff)
  then show ?thesis using last_byte [of "image_base d" "image_size d"] assms(1,2)
    by (simp add: image_fits_def word_less_nat_alt)
qed

lemma overlaps_loop_value:
  assumes "image_fits d" "image_size d \<noteq> 0"
  shows "(\<And>l. l \<in> other_loaded i ls \<Longrightarrow> \<exists>dl. bl1_plat_get_image_desc l s = Some dl \<and> loaded_image_ok dl) \<Longrightarrow>
    overlaps_loop e i (image_base d) (image_base d + ucast (image_size d) - 1) ls s =
      Returned (if \<forall>l \<in> other_loaded i ls. blocks_disjoint d (the (bl1_plat_get_image_desc l s)) then 0 else - EPERM)"
proof (induction ls)
  case Nil
  then show ?case by (simp add: other_loaded_def)
next
  case (Cons l ls)
  have IH: "overlaps_loop e i (image_base d) (image_base d + ucast (image_size d) - 1) ls s =
      Returned (if \<forall>l \<in> other_loaded i ls. blocks_disjoint d (the (bl1_plat_get_image_desc l s)) then 0 else - EPERM)"
    by (rule Cons.IH) (use Cons.prems in \<open>auto simp: other_loaded_def\<close>)
  show ?case
  proof (cases "l = INVALID_IMAGE_ID \<or> l = i")
    case True
    then have "other_loaded i (l # ls) = other_loaded i ls" by (auto simp: other_loaded_def)
    then show ?thesis using True IH by simp
  next
    case False
    then have o: "other_loaded i (l # ls) = insert l (other_loaded i ls)" by (auto simp: other_loaded_def)
    then obtain dl where dl: "bl1_plat_get_image_desc l s = Some dl" "loaded_image_ok dl" using Cons.prems by blast
    note iff = blocks_disjoint_iff [OF assms(1) _ assms(2), of dl]
    show ?thesis
      using dl False iff two_bytes [of dl] unfolding o
      by (simp add: IH loaded_image_ok_def Let_def)
  qed
qed

text \<open>
  C20: the overlap check of a copy request is exact. When every other loaded image has a descriptor
  past the \<open>RESET\<close> state, of a size other than one byte and within the address space, the check
  returns 0 if the new image shares no byte with any of them, and \<open>-EPERM\<close> otherwise.
\<close>

theorem check_overlaps_exact:
  assumes "bl1_plat_get_image_desc i s = Some d" "image_fits d" "image_size d \<noteq> 0"
    and "\<And>l. l \<in> other_loaded i (bl1_fwu_loaded_ids s) \<Longrightarrow>
      \<exists>dl. bl1_plat_get_image_desc l s = Some dl \<and> loaded_image_ok dl"
  shows "bl1_fwu_image_check_overlaps e i s =
    Returned (if \<forall>l \<in> other_loaded i (bl1_fwu_loaded_ids s). blocks_disjoint d (the (bl1_plat_get_image_desc l s))
              then 0 else - EPERM)"
  using assms(1,3) overlaps_loop_value [OF assms(2,3) assms(4)] by (simp add: bl1_fwu_image_check_overlaps_def)

text \<open>Two images whose slots overlap in one byte: image 4 cannot be copied in beside image 3.\<close>

definition demo_overlap :: fwu_state where
  "demo_overlap = (demo_state (demo_image IMAGE_STATE_COPIED 8 8) 3 INVALID_IMAGE_ID demo_mem 0 NON_SECURE)
     \<lparr>image_descs := [demo_image IMAGE_STATE_COPIED 8 8,
        (demo_image IMAGE_STATE_RESET 0 4)\<lparr>image_id := 4, image_base := 0x1007\<rparr>]\<rparr>"

theorem check_overlaps_exact_witness:
  "bl1_fwu_image_check_overlaps (demo_fwu_env True) 4 demo_overlap = Returned (- EPERM)"
proof -
  let ?d = "(demo_image IMAGE_STATE_RESET 0 4)\<lparr>image_id := 4, image_base := 0x1007\<rparr>"
  have g: "bl1_plat_get_image_desc 4 demo_overlap = Some ?d"
      "bl1_plat_get_image_desc 3 demo_overlap = Some (demo_image IMAGE_STATE_COPIED 8 8)"
    by (simp_all add: bl1_plat_get_image_desc_def demo_overlap_def demo_image_def)
  have o: "other_loaded 4 (bl1_fwu_loaded_ids demo_overlap) = {3}"
    by (auto simp: other_loaded_def demo_overlap_def demo_state_def)
  have "\<not> blocks_disjoint ?d (demo_image IMAGE_STATE_COPIED 8 8)"
    by (auto simp: blocks_disjoint_def demo_image_def in_block_def intro!: exI [of _ "0x1007"])
  then show ?thesis
    using check_overlaps_exact [OF g(1), of "demo_fwu_env True"] o g(2)
    by (simp add: image_fits_def loaded_image_ok_def demo_image_def)
qed

section \<open>Copying in blocks\<close>

text \<open>
  The non-secure client: block \<open>k\<close> is sent from \<open>src + k * blk\<close>; it stops at the first request that
  does not return 0.
\<close>

fun copy_blocks ::
  "fwu_env \<Rightarrow> uint32_t \<Rightarrow> uintptr_t \<Rightarrow> uint32_t \<Rightarrow> uint32_t \<Rightarrow> nat \<Rightarrow> fwu_state \<Rightarrow> int outcome \<times> fwu_state" where
  "copy_blocks e i src blk sz 0 s = (Returned 0, s)"
| "copy_blocks e i src blk sz (Suc k) s =
     (case copy_blocks e i src blk sz k s of
        (Returned rc, s) \<Rightarrow>
          if rc = 0 then bl1_fwu_image_copy e i (src + of_nat (k * unat blk)) blk sz NON_SECURE s else (Returned rc, s)
      | r \<Rightarrow> r)"

text \<open>A source in non-secure memory of the platform, large enough not to wrap with the last block.\<close>

definition copy_source_ok :: "fwu_env \<Rightarrow> uintptr_t \<Rightarrow> uint32_t \<Rightarrow> uint32_t \<Rightarrow> bool" where
  "copy_source_ok e src blk sz \<longleftrightarrow>
     src \<noteq> 0 \<and> unat src + unat sz + unat blk < 2 ^ 64
     \<and> (\<exists>(b, n) \<in> set (fwu_addr_map_non_secure e).
          b \<le> src \<and> unat src + unat sz \<le> unat b + unat n \<and> unat b + unat n < 2 ^ 64)"

lemma mem_map_coversI:
  "(b, n) \<in> set mm \<Longrightarrow> b \<le> p \<Longrightarrow> p + ucast m \<le> b + ucast n \<Longrightarrow> mem_map_covers mm p m"
  by (induction mm) auto

lemma unat_offset:
  fixes p :: uintptr_t
  shows "unat p + c < 2 ^ 64 \<Longrightarrow> unat (p + of_nat c) = unat p + c"
  by (simp add: unat_word_ariths unat_of_nat)

lemma source_block_ok:
  assumes "copy_source_ok e src blk sz" "c + unat b \<le> unat sz" "b \<noteq> 0" "b \<le> blk" "c < unat sz"
  shows "src + of_nat c \<noteq> 0" "\<not> check_uptr_overflow (src + of_nat c) (ucast (blk - 1))"
    and "bl1_plat_mem_check e (src + of_nat c) b NON_SECURE = Returned 0"
proof -
  have src: "src \<noteq> 0" "unat src + unat sz + unat blk < 2 ^ 64" using assms(1) by (simp_all add: copy_source_ok_def)
  have p: "unat (src + of_nat c) = unat src + c" using src(2) assms(5) by (intro unat_offset) simp
  have "0 < unat src" using src(1) by (simp add: unat_gt_0)
  with p show nz: "src + of_nat c \<noteq> 0" by (metis add_is_0 less_numeral_extra(3) unat_0)
  have "0 < unat b" "unat b \<le> unat blk" using assms(3,4) by (simp_all add: unat_gt_0 word_le_nat_alt)
  moreover have "unat (x - 1) = unat x - 1" if "0 < unat x" for x :: uint32_t
    using that by (subst unat_minus_one) (auto simp: unat_eq_zero [symmetric])
  ultimately have b: "unat (blk - 1) = unat blk - 1" "unat (b - 1) = unat b - 1" by auto
  show "\<not> check_uptr_overflow (src + of_nat c) (ucast (blk - 1))"
    using p b src(2) assms(5) by (simp add: check_uptr_overflow_iff)
  have no: "\<not> check_uptr_overflow (src + of_nat c) (ucast (b - 1))"
    using p b src(2) assms(2) by (simp add: check_uptr_overflow_iff)
  obtain rb rn where r: "(rb, rn) \<in> set (fwu_addr_map_non_secure e)" "rb \<le> src"
      "unat src + unat sz \<le> unat rb + unat rn" "unat rb + unat rn < 2 ^ 64"
    using assms(1) by (auto simp: copy_source_ok_def)
  have "mem_map_covers (fwu_addr_map_non_secure e) (src + of_nat c) b"
  proof (rule mem_map_coversI [OF r(1)])
    show "rb \<le> src + of_nat c" using r(2) p by (simp add: word_le_nat_alt)
    have "unat (src + of_nat c + ucast b) = unat src + c + unat b"
      using p src(2) assms(2) by (subst unat_word_ariths(1)) simp
    moreover have "unat (rb + ucast rn :: uintptr_t) = unat rb + unat rn"
      using r(4) by (subst unat_word_ariths(1)) simp
    ultimately show "src + of_nat c + ucast b \<le> rb + ucast rn"
      using r(3) assms(2) by (simp add: word_le_nat_alt)
  qed
  then show "bl1_plat_mem_check e (src + of_nat c) b NON_SECURE = Returned 0"
    using nz assms(3) no by (simp add: bl1_plat_mem_check_def GET_SECURITY_STATE_def)
qed

text \<open>Consecutive blocks add up, as long as the destination does not run into the source.\<close>

lemma mem_copy_append:
  fixes c b n :: uint32_t
  assumes "unat c + unat b \<le> unat n" "unat dst + unat n \<le> 2 ^ 64" "unat src + unat n < 2 ^ 64"
    and "\<And>a. in_block src n a \<Longrightarrow> \<not> in_block dst n a"
  shows "mem_copy (dst + ucast c) (src + ucast c) b (mem_copy dst src c m) = mem_copy dst src (c + b) m"
proof
  fix a
  have cb: "unat (c + b) = unat c + unat b"
    using assms(1) unat_bound [of n] by (simp add: unat_word_ariths)
  have d1: "unat dst + unat (c + b) \<le> 2 ^ 64" "unat dst + unat c \<le> 2 ^ 64" using assms(1,2) cb by simp_all
  show "mem_copy (dst + ucast c) (src + ucast c) b (mem_copy dst src c m) a = mem_copy dst src (c + b) m a"
  proof (cases "in_block (dst + ucast c) b a")
    case True
    then have in_cb: "in_block dst (c + b) a" using in_block_part [OF True _ d1(1)] cb by simp
    have off: "src + ucast c + (a - (dst + ucast c)) = src + (a - dst)" by simp
    have "a - dst < ucast (c + b)" using in_cb by (simp add: in_block_def)
    then have lt: "unat (a - dst) < unat n" using cb assms(1) by (simp add: word_less_nat_alt)
    then have "in_block src n (src + (a - dst))"
      by (simp add: in_block_def word_less_nat_alt)
    then have "\<not> in_block dst c (src + (a - dst))"
      using assms(1,4) in_block_mono [of dst c _ n] by (auto simp: word_le_nat_alt)
    then show ?thesis using True in_cb off by (simp add: mem_copy_def)
  next
    case False
    have "in_block dst (c + b) a \<longleftrightarrow> in_block dst c a"
    proof
      assume i: "in_block dst (c + b) a"
      show "in_block dst c a"
      proof (rule ccontr)
        assume "\<not> in_block dst c a"
        then have "unat dst + unat c \<le> unat a" "unat a < unat dst + unat c + unat b"
          using i in_block_iff [OF d1(1)] in_block_iff [OF d1(2)] cb by auto
        moreover from this have "unat (dst + ucast c) = unat dst + unat c"
          using d1(1) cb by (subst unat_word_ariths(1)) simp
        ultimately show False using False in_block_iff [of "dst + ucast c" b a] d1(1) cb by simp
      qed
    qed (use in_block_mono [of dst c a "c + b"] cb in \<open>simp add: word_le_nat_alt\<close>)
    then show ?thesis using False by (simp add: mem_copy_def)
  qed
qed

lemma mem_bytes_copied: "mem_bytes (mem_copy dst src n m) dst n = mem_bytes m src n"
proof -
  have "of_nat k < (ucast n :: uintptr_t)" if "k < unat n" for k
    using that unat_bound [of n] by (simp add: word_less_nat_alt unat_of_nat)
  then show ?thesis by (simp add: mem_bytes_def mem_copy_def in_block_def)
qed

text \<open>\<open>c\<close> bytes of the image are in its slot.\<close>

definition copied_bytes ::
  "uint32_t \<Rightarrow> image_desc_t \<Rightarrow> uint32_t \<Rightarrow> uintptr_t \<Rightarrow> (uintptr_t \<Rightarrow> uint8_t) \<Rightarrow> nat \<Rightarrow> fwu_state \<Rightarrow> bool" where
  "copied_bytes i d sz src m c s \<longleftrightarrow>
     (\<exists>d'. bl1_plat_get_image_desc i s = Some d' \<and> ep_info_attr d' = ep_info_attr d \<and> image_base d' = image_base d
        \<and> image_size d' = sz \<and> unat (copied_size d') = c \<and> i \<in> set (bl1_fwu_loaded_ids s)
        \<and> img_state d' = (if c = unat sz then IMAGE_STATE_COPIED else IMAGE_STATE_COPYING)
        \<and> fwu_mem s = mem_copy (image_base d) src (copied_size d') m)"

definition copy_request_ok ::
  "fwu_env \<Rightarrow> uint32_t \<Rightarrow> image_desc_t \<Rightarrow> uintptr_t \<Rightarrow> uint32_t \<Rightarrow> uint32_t \<Rightarrow> bool" where
  "copy_request_ok e i d src blk sz \<longleftrightarrow>
     secure_desc d \<and> blk \<noteq> 0 \<and> sz \<noteq> 0 \<and> sz \<le> image_max_size d \<and> desc_ok d \<and> copy_source_ok e src blk sz
     \<and> bl1_plat_handle_pre_image_load e i = 0
     \<and> (\<forall>a. in_block src sz a \<longrightarrow> \<not> in_block (image_base d) sz a)"

lemma copy_call:
  assumes "bl1_plat_get_image_desc i s = Some d" "secure_desc d"
    and "img_state d = IMAGE_STATE_RESET \<or> img_state d = IMAGE_STATE_COPYING"
    and "src \<noteq> 0" "blk \<noteq> 0" "\<not> check_uptr_overflow src (ucast (blk - 1))"
    and "copy_prepare e i d sz s = (Inr n, s0)" "bl1_plat_get_image_desc i s0 = Some d0"
    and "bl1_plat_mem_check e src (if blk > n - copied_size d0 then n - copied_size d0 else blk) NON_SECURE = Returned 0"
    and "bl1_fwu_add_loaded_id i s0 = (0, s1)" "bl1_plat_handle_pre_image_load e i = 0"
  shows "bl1_fwu_image_copy e i src blk sz NON_SECURE s = (Returned 0,
    copy_block i src (if blk > n - copied_size d0 then n - copied_size d0 else blk) (n - copied_size d0) d0 s1)"
  using assms
  by (cases "blk > n - copied_size d0") (simp_all add: bl1_fwu_image_copy_def secure_desc_def GET_SECURITY_STATE_def Let_def)

lemma add_loaded_room:
  assumes "INVALID_IMAGE_ID \<in> set (bl1_fwu_loaded_ids s) \<or> i \<in> set (bl1_fwu_loaded_ids s)"
  shows "\<exists>ls. bl1_fwu_add_loaded_id i s = (0, s\<lparr>bl1_fwu_loaded_ids := ls\<rparr>) \<and> i \<in> set ls"
proof -
  have "x \<in> set ls \<Longrightarrow> i \<in> set (upd_first (\<lambda>y. y = x) (\<lambda>_. i) ls)" for x ls
    by (induction ls) auto
  then show ?thesis
    using assms by (auto simp: bl1_fwu_add_loaded_id_def intro: exI [of _ "bl1_fwu_loaded_ids s"])
qed

lemma copy_one_block:
  assumes ok: "copy_request_ok e i d src blk sz" and "bl1_plat_get_image_desc i s = Some ds" "secure_desc ds"
    and "img_state ds = IMAGE_STATE_RESET \<or> img_state ds = IMAGE_STATE_COPYING"
    and "copy_prepare e i ds z s = (Inr sz, s0)" "bl1_plat_get_image_desc i s0 = Some d0"
    and d0: "image_size d0 = sz" "image_base d0 = image_base d" "ep_info_attr d0 = ep_info_attr d"
      "unat (copied_size d0) = c" "c < unat sz" "fwu_mem s0 = mem_copy (image_base d) src (copied_size d0) m"
    and room: "INVALID_IMAGE_ID \<in> set (bl1_fwu_loaded_ids s0) \<or> i \<in> set (bl1_fwu_loaded_ids s0)"
  shows "\<exists>s'. bl1_fwu_image_copy e i (src + of_nat c) blk z NON_SECURE s = (Returned 0, s')
    \<and> copied_bytes i d sz src m (min (c + unat blk) (unat sz)) s'"
proof -
  let ?rem = "sz - copied_size d0"
  define b where "b = (if blk > ?rem then ?rem else blk)"
  have o: "blk \<noteq> 0" "copy_source_ok e src blk sz" "bl1_plat_handle_pre_image_load e i = 0"
      "unat (image_base d) + unat sz \<le> 2 ^ 64" "\<And>a. in_block src sz a \<Longrightarrow> \<not> in_block (image_base d) sz a"
    using ok by (auto simp: copy_request_ok_def desc_ok_def word_le_nat_alt)
  have rem: "unat ?rem = unat sz - c" using d0(4,5) by (subst unat_sub) (simp_all add: word_le_nat_alt)
  have b: "unat b = min (unat blk) (unat sz - c)" using rem by (auto simp: b_def word_less_nat_alt)
  have "0 < unat blk" using o(1) by (simp add: unat_gt_0)
  then have bnz: "b \<noteq> 0" using b d0(5) by auto
  have "b \<le> blk" using b by (simp add: word_le_nat_alt)
  note src_ok = source_block_ok [OF o(2) _ bnz this d0(5)]
  have sum: "c + unat b \<le> unat sz" using b d0(5) by simp
  obtain ls where ls: "bl1_fwu_add_loaded_id i s0 = (0, s0\<lparr>bl1_fwu_loaded_ids := ls\<rparr>)" "i \<in> set ls"
    using add_loaded_room [OF room] by blast
  let ?s' = "copy_block i (src + of_nat c) b ?rem d0 (s0\<lparr>bl1_fwu_loaded_ids := ls\<rparr>)"
  have call: "bl1_fwu_image_copy e i (src + of_nat c) blk z NON_SECURE s = (Returned 0, ?s')"
    unfolding b_def
    by (rule copy_call [OF assms(2-4) src_ok(1) [OF sum] o(1) src_ok(2) [OF sum] assms(5,6)
          src_ok(3) [OF sum, unfolded b_def] ls(1) o(3)])
  have cs: "src + of_nat c = src + ucast (copied_size d0)"
    using d0(4) unat_bound [of "copied_size d0"] by (auto simp: word_unat_eq_iff unat_of_nat)
  have unat_sum: "unat (copied_size d0 + b) = c + unat b"
    using sum d0(4) unat_bound [of sz] by (subst unat_word_ariths(1)) simp
  have "mem_copy (image_base d + ucast (copied_size d0)) (src + ucast (copied_size d0)) b
      (mem_copy (image_base d) src (copied_size d0) m) = mem_copy (image_base d) src (copied_size d0 + b) m"
    by (rule mem_copy_append [OF _ o(4) _ o(5)]) (use sum d0(4) o(2) in \<open>auto simp: copy_source_ok_def\<close>)
  moreover have "min (c + unat blk) (unat sz) = c + unat b" using b d0(5) by simp
  moreover have "c + unat b = unat sz \<longleftrightarrow> b = ?rem" using rem sum d0(5) by (auto simp: word_unat_eq_iff)
  ultimately have "copied_bytes i d sz src m (min (c + unat blk) (unat sz)) ?s'"
    using assms(6) d0 ls(2) unat_sum
    by (simp add: copied_bytes_def copy_block_def get_upd_desc cs )
  with call show ?thesis by blast
qed

lemma first_block:
  assumes "copy_request_ok e i d src blk sz" "bl1_plat_get_image_desc i s = Some d" "img_state d = IMAGE_STATE_RESET"
    and "bl1_fwu_image_check_overlaps e i (upd_desc i (\<lambda>d. d\<lparr>image_size := sz\<rparr>) s) = Returned 0"
    and "INVALID_IMAGE_ID \<in> set (bl1_fwu_loaded_ids s)"
  shows "\<exists>s'. bl1_fwu_image_copy e i (src + of_nat 0) blk sz NON_SECURE s = (Returned 0, s')
    \<and> copied_bytes i d sz src (fwu_mem s) (min (0 + unat blk) (unat sz)) s'"
proof (rule copy_one_block [OF assms(1,2)])
  let ?s0 = "upd_desc i (\<lambda>d. d\<lparr>copied_size := 0\<rparr>) (upd_desc i (\<lambda>d. d\<lparr>image_size := sz\<rparr>) s)"
  show "copy_prepare e i d sz s = (Inr sz, ?s0)"
    using assms(1,3,4) by (auto simp: copy_prepare_def copy_request_ok_def Let_def not_less)
  show "bl1_plat_get_image_desc i ?s0 = Some (d\<lparr>image_size := sz, copied_size := 0\<rparr>)"
    by (simp add: get_upd_desc assms(2))
  show "fwu_mem ?s0 = mem_copy (image_base d) src (copied_size (d\<lparr>image_size := sz, copied_size := 0\<rparr>)) (fwu_mem s)"
    by (simp add: mem_copy_def in_block_def fun_eq_iff)
qed (use assms in \<open>simp_all add: copy_request_ok_def unat_gt_0\<close>)

lemma later_block:
  assumes "copy_request_ok e i d src blk sz" "copied_bytes i d sz src m c s" "c < unat sz" "0 < c"
  shows "\<exists>s'. bl1_fwu_image_copy e i (src + of_nat c) blk z NON_SECURE s = (Returned 0, s')
    \<and> copied_bytes i d sz src m (min (c + unat blk) (unat sz)) s'"
proof -
  obtain d' where d': "bl1_plat_get_image_desc i s = Some d'" "ep_info_attr d' = ep_info_attr d"
      "image_base d' = image_base d" "image_size d' = sz" "unat (copied_size d') = c" "i \<in> set (bl1_fwu_loaded_ids s)"
      "img_state d' = IMAGE_STATE_COPYING" "fwu_mem s = mem_copy (image_base d) src (copied_size d') m"
    using assms(2,3) by (auto simp: copied_bytes_def)
  have "copied_size d' \<noteq> 0" "sz \<noteq> 0" using assms(3,4) d'(5) by auto
  then have "copy_prepare e i d' z s = (Inr sz, s)"
    using assms(3) d'(4,5,7) by (simp add: copy_prepare_def word_less_nat_alt)
  then show ?thesis
    using d' assms(1,3) by (intro copy_one_block [OF assms(1) d'(1)]) (auto simp: copy_request_ok_def secure_desc_def)
qed

lemma copy_blocks_progress:
  assumes "copy_request_ok e i d src blk sz" "bl1_plat_get_image_desc i s = Some d" "img_state d = IMAGE_STATE_RESET"
    and "bl1_fwu_image_check_overlaps e i (upd_desc i (\<lambda>d. d\<lparr>image_size := sz\<rparr>) s) = Returned 0"
    and "INVALID_IMAGE_ID \<in> set (bl1_fwu_loaded_ids s)"
  shows "k * unat blk < unat sz \<Longrightarrow> \<exists>s'. copy_blocks e i src blk sz (Suc k) s = (Returned 0, s')
    \<and> copied_bytes i d sz src (fwu_mem s) (min (Suc k * unat blk) (unat sz)) s'"
proof (induction k)
  case 0
  then show ?case using first_block [OF assms] by simp
next
  case (Suc k)
  have nz: "0 < unat blk" using assms(1) by (simp add: copy_request_ok_def unat_gt_0)
  obtain s1 where s1: "copy_blocks e i src blk sz (Suc k) s = (Returned 0, s1)"
      "copied_bytes i d sz src (fwu_mem s) (Suc k * unat blk) s1"
    using Suc by (auto simp: min_def split: if_splits)
  have step: "copy_blocks e i src blk sz (Suc (Suc k)) s =
      bl1_fwu_image_copy e i (src + of_nat (Suc k * unat blk)) blk sz NON_SECURE s1"
    by (subst copy_blocks.simps(2)) (simp only: s1(1), simp)
  from later_block [OF assms(1) s1(2) Suc.prems] nz show ?case
    unfolding step by (simp add: ac_simps)
qed

text \<open>
  C21: a client that sends a secure image block by block succeeds. When the request is well formed,
  the image does not overlap a loaded one and there is room in the list, \<open>ceil (sz / blk)\<close> requests
  all return 0 and leave the image in the state \<open>COPIED\<close>, its slot holding exactly the source bytes,
  and no other byte of memory changed.
\<close>

theorem copying_completes:
  assumes "copy_request_ok e i d src blk sz" "bl1_plat_get_image_desc i s = Some d" "img_state d = IMAGE_STATE_RESET"
    and "bl1_fwu_image_check_overlaps e i (upd_desc i (\<lambda>d. d\<lparr>image_size := sz\<rparr>) s) = Returned 0"
    and "INVALID_IMAGE_ID \<in> set (bl1_fwu_loaded_ids s)"
  shows "\<exists>s' d'. copy_blocks e i src blk sz ((unat sz + unat blk - 1) div unat blk) s = (Returned 0, s')
    \<and> bl1_plat_get_image_desc i s' = Some d' \<and> img_state d' = IMAGE_STATE_COPIED \<and> image_size d' = sz
    \<and> mem_bytes (fwu_mem s') (image_base d) sz = mem_bytes (fwu_mem s) src sz
    \<and> (\<forall>a. in_block (image_base d) sz a \<or> fwu_mem s' a = fwu_mem s a)"
proof -
  have nz: "0 < unat blk" "0 < unat sz" using assms(1) by (simp_all add: copy_request_ok_def unat_gt_0)
  define k where "k = (unat sz - 1) div unat blk"
  have eq: "unat sz + unat blk - 1 = (unat sz - 1) + unat blk" using nz by simp
  have n: "(unat sz + unat blk - 1) div unat blk = Suc k"
    unfolding eq k_def using nz(1) by (subst div_add_self2) simp_all
  have "k * unat blk \<le> unat sz - 1" by (simp add: k_def)
  then have lt: "k * unat blk < unat sz" using nz by simp
  have "unat sz - 1 < Suc k * unat blk" unfolding k_def using nz(1) by (metis dividend_less_div_times mult_Suc add.commute)
  then have m: "min (Suc k * unat blk) (unat sz) = unat sz" by simp
  obtain s' where s': "copy_blocks e i src blk sz (Suc k) s = (Returned 0, s')"
      "copied_bytes i d sz src (fwu_mem s) (unat sz) s'"
    using copy_blocks_progress [OF assms lt] unfolding m by blast
  from s'(2) obtain d' where d': "bl1_plat_get_image_desc i s' = Some d'" "image_size d' = sz" "img_state d' = IMAGE_STATE_COPIED"
      "copied_size d' = sz" "fwu_mem s' = mem_copy (image_base d) src sz (fwu_mem s)"
    by (auto simp: copied_bytes_def dest: word_unat_eq_iff [THEN iffD2])
  show ?thesis
    unfolding n using s'(1) d'
    by (intro exI [of _ s'] exI [of _ d']) (simp add: mem_bytes_copied, simp add: mem_copy_def)
qed

text \<open>Eight bytes in blocks of three: three requests, the last one of two bytes.\<close>

theorem copying_completes_witness:
  "mem_bytes (fwu_mem (snd (copy_blocks (demo_fwu_env True) 3 0x8000 3 8 3 demo_fwu_state))) 0x1000 8
     = [0xA5, 0, 0, 0, 0, 0, 0, 0]"
proof -
  let ?d = "demo_image IMAGE_STATE_RESET 0 0"
  have g: "bl1_plat_get_image_desc 3 demo_fwu_state = Some ?d"
    by (simp add: bl1_plat_get_image_desc_def demo_fwu_state_def demo_state_def demo_image_def)
  have "copy_request_ok (demo_fwu_env True) 3 ?d 0x8000 3 8"
    by (auto simp: copy_request_ok_def copy_source_ok_def demo_fwu_env_def demo_image_def secure_desc_def desc_ok_def
        GET_SECURITY_STATE_def in_block_iff)
  moreover have "bl1_fwu_image_check_overlaps (demo_fwu_env True) 3 (upd_desc 3 (\<lambda>d. d\<lparr>image_size := 8\<rparr>) demo_fwu_state) = Returned 0"
    by (simp add: demo_fwu_state_def demo_defs overlaps_none)
  moreover have "mem_bytes (fwu_mem demo_fwu_state) 0x8000 8 = [0xA5, 0, 0, 0, 0, 0, 0, 0]"
    by (simp add: mem_bytes_def demo_fwu_state_def demo_state_def demo_mem_def upt_rec)
  ultimately show ?thesis
    using copying_completes [where e = "demo_fwu_env True" and src = "0x8000" and blk = 3 and sz = 8, OF _ g]
    by (auto simp: demo_image_def demo_fwu_state_def demo_state_def)
qed

end
