(* ===== verification/Bakery.thy ===== *)
theory Bakery
  imports Prelude
begin

text \<open>
  The bakery lock of \<open>lib/locks/bakery/bakery_lock_coherent.c\<close> and of \<open>bakery_lock_normal.c\<close>, which
  adds the cache maintenance that makes normal memory behave as the coherent memory assumed here.
  A CPU inside the lock functions is at one of the points of \<open>bakery_pc\<close>; a step of a CPU runs it
  from one access of shared memory to the next, and the CPUs interleave freely.
\<close>

unbundle bit_operations_syntax

section \<open>Data\<close>

definition bakery_get_priority :: "uint32_t \<Rightarrow> uint32_t \<Rightarrow> uint32_t" where
  "bakery_get_priority t pos = push_bit 8 t OR pos"

abbreviation (input) CHOOSING_TICKET :: uint32_t where "CHOOSING_TICKET \<equiv> 1"
abbreviation (input) CHOSEN_TICKET :: uint32_t where "CHOSEN_TICKET \<equiv> 0"

definition bakery_is_choosing :: "uint16_t \<Rightarrow> bool" where
  "bakery_is_choosing info \<longleftrightarrow> (ucast info :: uint32_t) AND 1 = CHOOSING_TICKET"

definition bakery_ticket_number :: "uint16_t \<Rightarrow> uint32_t" where
  "bakery_ticket_number info = drop_bit 1 (ucast info) AND 0x7FFF"

definition make_bakery_data :: "uint32_t \<Rightarrow> uint32_t \<Rightarrow> uint16_t" where
  "make_bakery_data choosing num = ucast ((choosing AND 1) OR push_bit 1 num)"

text \<open>
  Where a CPU is, with its local variables: outside; in the loop of \<open>bakery_get_ticket\<close> about to read entry \<open>they\<close>, with the
  maximum so far; in the loop of \<open>bakery_lock_get\<close> about to read entry \<open>they\<close>; in its inner loop
  waiting for a ticket to change; holding the lock; stopped by an assertion.
\<close>

datatype bakery_pc =
    Outside
  | Choosing nat uint32_t
  | Waiting uint32_t nat
  | Spinning uint32_t nat uint32_t
  | Holding uint32_t
  | Stopped_by_assert

record bakery_state =
  lock_data :: "nat \<Rightarrow> uint16_t"
  bakery_pcs :: "nat \<Rightarrow> bakery_pc"

section \<open>Steps\<close>

text \<open>One step within \<open>bakery_get_ticket\<close>, with \<open>n\<close> CPUs.\<close>

definition get_ticket_step :: "nat \<Rightarrow> nat \<Rightarrow> nat \<Rightarrow> uint32_t \<Rightarrow> bakery_state \<Rightarrow> bakery_state" where
  "get_ticket_step n me they my_ticket s =
     (if they < n then
        let their_ticket = bakery_ticket_number (lock_data s they)
        in s\<lparr>bakery_pcs := (bakery_pcs s)
               (me := Choosing (Suc they) (if their_ticket > my_ticket then their_ticket else my_ticket))\<rparr>
      else
        let my_ticket = my_ticket + 1
        in s\<lparr>lock_data := (lock_data s)(me := make_bakery_data CHOSEN_TICKET my_ticket),
             bakery_pcs := (bakery_pcs s)(me := Waiting my_ticket 0)\<rparr>)"

text \<open>One step of the loop of \<open>bakery_lock_get\<close> over the contenders.\<close>

definition lock_get_step :: "nat \<Rightarrow> nat \<Rightarrow> uint32_t \<Rightarrow> nat \<Rightarrow> bakery_state \<Rightarrow> bakery_state" where
  "lock_get_step n me my_ticket they s =
     (if \<not> they < n then s\<lparr>bakery_pcs := (bakery_pcs s)(me := Holding my_ticket)\<rparr>
      else if me = they then s\<lparr>bakery_pcs := (bakery_pcs s)(me := Waiting my_ticket (Suc they))\<rparr>
      else
        let their_bakery_data = lock_data s they;
            my_prio = bakery_get_priority my_ticket (of_nat me)
        in if bakery_is_choosing their_bakery_data then s
           else
             let their_ticket = bakery_ticket_number their_bakery_data
             in if their_ticket \<noteq> 0 \<and> bakery_get_priority their_ticket (of_nat they) < my_prio
                then s\<lparr>bakery_pcs := (bakery_pcs s)(me := Spinning my_ticket they their_ticket)\<rparr>
                else s\<lparr>bakery_pcs := (bakery_pcs s)(me := Waiting my_ticket (Suc they))\<rparr>)"

text \<open>
  A step of CPU \<open>me\<close>. Outside, it enters \<open>bakery_lock_get\<close>; holding the lock, it calls
  \<open>bakery_lock_release\<close>. The assertions read the CPU's own entry.
\<close>

definition bakery_cpu_step :: "nat \<Rightarrow> nat \<Rightarrow> bakery_state \<Rightarrow> bakery_state" where
  "bakery_cpu_step n me s =
     (case bakery_pcs s me of
        Outside \<Rightarrow>
          if bakery_ticket_number (lock_data s me) \<noteq> 0
          then s\<lparr>bakery_pcs := (bakery_pcs s)(me := Stopped_by_assert)\<rparr>
          else s\<lparr>lock_data := (lock_data s)(me := make_bakery_data CHOOSING_TICKET 0),
                 bakery_pcs := (bakery_pcs s)(me := Choosing 0 0)\<rparr>
      | Choosing they my_ticket \<Rightarrow> get_ticket_step n me they my_ticket s
      | Waiting my_ticket they \<Rightarrow> lock_get_step n me my_ticket they s
      | Spinning my_ticket they their_ticket \<Rightarrow>
          if their_ticket = bakery_ticket_number (lock_data s they) then s
          else s\<lparr>bakery_pcs := (bakery_pcs s)(me := Waiting my_ticket (Suc they))\<rparr>
      | Holding my_ticket \<Rightarrow>
          if bakery_ticket_number (lock_data s me) = 0
          then s\<lparr>bakery_pcs := (bakery_pcs s)(me := Stopped_by_assert)\<rparr>
          else s\<lparr>lock_data := (lock_data s)(me := 0), bakery_pcs := (bakery_pcs s)(me := Outside)\<rparr>
      | Stopped_by_assert \<Rightarrow> s)"

section \<open>Tickets and priorities\<close>

lemma make_choosing [simp]:
  "bakery_is_choosing (make_bakery_data CHOOSING_TICKET 0)" "bakery_ticket_number (make_bakery_data CHOOSING_TICKET 0) = 0"
  "\<not> bakery_is_choosing 0" "bakery_ticket_number 0 = 0"
  by (simp_all add: bakery_is_choosing_def bakery_ticket_number_def make_bakery_data_def)

lemma bit_below: "take_bit k x = x \<Longrightarrow> bit x n \<Longrightarrow> n < k"
  using bit_take_bit_iff [of k x n] by simp

lemma ticket_bits: "(t :: uint32_t) < 0x8000 \<Longrightarrow> bit t n \<Longrightarrow> n < 15"
  by (rule bit_below) (simp_all add: word_unat_eq_iff unsigned_take_bit_eq take_bit_nat_eq_self word_less_nat_alt)

lemma make_chosen [simp]:
  "\<not> bakery_is_choosing (make_bakery_data CHOSEN_TICKET t)"
proof -
  have "\<not> bit (ucast (make_bakery_data CHOSEN_TICKET t) AND (1 :: uint32_t)) 0"
    by (simp add: make_bakery_data_def bit_simps del: push_bit_Suc)
  then show ?thesis by (auto simp: bakery_is_choosing_def)
qed

lemma ticket_make [simp]:
  assumes "t < 0x8000"
  shows "bakery_ticket_number (make_bakery_data CHOSEN_TICKET t) = t"
proof (rule bit_word_eqI)
  fix n assume "n < LENGTH(32)"
  have m: "(0x7FFF :: uint32_t) = mask 15" by (simp add: mask_eq_exp_minus_1)
  show "bit (bakery_ticket_number (make_bakery_data CHOSEN_TICKET t)) n \<longleftrightarrow> bit t n"
    unfolding bakery_ticket_number_def make_bakery_data_def m
    using ticket_bits [OF assms, of n] by (auto simp: bit_simps simp del: push_bit_Suc)
qed

lemma priority_value':
  assumes "t \<le> 0x8000" "p < 256"
  shows "unat (bakery_get_priority t (of_nat p)) = unat t * 256 + p"
proof -
  have "push_bit 8 t AND (of_nat p :: uint32_t) = 0"
  proof (rule bit_word_eqI)
    fix n assume "n < LENGTH(32)"
    have "take_bit 8 p = p" using assms(2) by (simp add: take_bit_nat_eq_self)
    then have "bit p n \<Longrightarrow> n < 8" by (rule bit_below)
    then show "bit (push_bit 8 t AND (of_nat p :: uint32_t)) n \<longleftrightarrow> bit (0 :: uint32_t) n"
      by (auto simp: bit_simps)
  qed
  then have "bakery_get_priority t (of_nat p) = push_bit 8 t + of_nat p"
    unfolding bakery_get_priority_def by (rule disjunctive_add_eq_or [symmetric])
  moreover have "unat (push_bit 8 t) = unat t * 256"
    using assms(1) by (simp add: push_bit_eq_mult word_le_nat_alt unat_word_ariths)
  ultimately show ?thesis
    using assms by (simp add: unat_word_ariths unat_of_nat word_le_nat_alt)
qed

lemmas priority_value = priority_value' [OF order.strict_implies_order]

text \<open>Priorities order tickets first and positions second.\<close>

lemma priority_less:
  assumes "t < 0x8000" "t' < 0x8000" "p < 256" "p' < 256"
  shows "bakery_get_priority t (of_nat p) < bakery_get_priority t' (of_nat p') \<longleftrightarrow> t < t' \<or> t = t' \<and> p < p'"
  using assms(3,4) unfolding word_less_nat_alt priority_value [OF assms(1,3)] priority_value [OF assms(2,4)]
  by (auto simp: word_unat_eq_iff)

section \<open>The invariant\<close>

text \<open>The ticket a CPU shows to the others, and the entry it has written.\<close>

fun shown_ticket :: "bakery_pc \<Rightarrow> uint32_t" where
  "shown_ticket (Waiting t k) = t"
| "shown_ticket (Spinning t k t') = t"
| "shown_ticket (Holding t) = t"
| "shown_ticket _ = 0"

fun written_data :: "bakery_pc \<Rightarrow> uint16_t" where
  "written_data (Choosing k m) = make_bakery_data CHOOSING_TICKET 0"
| "written_data (Waiting t k) = make_bakery_data CHOSEN_TICKET t"
| "written_data (Spinning t k t') = make_bakery_data CHOSEN_TICKET t"
| "written_data (Holding t) = make_bakery_data CHOSEN_TICKET t"
| "written_data _ = 0"

fun pc_ok :: "nat \<Rightarrow> nat \<Rightarrow> bakery_pc \<Rightarrow> bool" where
  "pc_ok n c Outside = True"
| "pc_ok n c (Choosing k m) = (k \<le> n \<and> m < 0x8000)"
| "pc_ok n c (Waiting t k) = (k \<le> n \<and> t \<noteq> 0 \<and> t < 0x8000)"
| "pc_ok n c (Spinning t k t') =
     (k < n \<and> k \<noteq> c \<and> t \<noteq> 0 \<and> t < 0x8000 \<and> t' \<noteq> 0 \<and> t' < 0x8000 \<and> (t' < t \<or> t' = t \<and> k < c))"
| "pc_ok n c (Holding t) = (t \<noteq> 0 \<and> t < 0x8000)"
| "pc_ok n c Stopped_by_assert = False"

text \<open>CPU \<open>c\<close> has seen entry \<open>j\<close> and gone on.\<close>

fun gone_past :: "bakery_pc \<Rightarrow> nat \<Rightarrow> bool" where
  "gone_past (Waiting t k) j = (j < k)"
| "gone_past (Spinning t k t') j = (j < k)"
| "gone_past (Holding t) j = True"
| "gone_past _ j = False"

text \<open>CPU \<open>j\<close>, if it wants the lock at all, comes or will come after CPU \<open>c\<close> with ticket \<open>t\<close>.\<close>

fun comes_after :: "nat \<Rightarrow> uint32_t \<Rightarrow> nat \<Rightarrow> bakery_pc \<Rightarrow> bool" where
  "comes_after c t j (Choosing k m) = (c < k \<longrightarrow> t \<le> m)"
| "comes_after c t j (Waiting t' k) = (t < t' \<or> t = t' \<and> c < j)"
| "comes_after c t j (Spinning t' k t'') = (t < t' \<or> t = t' \<and> c < j)"
| "comes_after c t j (Holding t') = (t < t' \<or> t = t' \<and> c < j)"
| "comes_after c t j _ = True"

definition bakery_inv :: "nat \<Rightarrow> bakery_state \<Rightarrow> bool" where
  "bakery_inv n s \<longleftrightarrow>
     n \<le> 256 \<and> (\<forall>c < n. lock_data s c = written_data (bakery_pcs s c) \<and> pc_ok n c (bakery_pcs s c))
     \<and> (\<forall>c < n. \<forall>j < n. c \<noteq> j \<and> gone_past (bakery_pcs s c) j \<longrightarrow>
          comes_after c (shown_ticket (bakery_pcs s c)) j (bakery_pcs s j))
     \<and> (\<forall>c < n. \<forall>j < n. \<forall>t t'. bakery_pcs s c = Spinning t j t' \<and> shown_ticket (bakery_pcs s j) \<noteq> t' \<longrightarrow>
          comes_after c t j (bakery_pcs s j))"

lemma ticket_written: "pc_ok n c pc \<Longrightarrow> bakery_ticket_number (written_data pc) = shown_ticket pc"
  by (cases pc) auto

lemma choosing_written: "bakery_is_choosing (written_data pc) \<longleftrightarrow> (\<exists>k m. pc = Choosing k m)"
  by (cases pc) simp_all

lemma shown_bound: "pc_ok n c pc \<Longrightarrow> shown_ticket pc < 0x8000"
  by (cases pc) auto

lemma comes_after_shown:
  "pc_ok n j pc \<Longrightarrow> \<not> (\<exists>k m. pc = Choosing k m) \<Longrightarrow>
     comes_after c t j pc \<longleftrightarrow> shown_ticket pc = 0 \<or> t < shown_ticket pc \<or> t = shown_ticket pc \<and> c < j"
  by (cases pc) auto

text \<open>
  What the step of CPU \<open>x\<close> can do to its own control point: every case of \<open>bakery_cpu_step\<close> under the
  invariant, with the tests on shared data read as tests on the control points of the others.
\<close>

inductive bakery_move :: "nat \<Rightarrow> nat \<Rightarrow> (nat \<Rightarrow> bakery_pc) \<Rightarrow> bakery_pc \<Rightarrow> bool" for n x pcs where
  enter: "pcs x = Outside \<Longrightarrow> bakery_move n x pcs (Choosing 0 0)"
| scan: "pcs x = Choosing k m \<Longrightarrow> k < n \<Longrightarrow> bakery_move n x pcs (Choosing (Suc k) (max m (shown_ticket (pcs k))))"
| choose: "pcs x = Choosing n m \<Longrightarrow> bakery_move n x pcs (Waiting (m + 1) 0)"
| acquire: "pcs x = Waiting t n \<Longrightarrow> bakery_move n x pcs (Holding t)"
| skip_self: "pcs x = Waiting t x \<Longrightarrow> x < n \<Longrightarrow> bakery_move n x pcs (Waiting t (Suc x))"
| go_past: "pcs x = Waiting t k \<Longrightarrow> k < n \<Longrightarrow> k \<noteq> x \<Longrightarrow> \<not> (\<exists>k' m. pcs k = Choosing k' m) \<Longrightarrow>
     shown_ticket (pcs k) = 0 \<or> t < shown_ticket (pcs k) \<or> t = shown_ticket (pcs k) \<and> x < k \<Longrightarrow>
     bakery_move n x pcs (Waiting t (Suc k))"
| spin: "pcs x = Waiting t k \<Longrightarrow> k < n \<Longrightarrow> k \<noteq> x \<Longrightarrow> t' = shown_ticket (pcs k) \<Longrightarrow> t' \<noteq> 0 \<Longrightarrow>
     t' < t \<or> t' = t \<and> k < x \<Longrightarrow> bakery_move n x pcs (Spinning t k t')"
| wake: "pcs x = Spinning t k t' \<Longrightarrow> t' \<noteq> shown_ticket (pcs k) \<Longrightarrow> bakery_move n x pcs (Waiting t (Suc k))"
| release: "pcs x = Holding t \<Longrightarrow> bakery_move n x pcs Outside"

lemmas bakery_step_defs = bakery_cpu_step_def get_ticket_step_def lock_get_step_def Let_def

lemma cpu_step_move:
  assumes "bakery_inv n s" "x < n" "bakery_cpu_step n x s \<noteq> s"
  shows "\<exists>pc. bakery_move n x (bakery_pcs s) pc \<and> bakery_cpu_step n x s =
    s\<lparr>lock_data := (lock_data s)(x := written_data pc), bakery_pcs := (bakery_pcs s)(x := pc)\<rparr>"
proof -
  have n: "n \<le> 256" and d: "\<And>c. c < n \<Longrightarrow> lock_data s c = written_data (bakery_pcs s c)"
    and ok: "\<And>c. c < n \<Longrightarrow> pc_ok n c (bakery_pcs s c)"
    using assms(1) by (simp_all add: bakery_inv_def)
  have tk: "\<And>c. c < n \<Longrightarrow> bakery_ticket_number (lock_data s c) = shown_ticket (bakery_pcs s c)"
    using d ticket_written [OF ok] by simp
  have keep: "s\<lparr>bakery_pcs := (bakery_pcs s)(x := pc)\<rparr> =
      s\<lparr>lock_data := (lock_data s)(x := written_data pc), bakery_pcs := (bakery_pcs s)(x := pc)\<rparr>"
    if "written_data pc = written_data (bakery_pcs s x)" for pc
    using that d [OF assms(2)] by (simp add: fun_upd_idem)
  show ?thesis
  proof (cases "bakery_pcs s x")
    case Outside
    then show ?thesis
      using tk [OF assms(2)] by (auto simp: bakery_step_defs intro!: exI [of _ "Choosing 0 0"] bakery_move.enter)
  next
    case (Choosing k m)
    show ?thesis
    proof (cases "k < n")
      case True
      have mx: "(if m < a then a else m) = max m a" for a by (auto simp: max_def)
      have "bakery_cpu_step n x s = s\<lparr>bakery_pcs := (bakery_pcs s)(x := Choosing (Suc k) (max m (shown_ticket (bakery_pcs s k))))\<rparr>"
        using Choosing tk [OF True] True by (simp add: bakery_step_defs mx)
      then show ?thesis using keep Choosing bakery_move.scan [of "bakery_pcs s" x k m n] True by (metis written_data.simps(1))
    next
      case False
      then have "k = n" using ok [OF assms(2)] Choosing by simp
      then show ?thesis
        using Choosing by (auto simp: bakery_step_defs intro!: exI [of _ "Waiting (m + 1) 0"] bakery_move.choose)
    qed
  next
    case (Waiting t k)
    have t: "t < 0x8000" "k \<le> n" using ok [OF assms(2)] Waiting by simp_all
    consider "k = n" | "k < n" "k = x" | "k < n" "k \<noteq> x" using t by linarith
    then show ?thesis
    proof cases
      case 1
      then show ?thesis using keep [of "Holding t"] Waiting bakery_move.acquire [of "bakery_pcs s" x t n]
        by (auto simp: bakery_step_defs)
    next
      case 2
      then show ?thesis using keep [of "Waiting t (Suc x)"] Waiting bakery_move.skip_self [of "bakery_pcs s" x t n]
        by (auto simp: bakery_step_defs)
    next
      case 3
      let ?t = "shown_ticket (bakery_pcs s k)"
      have pr: "bakery_get_priority ?t (of_nat k) < bakery_get_priority t (of_nat x) \<longleftrightarrow> ?t < t \<or> ?t = t \<and> k < x"
        using n 3(1) assms(2) t(1) shown_bound [OF ok [OF 3(1)]] by (intro priority_less) auto
      have nc: "\<not> bakery_is_choosing (lock_data s k)"
        using assms(3) Waiting 3 by (auto simp: bakery_step_defs)
      then have nc': "\<not> (\<exists>k' m. bakery_pcs s k = Choosing k' m)" using d [OF 3(1)] choosing_written by simp
      show ?thesis
      proof (cases "?t \<noteq> 0 \<and> (?t < t \<or> ?t = t \<and> k < x)")
        case True
        then show ?thesis
          using keep [of "Spinning t k ?t"] Waiting bakery_move.spin [of "bakery_pcs s" x t k n ?t] 3 nc pr tk [OF 3(1)]
          by (auto simp: bakery_step_defs)
      next
        case False
        then have "?t = 0 \<or> t < ?t \<or> t = ?t \<and> x < k" using 3(2) by (auto simp: not_less)
        then show ?thesis
          using keep [of "Waiting t (Suc k)"] Waiting bakery_move.go_past [of "bakery_pcs s" x t k n] 3 nc nc' pr tk [OF 3(1)] False
          by (auto simp: bakery_step_defs)
      qed
    qed
  next
    case (Spinning t k t')
    then have "k < n" using ok [OF assms(2)] by simp
    then show ?thesis
      using Spinning keep [of "Waiting t (Suc k)"] assms(3) tk bakery_move.wake [of "bakery_pcs s" x t k t' n]
      by (auto simp: bakery_step_defs split: if_splits)
  next
    case (Holding t)
    then show ?thesis
      using ok [OF assms(2)] tk [OF assms(2)] by (auto simp: bakery_step_defs intro!: exI [of _ Outside] bakery_move.release)
  next
    case Stopped_by_assert
    then show ?thesis using ok [OF assms(2)] by simp
  qed
qed

lemma move_pc_ok:
  assumes "bakery_move n x pcs pc" "\<And>c. c < n \<Longrightarrow> pc_ok n c (pcs c)" "x < n" "shown_ticket pc < 0x8000"
  shows "pc_ok n x pc"
  using assms(1)
proof cases
  case (scan k m)
  then show ?thesis using assms(2) [OF assms(3)] shown_bound [OF assms(2) [OF scan(3)]] by (simp add: max_def)
next
  case (choose m)
  have "m < 0x8000" using choose assms(2) [OF assms(3)] by simp
  then have "m + 1 \<noteq> 0" by (auto simp: word_less_nat_alt unat_word_ariths word_unat_eq_iff)
  then show ?thesis using choose assms(4) by simp
next
  case (spin t k t')
  then show ?thesis using assms(2) [OF assms(3)] shown_bound [OF assms(2) [OF spin(3)]] by simp
qed (use assms(2) [OF assms(3)] in auto)

lemma move_own:
  assumes "bakery_move n x pcs pc" "\<And>c. c < n \<Longrightarrow> pc_ok n c (pcs c)" "x < n" "j < n" "j \<noteq> x" "gone_past pc j"
    and "gone_past (pcs x) j \<Longrightarrow> comes_after x (shown_ticket (pcs x)) j (pcs j)"
    and "\<And>t t'. pcs x = Spinning t j t' \<Longrightarrow> shown_ticket (pcs j) \<noteq> t' \<Longrightarrow> comes_after x t j (pcs j)"
  shows "comes_after x (shown_ticket pc) j (pcs j)"
  using assms(1)
proof cases
  case (go_past t k)
  then show ?thesis
    using assms(4-7) comes_after_shown [OF assms(2) [OF assms(4)], of x t]
    by (cases "j = k") (auto simp: less_Suc_eq)
next
  case (wake t k t')
  then show ?thesis using assms(5-8) by (cases "j = k") (auto simp: less_Suc_eq)
qed (use assms(4-7) in \<open>auto simp: less_Suc_eq\<close>)

lemma move_other:
  assumes "bakery_move n x pcs pc" "\<And>c. c < n \<Longrightarrow> pc_ok n c (pcs c)" "x < n" "c < n"
    and "comes_after c (shown_ticket (pcs c)) x (pcs x)"
  shows "comes_after c (shown_ticket (pcs c)) x pc"
  using assms(1)
proof cases
  case (scan k m)
  then show ?thesis using assms(5) by (auto simp: less_Suc_eq max_def)
next
  case (choose m)
  have "m < 0x8000" using choose assms(2) [OF assms(3)] by simp
  then have "m < m + 1" by (auto simp: word_less_nat_alt unat_word_ariths)
  then show ?thesis using choose assms(4,5) by auto
qed (use assms(5) in auto)

lemma move_shown:
  "bakery_move n x pcs pc \<Longrightarrow> shown_ticket (pcs x) \<noteq> 0 \<Longrightarrow> shown_ticket pc = shown_ticket (pcs x) \<or> pc = Outside"
  by (cases rule: bakery_move.cases) auto

lemma move_inv:
  assumes "bakery_inv n s" "x < n" "bakery_move n x (bakery_pcs s) pc" "shown_ticket pc < 0x8000"
  shows "bakery_inv n (s\<lparr>lock_data := (lock_data s)(x := written_data pc), bakery_pcs := (bakery_pcs s)(x := pc)\<rparr>)"
proof -
  let ?pcs = "bakery_pcs s"
  have ok: "\<And>c. c < n \<Longrightarrow> pc_ok n c (?pcs c)"
    and past: "\<And>c j. c < n \<Longrightarrow> j < n \<Longrightarrow> c \<noteq> j \<Longrightarrow> gone_past (?pcs c) j \<Longrightarrow>
        comes_after c (shown_ticket (?pcs c)) j (?pcs j)"
    and spin: "\<And>c j t t'. c < n \<Longrightarrow> j < n \<Longrightarrow> ?pcs c = Spinning t j t' \<Longrightarrow> shown_ticket (?pcs j) \<noteq> t' \<Longrightarrow>
        comes_after c t j (?pcs j)"
    using assms(1) unfolding bakery_inv_def by blast+
  note own = move_own [OF assms(3) ok assms(2)] and other = move_other [OF assms(3) ok assms(2)]
  have past': "comes_after c (shown_ticket ((?pcs(x := pc)) c)) j ((?pcs(x := pc)) j)"
    if "c < n" "j < n" "c \<noteq> j" "gone_past ((?pcs(x := pc)) c) j" for c j
  proof (cases "c = x")
    case True
    then show ?thesis using own [of j] past [of x j] spin [of x j] that assms(2) by auto
  next
    case False
    then show ?thesis using other [of c] past [of c j] that by (cases "j = x") auto
  qed
  have spin': "comes_after c t j ((?pcs(x := pc)) j)"
    if "c < n" "j < n" "(?pcs(x := pc)) c = Spinning t j t'" "shown_ticket ((?pcs(x := pc)) j) \<noteq> t'" for c j t t'
  proof (cases "c = x")
    case True
    then have "pc = Spinning t j t'" "j \<noteq> x" using that move_pc_ok [OF assms(3) ok assms(2,4)] by auto
    then show ?thesis using assms(3) that True by (auto elim: bakery_move.cases)
  next
    case False
    then have c: "?pcs c = Spinning t j t'" using that(3) by simp
    show ?thesis
    proof (cases "j = x")
      case True
      then show ?thesis
        using spin [OF that(1,2) c] other [OF _ that(1)] move_shown [OF assms(3)] that(4) ok [OF that(1)] c
        by (cases "shown_ticket (?pcs x) = t'") auto
    next
      case False
      then show ?thesis using spin [OF that(1,2) c] that(4) by simp
    qed
  qed
  let ?s' = "s\<lparr>lock_data := (lock_data s)(x := written_data pc), bakery_pcs := ?pcs(x := pc)\<rparr>"
  have sel: "lock_data ?s' = (lock_data s)(x := written_data pc)" "bakery_pcs ?s' = ?pcs(x := pc)" by simp_all
  have "n \<le> 256" using assms(1) by (simp add: bakery_inv_def)
  moreover have "\<forall>c < n. ((lock_data s)(x := written_data pc)) c = written_data ((?pcs(x := pc)) c)
      \<and> pc_ok n c ((?pcs(x := pc)) c)"
    using assms(1) move_pc_ok [OF assms(3) ok assms(2,4)] by (simp add: bakery_inv_def)
  ultimately show ?thesis using past' spin' unfolding bakery_inv_def sel by presburger
qed

end
