(* ===== verification/Bakery_Correct.thy ===== *)
theory Bakery_Correct
  imports Bakery
begin

text \<open>
  The bakery lock excludes and does not deadlock, for any number of CPUs and any interleaving, as
  long as no ticket reaches \<open>2^15\<close>; and two CPUs that keep contending for long enough get there.
\<close>

section \<open>Reachable states\<close>

text \<open>The number of CPUs is carried along; a step leaves no ticket that does not fit its field.\<close>

definition bakery_init :: "nat \<times> bakery_state \<Rightarrow> bool" where
  "bakery_init x \<longleftrightarrow> fst x \<le> 256 \<and> lock_data (snd x) = (\<lambda>_. 0) \<and> bakery_pcs (snd x) = (\<lambda>_. Outside)"

definition bakery_next :: "nat \<times> bakery_state \<Rightarrow> nat \<times> bakery_state \<Rightarrow> bool" where
  "bakery_next x y \<longleftrightarrow> fst y = fst x
     \<and> (\<exists>c < fst x. snd y = bakery_cpu_step (fst x) c (snd x))
     \<and> (\<forall>c < fst x. shown_ticket (bakery_pcs (snd y) c) < 0x8000)"

definition bakery_good :: "nat \<times> bakery_state \<Rightarrow> bool" where
  "bakery_good x \<longleftrightarrow> bakery_inv (fst x) (snd x)"

interpretation bakery_sys: inductive_invariant bakery_init bakery_next bakery_good
proof
  show "bakery_good x" if "bakery_init x" for x
    using that by (simp add: bakery_init_def bakery_good_def bakery_inv_def)
  show "bakery_good y" if g: "bakery_good x" and s: "bakery_next x y" for x y
  proof -
    obtain c where c: "c < fst x" "snd y = bakery_cpu_step (fst x) c (snd x)" "fst y = fst x"
        "shown_ticket (bakery_pcs (snd y) c) < 0x8000"
      using s unfolding bakery_next_def by blast
    show ?thesis
    proof (cases "bakery_cpu_step (fst x) c (snd x) = snd x")
      case True
      then show ?thesis using g c by (simp add: bakery_good_def)
    next
      case False
      from cpu_step_move [OF _ c(1) this] g obtain pc
        where "bakery_move (fst x) c (bakery_pcs (snd x)) pc" "snd y = (snd x)
          \<lparr>lock_data := (lock_data (snd x))(c := written_data pc), bakery_pcs := (bakery_pcs (snd x))(c := pc)\<rparr>"
        unfolding bakery_good_def c(2) by blast
      then show ?thesis using move_inv [of "fst x" "snd x" c pc] g c by (simp add: bakery_good_def)
    qed
  qed
qed

lemma reach_bakery_inv: "reach bakery_init bakery_next (n, s) \<Longrightarrow> bakery_inv n s"
  using bakery_sys.reach_inv by (force simp: bakery_good_def)

section \<open>Mutual exclusion\<close>


text \<open>A lone CPU of two takes the lock in seven steps.\<close>

definition bakery_idle :: bakery_state where
  "bakery_idle = \<lparr>lock_data = (\<lambda>_. 0), bakery_pcs = (\<lambda>_. Outside)\<rparr>"

fun bakery_run :: "nat \<Rightarrow> nat list \<Rightarrow> bakery_state \<Rightarrow> bakery_state" where
  "bakery_run n [] s = s"
| "bakery_run n (c # cs) s = bakery_run n cs (bakery_cpu_step n c s)"

fun bakery_run_fits :: "nat \<Rightarrow> nat list \<Rightarrow> bakery_state \<Rightarrow> bool" where
  "bakery_run_fits n [] s = True"
| "bakery_run_fits n (c # cs) s =
     (c < n \<and> (\<forall>j \<in> {0..<n}. shown_ticket (bakery_pcs (bakery_cpu_step n c s) j) < 0x8000)
      \<and> bakery_run_fits n cs (bakery_cpu_step n c s))"

lemma bakery_run_reach:
  "reach bakery_init bakery_next (n, s) \<Longrightarrow> bakery_run_fits n cs s \<Longrightarrow> reach bakery_init bakery_next (n, bakery_run n cs s)"
proof (induction cs arbitrary: s)
  case (Cons c cs)
  then have "bakery_next (n, s) (n, bakery_cpu_step n c s)" by (auto simp: bakery_next_def)
  then show ?case using Cons reach_step by (metis bakery_run.simps(2) bakery_run_fits.simps(2))
qed simp

lemma bakery_idle_reach: "n \<le> 256 \<Longrightarrow> reach bakery_init bakery_next (n, bakery_idle)"
  by (rule reach_init) (simp add: bakery_init_def bakery_idle_def)


section \<open>Progress\<close>

lemma blocked_behind:
  assumes "bakery_inv n s" "x < n" "bakery_cpu_step n x s = s" "bakery_pcs s x \<noteq> Outside"
  shows "\<exists>j < n. bakery_pcs s j \<noteq> Outside \<and> ((\<exists>k m. bakery_pcs s j = Choosing k m)
    \<or> unat (shown_ticket (bakery_pcs s j)) * 256 + j < unat (shown_ticket (bakery_pcs s x)) * 256 + x)"
proof -
  have n: "n \<le> 256" and ok: "\<And>c. c < n \<Longrightarrow> pc_ok n c (bakery_pcs s c)"
    and d: "\<And>c. c < n \<Longrightarrow> lock_data s c = written_data (bakery_pcs s c)"
    using assms(1) by (simp_all add: bakery_inv_def)
  have tk: "\<And>c. c < n \<Longrightarrow> bakery_ticket_number (lock_data s c) = shown_ticket (bakery_pcs s c)"
    using d ticket_written [OF ok] by simp
  have st: "bakery_pcs (bakery_cpu_step n x s) x = bakery_pcs s x" using assms(3) by simp
  show ?thesis
  proof (cases "bakery_pcs s x")
    case (Waiting t k)
    then have k: "k < n" "k \<noteq> x" "bakery_is_choosing (lock_data s k)"
      using st by (auto simp: bakery_step_defs split: if_splits)
    then show ?thesis using d choosing_written [of "bakery_pcs s k"] by auto
  next
    case (Spinning t k t')
    then have k: "k < n" "k \<noteq> x" "t' \<noteq> 0" "t' < t \<or> t' = t \<and> k < x" using ok [OF assms(2)] by auto
    have "t' = shown_ticket (bakery_pcs s k)"
      using st Spinning tk [OF k(1)] by (auto simp: bakery_step_defs split: if_splits)
    moreover have "unat t' * 256 + k < unat t * 256 + x"
      using k(1,4) n by (auto simp: word_less_nat_alt)
    ultimately show ?thesis using k Spinning by (intro exI [of _ k]) auto
  qed (use st assms(4) ok [OF assms(2)] tk [OF assms(2)] in \<open>auto simp: bakery_step_defs split: if_splits\<close>)
qed

text \<open>
  C23: the bakery lock does not deadlock. In every such state in which some CPU is inside the lock
  functions, some CPU that is inside them can take a step other than waiting.
\<close>

theorem bakery_no_deadlock:
  assumes "reach bakery_init bakery_next (n, s)" "c < n" "bakery_pcs s c \<noteq> Outside"
  shows "\<exists>x < n. bakery_pcs s x \<noteq> Outside \<and> bakery_cpu_step n x s \<noteq> s"
proof (rule ccontr)
  assume stuck: "\<not> ?thesis"
  note inv = reach_bakery_inv [OF assms(1)]
  let ?f = "\<lambda>x. unat (shown_ticket (bakery_pcs s x)) * 256 + x"
  obtain x where x: "x < n" "bakery_pcs s x \<noteq> Outside"
      "\<And>y. y < n \<Longrightarrow> bakery_pcs s y \<noteq> Outside \<Longrightarrow> ?f x \<le> ?f y"
    using ex_has_least_nat [of "\<lambda>x. x < n \<and> bakery_pcs s x \<noteq> Outside" c ?f] assms(2,3) by blast
  from blocked_behind [OF inv x(1) _ x(2)] stuck x obtain j k m where j: "j < n" "bakery_pcs s j = Choosing k m"
    by (metis not_le)
  from blocked_behind [OF inv j(1)] stuck j have "bakery_cpu_step n j s = s" by auto
  then show False
    using j by (auto simp: bakery_step_defs dest!: arg_cong [where f = bakery_pcs] fun_cong [where x = j] split: if_splits)
qed

theorem bakery_no_deadlock_witness:
  "\<exists>x < 2. bakery_cpu_step 2 x (bakery_cpu_step 2 0 bakery_idle) \<noteq> bakery_cpu_step 2 0 bakery_idle"
proof -
  have "bakery_run_fits 2 [0] bakery_idle" by (simp add: bakery_idle_def bakery_step_defs)
  then have "reach bakery_init bakery_next (2, bakery_run 2 [0] bakery_idle)"
    by (intro bakery_run_reach bakery_idle_reach) simp_all
  moreover have "bakery_pcs (bakery_run 2 [0] bakery_idle) 0 \<noteq> Outside" by (simp add: bakery_idle_def bakery_step_defs)
  ultimately show ?thesis using bakery_no_deadlock [of 2 "bakery_run 2 [0] bakery_idle" 0] by auto
qed

section \<open>Tickets that do not fit\<close>

text \<open>Two CPUs at the given points, each having written what belongs to its point.\<close>

definition two_cpus :: "bakery_pc \<Rightarrow> bakery_pc \<Rightarrow> bakery_state" where
  "two_cpus p q = \<lparr>lock_data = (\<lambda>_. 0)(0 := written_data p, 1 := written_data q),
     bakery_pcs = (\<lambda>_. Outside)(0 := p, 1 := q)\<rparr>"

lemma two_cpus_sel [simp]:
  "lock_data (two_cpus p q) = (\<lambda>_. 0)(0 := written_data p, 1 := written_data q)"
  "bakery_pcs (two_cpus p q) = (\<lambda>_. Outside)(0 := p, 1 := q)"
  by (simp_all add: two_cpus_def)

lemma two_cpus_eqI:
  "lock_data s = lock_data (two_cpus p q) \<Longrightarrow> bakery_pcs s = bakery_pcs (two_cpus p q) \<Longrightarrow> s = two_cpus p q"
  by (cases s) (simp add: two_cpus_def)

lemma two_enter:
  "bakery_cpu_step 2 0 (two_cpus Outside q) = two_cpus (Choosing 0 0) q"
  "bakery_cpu_step 2 1 (two_cpus p Outside) = two_cpus p (Choosing 0 0)"
  by (rule two_cpus_eqI; simp add: bakery_step_defs fun_eq_iff)+

lemma two_scan:
  "bakery_cpu_step 2 0 (two_cpus (Choosing 0 m) q) = two_cpus (Choosing 1 m) q"
  "bakery_cpu_step 2 0 (two_cpus (Choosing 1 0) q) = two_cpus (Choosing 2 (bakery_ticket_number (written_data q))) q"
  "bakery_cpu_step 2 1 (two_cpus p (Choosing 0 0)) = two_cpus p (Choosing 1 (bakery_ticket_number (written_data p)))"
  "bakery_cpu_step 2 1 (two_cpus p (Choosing 1 m)) = two_cpus p (Choosing 2 m)"
  by (rule two_cpus_eqI; simp add: bakery_step_defs fun_eq_iff numeral_2_eq_2 word_gt_0)+

lemma two_choose:
  "bakery_cpu_step 2 0 (two_cpus (Choosing 2 m) q) = two_cpus (Waiting (m + 1) 0) q"
  "bakery_cpu_step 2 1 (two_cpus p (Choosing 2 m)) = two_cpus p (Waiting (m + 1) 0)"
  by (rule two_cpus_eqI; simp add: bakery_step_defs fun_eq_iff)+

lemma two_self:
  "bakery_cpu_step 2 0 (two_cpus (Waiting t 0) q) = two_cpus (Waiting t 1) q"
  "bakery_cpu_step 2 1 (two_cpus p (Waiting t 1)) = two_cpus p (Waiting t 2)"
  by (rule two_cpus_eqI; simp add: bakery_step_defs fun_eq_iff numeral_2_eq_2)+

lemma two_acquire:
  "bakery_cpu_step 2 0 (two_cpus (Waiting t 2) q) = two_cpus (Holding t) q"
  "bakery_cpu_step 2 1 (two_cpus p (Waiting t 2)) = two_cpus p (Holding t)"
  by (rule two_cpus_eqI; simp add: bakery_step_defs fun_eq_iff)+

lemma two_release:
  assumes "t \<noteq> 0" "t < 0x8000"
  shows "bakery_cpu_step 2 0 (two_cpus (Holding t) q) = two_cpus Outside q"
    and "bakery_cpu_step 2 1 (two_cpus p (Holding t)) = two_cpus p Outside"
  by (rule two_cpus_eqI; use assms in \<open>simp add: bakery_step_defs fun_eq_iff\<close>)+

text \<open>The test of the other CPU's entry, which is chosen or empty, before and after its release.\<close>

lemma two_spin:
  assumes "t < 0x8000" "t \<noteq> 0" "t < t'" "t' \<le> 0x8000"
  shows "bakery_cpu_step 2 0 (two_cpus (Waiting t' 1) (Holding t)) = two_cpus (Spinning t' 1 t) (Holding t)"
    and "bakery_cpu_step 2 1 (two_cpus (Holding t) (Waiting t' 0)) = two_cpus (Holding t) (Spinning t' 0 t)"
proof -
  have v: "unat (bakery_get_priority t' (of_nat p)) = unat t' * 256 + p" if "p < 2" for p
    using priority_value' [of t' p] assms(4) that by simp
  have p: "bakery_get_priority t (of_nat 1) < bakery_get_priority t' (of_nat 0)"
    "bakery_get_priority t (of_nat 0) < bakery_get_priority t' (of_nat 1)"
    using assms(1,3) v [of 0] v [of 1] priority_value [OF assms(1), of 0] priority_value [OF assms(1), of 1]
    by (simp_all add: word_less_nat_alt)
  show "bakery_cpu_step 2 0 (two_cpus (Waiting t' 1) (Holding t)) = two_cpus (Spinning t' 1 t) (Holding t)"
    by (rule two_cpus_eqI; use assms p in \<open>simp add: bakery_step_defs fun_eq_iff\<close>)
  show "bakery_cpu_step 2 1 (two_cpus (Holding t) (Waiting t' 0)) = two_cpus (Holding t) (Spinning t' 0 t)"
    by (rule two_cpus_eqI; use assms p in \<open>simp add: bakery_step_defs fun_eq_iff\<close>)
qed

lemma two_wake:
  assumes "t \<noteq> 0"
  shows "bakery_cpu_step 2 0 (two_cpus (Spinning t' 1 t) Outside) = two_cpus (Waiting t' 2) Outside"
    and "bakery_cpu_step 2 1 (two_cpus Outside (Spinning t' 0 t)) = two_cpus Outside (Waiting t' 1)"
  by (rule two_cpus_eqI; use assms in \<open>simp add: bakery_step_defs fun_eq_iff numeral_2_eq_2\<close>)+

text \<open>The other CPU queues up, the holder releases, and the lock passes on with the next ticket.\<close>

lemma handover:
  assumes "t \<noteq> 0" "t < 0x8000"
  shows "bakery_run 2 [1, 1, 1, 1, 1, 0, 1, 1, 1] (two_cpus (Holding t) Outside) = two_cpus Outside (Holding (t + 1))"
    and "bakery_run 2 [0, 0, 0, 0, 0, 0, 1, 0, 0] (two_cpus Outside (Holding t)) = two_cpus (Holding (t + 1)) Outside"
proof -
  have t: "t < t + 1" "t + 1 \<le> 0x8000"
    using assms(2) by (auto simp: word_less_nat_alt word_le_nat_alt unat_word_ariths)
  note steps = two_enter two_scan two_choose two_self two_acquire two_release [OF assms] two_spin [OF assms(2,1) t] two_wake [OF assms(1)]
  show "bakery_run 2 [1, 1, 1, 1, 1, 0, 1, 1, 1] (two_cpus (Holding t) Outside) = two_cpus Outside (Holding (t + 1))"
    by (simp only: bakery_run.simps steps written_data.simps ticket_make [OF assms(2)])
  show "bakery_run 2 [0, 0, 0, 0, 0, 0, 1, 0, 0] (two_cpus Outside (Holding t)) = two_cpus (Holding (t + 1)) Outside"
    by (simp only: bakery_run.simps steps written_data.simps ticket_make [OF assms(2)])
qed

text \<open>A CPU whose entry is empty is not seen.\<close>

lemma unseen:
  assumes "written_data q = 0"
  shows "bakery_run 2 [0, 0, 0, 0, 0, 0, 0] (two_cpus Outside q) = two_cpus (Holding 1) q"
proof -
  have w: "bakery_cpu_step 2 0 (two_cpus (Waiting 1 1) q) = two_cpus (Waiting 1 2) q"
    by (rule two_cpus_eqI; simp add: bakery_step_defs fun_eq_iff numeral_2_eq_2 assms)
  have m: "bakery_ticket_number 0 = 0" "(0 :: uint32_t) + 1 = 1" by simp_all
  show ?thesis
    by (simp only: bakery_run.simps two_enter two_scan two_choose two_self two_acquire assms m w)
qed

lemma bakery_run_append: "bakery_run n (xs @ ys) s = bakery_run n ys (bakery_run n xs s)"
  by (induction xs arbitrary: s) auto

lemma ticket_climbs:
  "k < 0x8000 \<Longrightarrow> \<exists>cs. set cs \<subseteq> {0, 1} \<and> bakery_run 2 cs bakery_idle =
     (if even k then two_cpus (Holding (of_nat (Suc k))) Outside else two_cpus Outside (Holding (of_nat (Suc k))))"
proof (induction k)
  case 0
  have "bakery_idle = two_cpus Outside Outside" by (simp add: bakery_idle_def two_cpus_def fun_eq_iff)
  then have "bakery_run 2 [0, 0, 0, 0, 0, 0, 0] bakery_idle = two_cpus (Holding 1) Outside"
    using unseen [of Outside] by (simp only: written_data.simps)
  then show ?case by (intro exI [of _ "[0, 0, 0, 0, 0, 0, 0]"]) (simp del: bakery_run.simps)
next
  case (Suc k)
  let ?t = "of_nat (Suc k) :: uint32_t"
  obtain cs where cs: "set cs \<subseteq> {0, 1}" "bakery_run 2 cs bakery_idle =
      (if even k then two_cpus (Holding ?t) Outside else two_cpus Outside (Holding ?t))"
    using Suc by auto
  have "unat ?t = Suc k" using Suc.prems by (simp add: unat_of_nat del: of_nat_Suc)
  then have t: "?t \<noteq> 0" "?t < 0x8000" using Suc.prems by (auto simp: word_less_nat_alt simp del: of_nat_Suc)
  have e: "of_nat (Suc (Suc k)) = ?t + 1" by simp
  let ?cs = "if even k then [1, 1, 1, 1, 1, 0, 1, 1, 1] else [0, 0, 0, 0, 0, 0, 1, 0, 0 :: nat]"
  have "bakery_run 2 (cs @ ?cs) bakery_idle =
      (if even (Suc k) then two_cpus (Holding (?t + 1)) Outside else two_cpus Outside (Holding (?t + 1)))"
    using handover [OF t] cs(2) unfolding bakery_run_append by (cases "even k") (simp_all del: bakery_run.simps of_nat_Suc)
  then show ?case unfolding e using cs(1) by (intro exI [of _ "cs @ ?cs"]) (auto simp del: of_nat_Suc)
qed

text \<open>
  C24: tickets that outgrow their field break the lock. Two CPUs that hand the lock over to each
  other without ever leaving it free reach ticket \<open>2^15\<close>, of which \<open>make_bakery_data\<close> keeps nothing:
  the next CPU does not see the holder, and both hold the lock.
\<close>

theorem bakery_ticket_overflow:
  "\<exists>cs t t'. set cs \<subseteq> {0, 1} \<and> bakery_pcs (bakery_run 2 cs bakery_idle) 0 = Holding t
     \<and> bakery_pcs (bakery_run 2 cs bakery_idle) 1 = Holding t'"
proof -
  obtain cs where cs: "set cs \<subseteq> {0, 1}" "bakery_run 2 cs bakery_idle = two_cpus Outside (Holding 0x8000)"
    using ticket_climbs [of "0x7FFF"] by (auto split: if_splits)
  have "bakery_run 2 [0, 0, 0, 0, 0, 0, 0] (two_cpus Outside (Holding 0x8000)) = two_cpus (Holding 1) (Holding 0x8000)"
    by (rule unseen) (simp add: make_bakery_data_def)
  then have "bakery_run 2 (cs @ [0, 0, 0, 0, 0, 0, 0]) bakery_idle = two_cpus (Holding 1) (Holding 0x8000)"
    using cs(2) by (simp only: bakery_run_append)
  then show ?thesis using cs(1)
    by (intro exI [of _ "cs @ [0, 0, 0, 0, 0, 0, 0]"] exI [of _ 1] exI [of _ "0x8000"]) auto
qed

end
