(* ===== verification/Xlat.thy ===== *)
theory Xlat
  imports Prelude
begin

text \<open>
  The translation table library: \<open>lib/xlat_tables_v2/xlat_tables_core.c\<close>, \<open>xlat_tables_utils.c\<close> and
  the parts of \<open>aarch64/xlat_tables_arch.c\<close> they use, for AArch64 with 4 KB pages and dynamic regions
  (\<open>PLAT_XLAT_TABLES_DYNAMIC\<close>). A table is named by its address; the contents of all tables are the
  map \<open>xlat_mem\<close> from a table and an index to a descriptor. The array of regions, which ends at the
  first entry of size 0, is the list of the entries before it. A failed assertion stops the
  operation. TLB and cache maintenance and console output are not represented.
\<close>

section \<open>Constants\<close>

abbreviation (input) XLAT_TABLE_LEVEL_MAX :: nat where "XLAT_TABLE_LEVEL_MAX \<equiv> 3"
abbreviation (input) MIN_LVL_BLOCK_DESC :: nat where "MIN_LVL_BLOCK_DESC \<equiv> 1"
abbreviation (input) XLAT_TABLE_ENTRIES :: nat where "XLAT_TABLE_ENTRIES \<equiv> 512"
abbreviation (input) INVALID_DESC :: uint64_t where "INVALID_DESC \<equiv> 0"
abbreviation (input) BLOCK_DESC :: uint64_t where "BLOCK_DESC \<equiv> 1"
abbreviation (input) TABLE_DESC :: uint64_t where "TABLE_DESC \<equiv> 3"
abbreviation (input) PAGE_DESC :: uint64_t where "PAGE_DESC \<equiv> 3"
abbreviation (input) DESC_MASK :: uint64_t where "DESC_MASK \<equiv> 3"
abbreviation (input) TABLE_ADDR_MASK :: uint64_t where "TABLE_ADDR_MASK \<equiv> 0x0000FFFFFFFFF000"

definition XLAT_ADDR_SHIFT :: "nat \<Rightarrow> nat" where
  "XLAT_ADDR_SHIFT level = 12 + (XLAT_TABLE_LEVEL_MAX - level) * 9"

definition XLAT_BLOCK_SIZE :: "nat \<Rightarrow> uint64_t" where
  "XLAT_BLOCK_SIZE level = push_bit (XLAT_ADDR_SHIFT level) 1"

definition XLAT_BLOCK_MASK :: "nat \<Rightarrow> uint64_t" where
  "XLAT_BLOCK_MASK level = XLAT_BLOCK_SIZE level - 1"

definition XLAT_TABLE_IDX :: "uintptr_t \<Rightarrow> nat \<Rightarrow> nat" where
  "XLAT_TABLE_IDX virtual_addr level = unat (drop_bit (XLAT_ADDR_SHIFT level) virtual_addr AND 0x1FF)"

definition IS_PAGE_ALIGNED :: "uint64_t \<Rightarrow> bool" where
  "IS_PAGE_ALIGNED addr \<longleftrightarrow> addr AND 0xFFF = 0"

definition LOWER_ATTRS :: "uint64_t \<Rightarrow> uint64_t" where
  "LOWER_ATTRS x = push_bit 2 (x AND 0xfff)"

definition UPPER_ATTRS :: "uint64_t \<Rightarrow> uint64_t" where
  "UPPER_ATTRS x = push_bit 52 (x AND 7)"

abbreviation (input) ACCESS_FLAG :: uint64_t where "ACCESS_FLAG \<equiv> 0x100"
abbreviation (input) NSH :: uint64_t where "NSH \<equiv> 0"
abbreviation (input) OSH :: uint64_t where "OSH \<equiv> 0x80"
abbreviation (input) ISH :: uint64_t where "ISH \<equiv> 0xC0"
abbreviation (input) GP :: uint64_t where "GP \<equiv> 0x4000000000000"
abbreviation (input) AP_RO :: uint64_t where "AP_RO \<equiv> 0x20"
abbreviation (input) AP_RW :: uint64_t where "AP_RW \<equiv> 0"
abbreviation (input) AP_ACCESS_UNPRIVILEGED :: uint64_t where "AP_ACCESS_UNPRIVILEGED \<equiv> 0x10"
abbreviation (input) AP_NO_ACCESS_UNPRIVILEGED :: uint64_t where "AP_NO_ACCESS_UNPRIVILEGED \<equiv> 0"
abbreviation (input) AP_ONE_VA_RANGE_RES1 :: uint64_t where "AP_ONE_VA_RANGE_RES1 \<equiv> 0x10"
abbreviation (input) NS_ATTR :: uint64_t where "NS_ATTR \<equiv> 8"
abbreviation (input) EL3_S1_NSE :: uint64_t where "EL3_S1_NSE \<equiv> 0x200"
abbreviation (input) ATTR_NON_CACHEABLE_INDEX :: uint64_t where "ATTR_NON_CACHEABLE_INDEX \<equiv> 2"
abbreviation (input) ATTR_DEVICE_INDEX :: uint64_t where "ATTR_DEVICE_INDEX \<equiv> 1"
abbreviation (input) ATTR_IWBWA_OWBWA_NTR_INDEX :: uint64_t where "ATTR_IWBWA_OWBWA_NTR_INDEX \<equiv> 0"

abbreviation (input) MT_TYPE_MASK :: uint32_t where "MT_TYPE_MASK \<equiv> 7"
abbreviation (input) MT_DEVICE :: uint32_t where "MT_DEVICE \<equiv> 0"
abbreviation (input) MT_NON_CACHEABLE :: uint32_t where "MT_NON_CACHEABLE \<equiv> 1"
abbreviation (input) MT_MEMORY :: uint32_t where "MT_MEMORY \<equiv> 2"
abbreviation (input) MT_RW :: uint32_t where "MT_RW \<equiv> 8"
abbreviation (input) MT_PAS_MASK :: uint32_t where "MT_PAS_MASK \<equiv> 0x30"
abbreviation (input) MT_NS :: uint32_t where "MT_NS \<equiv> 0x10"
abbreviation (input) MT_ROOT :: uint32_t where "MT_ROOT \<equiv> 0x20"
abbreviation (input) MT_REALM :: uint32_t where "MT_REALM \<equiv> 0x30"
abbreviation (input) MT_EXECUTE_NEVER :: uint32_t where "MT_EXECUTE_NEVER \<equiv> 0x40"
abbreviation (input) MT_USER :: uint32_t where "MT_USER \<equiv> 0x80"
abbreviation (input) MT_SHAREABILITY_MASK :: uint32_t where "MT_SHAREABILITY_MASK \<equiv> 0x300"
abbreviation (input) MT_SHAREABILITY_OSH :: uint32_t where "MT_SHAREABILITY_OSH \<equiv> 0x200"
abbreviation (input) MT_SHAREABILITY_NSH :: uint32_t where "MT_SHAREABILITY_NSH \<equiv> 0x300"
abbreviation (input) MT_DYNAMIC :: uint32_t where "MT_DYNAMIC \<equiv> 0x80000000"
abbreviation (input) MT_CODE :: uint32_t where "MT_CODE \<equiv> 2"

abbreviation (input) EL1_EL0_REGIME :: int where "EL1_EL0_REGIME \<equiv> 1"
abbreviation (input) EL2_REGIME :: int where "EL2_REGIME \<equiv> 2"
abbreviation (input) EL3_REGIME :: int where "EL3_REGIME \<equiv> 3"

section \<open>Data\<close>

record mmap_region_t =
  base_pa :: uint64_t
  base_va :: uintptr_t
  mm_size :: uint64_t
  mm_attr :: uint32_t
  granularity :: uint64_t

record xlat_ctx_t =
  pa_max_address :: uint64_t
  va_max_address :: uintptr_t
  mmap :: "mmap_region_t list"
  mmap_num :: nat
  xlat_tables :: "uint64_t list"
  tables_mapped_regions :: "nat \<Rightarrow> int"
  base_table :: uint64_t
  base_table_entries :: nat
  max_pa :: uint64_t
  max_va :: uintptr_t
  base_level :: nat
  initialized :: bool
  xlat_regime :: int
  xlat_mem :: "uint64_t \<Rightarrow> nat \<Rightarrow> uint64_t"

text \<open>Build options and features of the CPU that the library depends on.\<close>

record xlat_env =
  ENABLE_RME :: bool
  bti_present :: bool
  ttst_present :: bool
  parange :: nat

definition regime_ok :: "xlat_ctx_t \<Rightarrow> bool" where
  "regime_ok ctx \<longleftrightarrow> xlat_regime ctx = EL1_EL0_REGIME \<or> xlat_regime ctx = EL2_REGIME \<or> xlat_regime ctx = EL3_REGIME"

definition region_end_va :: "mmap_region_t \<Rightarrow> uintptr_t" where
  "region_end_va mm = base_va mm + mm_size mm - 1"

definition region_end_pa :: "mmap_region_t \<Rightarrow> uint64_t" where
  "region_end_pa mm = base_pa mm + mm_size mm - 1"

section \<open>Tables\<close>

fun index_of :: "'a \<Rightarrow> 'a list \<Rightarrow> nat option" where
  "index_of x [] = None"
| "index_of x (y # ys) = (if y = x then Some 0 else map_option Suc (index_of x ys))"

text \<open>\<open>None\<close> is the failed assertion of \<open>xlat_table_get_index\<close>.\<close>

definition xlat_table_get_index :: "uint64_t \<Rightarrow> xlat_ctx_t \<Rightarrow> nat option" where
  "xlat_table_get_index table ctx = index_of table (xlat_tables ctx)"

definition xlat_table_get_empty :: "xlat_ctx_t \<Rightarrow> uint64_t option" where
  "xlat_table_get_empty ctx =
     map_option (\<lambda>i. xlat_tables ctx ! i)
       (List.find (\<lambda>i. tables_mapped_regions ctx i = 0) [0..<length (xlat_tables ctx)])"

definition xlat_table_add_regions_count :: "int \<Rightarrow> uint64_t \<Rightarrow> xlat_ctx_t \<Rightarrow> xlat_ctx_t option" where
  "xlat_table_add_regions_count n table ctx =
     map_option (\<lambda>idx. ctx\<lparr>tables_mapped_regions :=
         (tables_mapped_regions ctx)(idx := tables_mapped_regions ctx idx + n)\<rparr>)
       (xlat_table_get_index table ctx)"

definition xlat_table_inc_regions_count :: "uint64_t \<Rightarrow> xlat_ctx_t \<Rightarrow> xlat_ctx_t option" where
  "xlat_table_inc_regions_count = xlat_table_add_regions_count 1"

definition xlat_table_dec_regions_count :: "uint64_t \<Rightarrow> xlat_ctx_t \<Rightarrow> xlat_ctx_t option" where
  "xlat_table_dec_regions_count = xlat_table_add_regions_count (- 1)"

definition xlat_table_is_empty :: "uint64_t \<Rightarrow> xlat_ctx_t \<Rightarrow> bool option" where
  "xlat_table_is_empty table ctx =
     map_option (\<lambda>idx. tables_mapped_regions ctx idx = 0) (xlat_table_get_index table ctx)"

definition write_entry :: "uint64_t \<Rightarrow> nat \<Rightarrow> uint64_t \<Rightarrow> xlat_ctx_t \<Rightarrow> xlat_ctx_t" where
  "write_entry table idx desc ctx = ctx\<lparr>xlat_mem := (xlat_mem ctx)(table := (xlat_mem ctx table)(idx := desc))\<rparr>"

section \<open>Descriptors\<close>

definition xlat_arch_get_pas :: "xlat_env \<Rightarrow> uint32_t \<Rightarrow> uint32_t" where
  "xlat_arch_get_pas e attr =
     (let pas = attr AND MT_PAS_MASK
      in if ENABLE_RME e \<and> pas = MT_REALM then ucast (LOWER_ATTRS (EL3_S1_NSE OR NS_ATTR))
         else if ENABLE_RME e \<and> pas = MT_ROOT then ucast (LOWER_ATTRS EL3_S1_NSE)
         else if pas = MT_NS then ucast (LOWER_ATTRS NS_ATTR)
         else 0)"

definition xlat_arch_regime_get_xn_desc :: "int \<Rightarrow> uint64_t" where
  "xlat_arch_regime_get_xn_desc regime =
     (if regime = EL1_EL0_REGIME then UPPER_ATTRS 4 OR UPPER_ATTRS 2 else UPPER_ATTRS 4)"

definition xlat_desc :: "xlat_env \<Rightarrow> xlat_ctx_t \<Rightarrow> uint32_t \<Rightarrow> uint64_t \<Rightarrow> nat \<Rightarrow> uint64_t outcome" where
  "xlat_desc e ctx attr addr_pa level =
     (let desc = addr_pa;
          desc = desc OR (if level = XLAT_TABLE_LEVEL_MAX then PAGE_DESC else BLOCK_DESC);
          desc = desc OR LOWER_ATTRS ACCESS_FLAG;
          desc = desc OR ucast (xlat_arch_get_pas e attr);
          desc = desc OR (if attr AND MT_RW \<noteq> 0 then LOWER_ATTRS AP_RW else LOWER_ATTRS AP_RO);
          desc = desc OR
            (if xlat_regime ctx = EL1_EL0_REGIME
             then if attr AND MT_USER \<noteq> 0 then LOWER_ATTRS AP_ACCESS_UNPRIVILEGED
                  else LOWER_ATTRS AP_NO_ACCESS_UNPRIVILEGED
             else LOWER_ATTRS AP_ONE_VA_RANGE_RES1);
          mem_type = attr AND MT_TYPE_MASK;
          shareability_type = attr AND MT_SHAREABILITY_MASK;
          xn_desc = xlat_arch_regime_get_xn_desc (xlat_regime ctx)
      in if addr_pa AND XLAT_BLOCK_MASK level \<noteq> 0 \<or> \<not> regime_ok ctx then Assert_failed
         else if mem_type = MT_DEVICE then
           Returned (desc OR LOWER_ATTRS (ATTR_DEVICE_INDEX OR OSH) OR xn_desc)
         else
           let desc = (if attr AND MT_RW \<noteq> 0 \<or> attr AND MT_EXECUTE_NEVER \<noteq> 0 then desc OR xn_desc else desc)
           in if mem_type = MT_MEMORY then
                let desc = desc OR LOWER_ATTRS ATTR_IWBWA_OWBWA_NTR_INDEX;
                    desc = desc OR
                      (if shareability_type = MT_SHAREABILITY_NSH then LOWER_ATTRS NSH
                       else if shareability_type = MT_SHAREABILITY_OSH then LOWER_ATTRS OSH
                       else LOWER_ATTRS ISH)
                in Returned (if bti_present e \<and> attr AND (MT_TYPE_MASK OR MT_RW OR MT_EXECUTE_NEVER) = MT_CODE
                             then desc OR GP else desc)
              else if mem_type = MT_NON_CACHEABLE then
                Returned (desc OR LOWER_ATTRS (ATTR_NON_CACHEABLE_INDEX OR OSH))
              else Assert_failed)"

section \<open>Mapping a region\<close>

datatype action_t =
    ACTION_NONE
  | ACTION_WRITE_BLOCK_ENTRY
  | ACTION_CREATE_NEW_TABLE
  | ACTION_RECURSE_INTO_TABLE

definition xlat_tables_find_start_va :: "mmap_region_t \<Rightarrow> uintptr_t \<Rightarrow> nat \<Rightarrow> uintptr_t" where
  "xlat_tables_find_start_va mm table_base_va level =
     (if base_va mm > table_base_va then base_va mm AND NOT (XLAT_BLOCK_MASK level) else table_base_va)"

definition xlat_tables_va_to_index :: "uintptr_t \<Rightarrow> uintptr_t \<Rightarrow> nat \<Rightarrow> nat" where
  "xlat_tables_va_to_index table_base_va va level =
     unat (ucast (drop_bit (XLAT_ADDR_SHIFT level) (va - table_base_va)) :: uint32_t)"

definition xlat_tables_map_region_action ::
  "mmap_region_t \<Rightarrow> uint64_t \<Rightarrow> uint64_t \<Rightarrow> uintptr_t \<Rightarrow> nat \<Rightarrow> action_t outcome" where
  "xlat_tables_map_region_action mm desc_type dest_pa table_entry_base_va level =
     (let mm_end_va = region_end_va mm;
          table_entry_end_va = table_entry_base_va + XLAT_BLOCK_SIZE level - 1
      in if base_va mm \<le> table_entry_base_va \<and> mm_end_va \<ge> table_entry_end_va then
           if level = 3 then
             if desc_type = PAGE_DESC then Returned ACTION_NONE
             else if desc_type = INVALID_DESC then Returned ACTION_WRITE_BLOCK_ENTRY
             else Assert_failed
           else if desc_type = TABLE_DESC then Returned ACTION_RECURSE_INTO_TABLE
           else if desc_type = INVALID_DESC then
             if dest_pa AND XLAT_BLOCK_MASK level \<noteq> 0 \<or> level < MIN_LVL_BLOCK_DESC
                \<or> granularity mm < XLAT_BLOCK_SIZE level
             then Returned ACTION_CREATE_NEW_TABLE
             else Returned ACTION_WRITE_BLOCK_ENTRY
           else if desc_type = BLOCK_DESC then Returned ACTION_NONE
           else Assert_failed
         else if base_va mm \<le> table_entry_end_va \<or> mm_end_va \<ge> table_entry_base_va then
           if \<not> level < 3 then Assert_failed
           else if desc_type = INVALID_DESC then Returned ACTION_CREATE_NEW_TABLE
           else if desc_type = TABLE_DESC then Returned ACTION_RECURSE_INTO_TABLE
           else Assert_failed
         else Returned ACTION_NONE)"

text \<open>
  The loop of \<open>xlat_tables_map_region\<close> over the entries of one table. The call for a subtable enters
  the loop of that table after the steps the function takes first: the check of the level, the start
  of the region in the table and the region count.
\<close>

definition map_subtable_start :: "mmap_region_t \<Rightarrow> uintptr_t \<Rightarrow> nat \<Rightarrow> nat \<times> uintptr_t" where
  "map_subtable_start mm table_base_va level =
     (let table_idx_va = xlat_tables_find_start_va mm table_base_va level
      in (xlat_tables_va_to_index table_base_va table_idx_va level, table_idx_va))"

function map_region_loop ::
  "xlat_env \<Rightarrow> mmap_region_t \<Rightarrow> nat \<Rightarrow> uint64_t \<Rightarrow> nat \<Rightarrow> nat \<Rightarrow> uintptr_t \<Rightarrow> xlat_ctx_t \<Rightarrow> uintptr_t outcome \<times> xlat_ctx_t" where
  "map_region_loop e mm level table entries table_idx table_idx_va ctx =
     (if \<not> table_idx < entries then (Returned (table_idx_va - 1), ctx)
      else
        let desc = xlat_mem ctx table table_idx;
            table_idx_pa = base_pa mm + table_idx_va - base_va mm;
            next_va = table_idx_va + XLAT_BLOCK_SIZE level;
            continue = (\<lambda>ctx. if region_end_va mm \<le> next_va then (Returned (next_va - 1), ctx)
                              else map_region_loop e mm level table entries (Suc table_idx) next_va ctx);
            recurse = (\<lambda>subtable ctx.
              if \<not> level < XLAT_TABLE_LEVEL_MAX then (Assert_failed, ctx)
              else case xlat_table_inc_regions_count subtable ctx of
                     None \<Rightarrow> (Assert_failed, ctx)
                   | Some ctx \<Rightarrow>
                       let (idx, va) = map_subtable_start mm table_idx_va (Suc level);
                           (r, ctx) = map_region_loop e mm (Suc level) subtable XLAT_TABLE_ENTRIES idx va ctx
                       in if r = Returned (next_va - 1) then continue ctx else (r, ctx))
        in case xlat_tables_map_region_action mm (desc AND DESC_MASK) table_idx_pa table_idx_va level of
             Returned ACTION_NONE \<Rightarrow> continue ctx
           | Returned ACTION_WRITE_BLOCK_ENTRY \<Rightarrow>
               (case xlat_desc e ctx (mm_attr mm) table_idx_pa level of
                  Returned d \<Rightarrow> continue (write_entry table table_idx d ctx)
                | _ \<Rightarrow> (Assert_failed, ctx))
           | Returned ACTION_CREATE_NEW_TABLE \<Rightarrow>
               (case xlat_table_get_empty ctx of
                  None \<Rightarrow> (Returned table_idx_va, ctx)
                | Some subtable \<Rightarrow> recurse subtable (write_entry table table_idx (TABLE_DESC OR subtable) ctx))
           | Returned ACTION_RECURSE_INTO_TABLE \<Rightarrow> recurse (desc AND TABLE_ADDR_MASK) ctx
           | _ \<Rightarrow> (Assert_failed, ctx))"
  by auto
termination
  by (relation "inv_image (less_than <*lex*> less_than)
      (\<lambda>(e, mm, level, table, entries, table_idx, va, ctx). (XLAT_TABLE_LEVEL_MAX - level, entries - table_idx))") auto

definition xlat_tables_map_region ::
  "xlat_env \<Rightarrow> mmap_region_t \<Rightarrow> uintptr_t \<Rightarrow> uint64_t \<Rightarrow> nat \<Rightarrow> nat \<Rightarrow> xlat_ctx_t \<Rightarrow> uintptr_t outcome \<times> xlat_ctx_t" where
  "xlat_tables_map_region e mm table_base_va table entries level ctx =
     (if \<not> (base_level ctx \<le> level \<and> level \<le> XLAT_TABLE_LEVEL_MAX) then (Assert_failed, ctx)
      else
        let (idx, va) = map_subtable_start mm table_base_va level
        in if level > base_level ctx then
             (case xlat_table_inc_regions_count table ctx of
                None \<Rightarrow> (Assert_failed, ctx)
              | Some ctx \<Rightarrow> map_region_loop e mm level table entries idx va ctx)
           else map_region_loop e mm level table entries idx va ctx)"

section \<open>Unmapping a region\<close>

definition xlat_tables_unmap_region_action ::
  "mmap_region_t \<Rightarrow> uintptr_t \<Rightarrow> uintptr_t \<Rightarrow> nat \<Rightarrow> uint64_t \<Rightarrow> action_t outcome" where
  "xlat_tables_unmap_region_action mm table_idx_va table_idx_end_va level desc_type =
     (let mm_end_va = region_end_va mm
      in if base_va mm \<le> table_idx_va \<and> mm_end_va \<ge> table_idx_end_va then
           if level = 3 then
             if desc_type = PAGE_DESC then Returned ACTION_WRITE_BLOCK_ENTRY else Assert_failed
           else if desc_type = TABLE_DESC then Returned ACTION_RECURSE_INTO_TABLE
           else if desc_type = BLOCK_DESC then Returned ACTION_WRITE_BLOCK_ENTRY
           else Assert_failed
         else if base_va mm \<le> table_idx_end_va \<or> mm_end_va \<ge> table_idx_va then
           if level < 3 \<and> desc_type = TABLE_DESC then Returned ACTION_RECURSE_INTO_TABLE else Assert_failed
         else Returned ACTION_NONE)"

text \<open>The loop over the entries of one table; the count of a subtable is decremented when its loop is done.\<close>

function unmap_region_loop ::
  "mmap_region_t \<Rightarrow> nat \<Rightarrow> uint64_t \<Rightarrow> nat \<Rightarrow> nat \<Rightarrow> uintptr_t \<Rightarrow> xlat_ctx_t \<Rightarrow> unit outcome \<times> xlat_ctx_t" where
  "unmap_region_loop mm level table entries table_idx table_idx_va ctx =
     (if \<not> table_idx < entries then (Returned (), ctx)
      else
        let desc = xlat_mem ctx table table_idx;
            next_va = table_idx_va + XLAT_BLOCK_SIZE level;
            continue = (\<lambda>ctx. if region_end_va mm \<le> next_va then (Returned (), ctx)
                              else unmap_region_loop mm level table entries (Suc table_idx) next_va ctx)
        in case xlat_tables_unmap_region_action mm table_idx_va (next_va - 1) level (desc AND DESC_MASK) of
             Returned ACTION_NONE \<Rightarrow> continue ctx
           | Returned ACTION_WRITE_BLOCK_ENTRY \<Rightarrow> continue (write_entry table table_idx INVALID_DESC ctx)
           | Returned ACTION_RECURSE_INTO_TABLE \<Rightarrow>
               let subtable = desc AND TABLE_ADDR_MASK
               in if \<not> level < XLAT_TABLE_LEVEL_MAX then (Assert_failed, ctx)
                  else
                    let (idx, va) = map_subtable_start mm table_idx_va (Suc level);
                        (r, ctx) = unmap_region_loop mm (Suc level) subtable XLAT_TABLE_ENTRIES idx va ctx
                    in if r \<noteq> Returned () then (r, ctx)
                       else case xlat_table_dec_regions_count subtable ctx of
                              None \<Rightarrow> (Assert_failed, ctx)
                            | Some ctx \<Rightarrow>
                                continue (if xlat_table_is_empty subtable ctx = Some True
                                          then write_entry table table_idx INVALID_DESC ctx else ctx)
           | _ \<Rightarrow> (Assert_failed, ctx))"
  by auto
termination
  by (relation "inv_image (less_than <*lex*> less_than)
      (\<lambda>(mm, level, table, entries, table_idx, va, ctx). (XLAT_TABLE_LEVEL_MAX - level, entries - table_idx))") auto

definition xlat_tables_unmap_region ::
  "mmap_region_t \<Rightarrow> uintptr_t \<Rightarrow> uint64_t \<Rightarrow> nat \<Rightarrow> nat \<Rightarrow> xlat_ctx_t \<Rightarrow> unit outcome \<times> xlat_ctx_t" where
  "xlat_tables_unmap_region mm table_base_va table entries level ctx =
     (if \<not> (base_level ctx \<le> level \<and> level \<le> XLAT_TABLE_LEVEL_MAX) then (Assert_failed, ctx)
      else
        let (idx, va) = map_subtable_start mm table_base_va level;
            (r, ctx) = unmap_region_loop mm level table entries idx va ctx
        in if r \<noteq> Returned () then (r, ctx)
           else if level > base_level ctx then
             (case xlat_table_dec_regions_count table ctx of
                None \<Rightarrow> (Assert_failed, ctx)
              | Some ctx \<Rightarrow> (Returned (), ctx))
           else (Returned (), ctx))"

section \<open>The list of regions\<close>

abbreviation (input) XLAT_EPERM :: int where "XLAT_EPERM \<equiv> 1"
abbreviation (input) XLAT_ENOMEM :: int where "XLAT_ENOMEM \<equiv> 12"
abbreviation (input) XLAT_EINVAL :: int where "XLAT_EINVAL \<equiv> 22"
abbreviation (input) XLAT_ERANGE :: int where "XLAT_ERANGE \<equiv> 34"

text \<open>The loop of \<open>mmap_add_region_check\<close> over the regions present.\<close>

fun overlap_check_loop :: "mmap_region_t \<Rightarrow> mmap_region_t list \<Rightarrow> int" where
  "overlap_check_loop mm [] = 0"
| "overlap_check_loop mm (c # cs) =
     (let end_va = region_end_va mm; end_pa = region_end_pa mm;
          fully_overlapped_va = (base_va mm \<ge> base_va c \<and> end_va \<le> region_end_va c)
            \<or> (base_va c \<ge> base_va mm \<and> region_end_va c \<le> end_va)
      in if fully_overlapped_va then
           if mm_attr mm AND MT_DYNAMIC \<noteq> 0 \<or> mm_attr c AND MT_DYNAMIC \<noteq> 0 then - XLAT_EPERM
           else if base_va c - base_pa c \<noteq> base_va mm - base_pa mm then - XLAT_EPERM
           else if base_va mm = base_va c \<and> mm_size mm = mm_size c then - XLAT_EPERM
           else overlap_check_loop mm cs
         else
           let separated_pa = end_pa < base_pa c \<or> base_pa mm > region_end_pa c;
               separated_va = end_va < base_va c \<or> base_va mm > region_end_va c
           in if \<not> separated_va \<or> \<not> separated_pa then - XLAT_EPERM else overlap_check_loop mm cs)"

definition mmap_add_region_check :: "mmap_region_t \<Rightarrow> xlat_ctx_t \<Rightarrow> int" where
  "mmap_add_region_check mm ctx =
     (let end_pa = region_end_pa mm; end_va = region_end_va mm
      in if \<not> IS_PAGE_ALIGNED (base_pa mm) \<or> \<not> IS_PAGE_ALIGNED (base_va mm) \<or> \<not> IS_PAGE_ALIGNED (mm_size mm)
         then - XLAT_EINVAL
         else if granularity mm \<noteq> XLAT_BLOCK_SIZE 1 \<and> granularity mm \<noteq> XLAT_BLOCK_SIZE 2
            \<and> granularity mm \<noteq> XLAT_BLOCK_SIZE 3
         then - XLAT_EINVAL
         else if base_pa mm > end_pa \<or> base_va mm > end_va then - XLAT_ERANGE
         else if end_va > va_max_address ctx then - XLAT_ERANGE
         else if end_pa > pa_max_address ctx then - XLAT_ERANGE
         else if length (mmap ctx) \<ge> mmap_num ctx then - XLAT_ENOMEM
         else overlap_check_loop mm (mmap ctx))"

text \<open>The two searching loops and the \<open>memmove\<close> that makes room.\<close>

definition mmap_insert :: "mmap_region_t \<Rightarrow> mmap_region_t list \<Rightarrow> mmap_region_t list" where
  "mmap_insert mm ms =
     (let end_va = region_end_va mm;
          p = (\<lambda>c. region_end_va c < end_va);
          q = (\<lambda>c. region_end_va c = end_va \<and> mm_size c < mm_size mm)
      in takeWhile p ms @ takeWhile q (dropWhile p ms) @ mm # dropWhile q (dropWhile p ms))"

definition update_max :: "mmap_region_t \<Rightarrow> xlat_ctx_t \<Rightarrow> xlat_ctx_t" where
  "update_max mm ctx =
     ctx\<lparr>max_pa := if region_end_pa mm > max_pa ctx then region_end_pa mm else max_pa ctx,
         max_va := if region_end_va mm > max_va ctx then region_end_va mm else max_va ctx\<rparr>"

definition mmap_add_region_ctx :: "mmap_region_t \<Rightarrow> xlat_ctx_t \<Rightarrow> unit outcome \<times> xlat_ctx_t" where
  "mmap_add_region_ctx mm ctx =
     (if mm_size mm = 0 then (Returned (), ctx)
      else if initialized ctx then (Assert_failed, ctx)
      else if mmap_add_region_check mm ctx \<noteq> 0 then (Assert_failed, ctx)
      else (Returned (), update_max mm (ctx\<lparr>mmap := mmap_insert mm (mmap ctx)\<rparr>)))"

fun mmap_add_ctx :: "mmap_region_t list \<Rightarrow> xlat_ctx_t \<Rightarrow> unit outcome \<times> xlat_ctx_t" where
  "mmap_add_ctx [] ctx = (Returned (), ctx)"
| "mmap_add_ctx (mm # mms) ctx =
     (if granularity mm = 0 then (Returned (), ctx)
      else case mmap_add_region_ctx mm ctx of
             (Returned _, ctx) \<Rightarrow> mmap_add_ctx mms ctx
           | r \<Rightarrow> r)"

definition round_up :: "uintptr_t \<Rightarrow> uint64_t \<Rightarrow> uintptr_t" where
  "round_up v boundary = ((v - 1) OR (boundary - 1)) + 1"

text \<open>The levels from the base level to 2.\<close>

fun alloc_va_align_loop :: "nat list \<Rightarrow> uint64_t \<Rightarrow> mmap_region_t \<Rightarrow> mmap_region_t" where
  "alloc_va_align_loop [] align_check mm = mm"
| "alloc_va_align_loop (level # ls) align_check mm =
     (if align_check AND XLAT_BLOCK_MASK level \<noteq> 0 then alloc_va_align_loop ls align_check mm
      else mm\<lparr>base_va := round_up (base_va mm) (XLAT_BLOCK_SIZE level)\<rparr>)"

definition mmap_alloc_va_align_ctx :: "xlat_ctx_t \<Rightarrow> mmap_region_t \<Rightarrow> mmap_region_t" where
  "mmap_alloc_va_align_ctx ctx mm =
     alloc_va_align_loop [base_level ctx..<3] (base_pa mm OR mm_size mm) mm"

text \<open>The region with the address it was given is returned as well.\<close>

definition mmap_add_region_alloc_va_ctx ::
  "mmap_region_t \<Rightarrow> xlat_ctx_t \<Rightarrow> unit outcome \<times> mmap_region_t \<times> xlat_ctx_t" where
  "mmap_add_region_alloc_va_ctx mm ctx =
     (let mm = mm\<lparr>base_va := max_va ctx + 1\<rparr>
      in if mm_size mm = 0 then (Assert_failed, mm, ctx)
         else
           let mm = mmap_alloc_va_align_ctx ctx mm
           in if \<not> base_va mm > max_va ctx then (Assert_failed, mm, ctx)
              else let (r, ctx) = mmap_add_region_ctx mm ctx in (r, mm, ctx))"

section \<open>Dynamic regions\<close>

text \<open>The translation tables part of \<open>mmap_add_dynamic_region_ctx\<close>; \<open>old\<close> is the list before the insertion.\<close>

definition map_dynamic_region ::
  "xlat_env \<Rightarrow> mmap_region_t \<Rightarrow> mmap_region_t list \<Rightarrow> xlat_ctx_t \<Rightarrow> int outcome \<times> xlat_ctx_t" where
  "map_dynamic_region e mm old ctx =
     (case xlat_tables_map_region e mm 0 (base_table ctx) (base_table_entries ctx) (base_level ctx) ctx of
        (Returned end_va, ctx) \<Rightarrow>
          if end_va = region_end_va mm then (Returned 0, ctx)
          else
            let ctx = ctx\<lparr>mmap := old\<rparr>
            in if base_va mm \<ge> end_va then (Returned (- XLAT_ENOMEM), ctx)
               else
                 let unmap_mm = \<lparr>base_pa = 0, base_va = base_va mm, mm_size = end_va - base_va mm,
                                  mm_attr = 0, granularity = 0\<rparr>
                 in (case xlat_tables_unmap_region unmap_mm 0 (base_table ctx) (base_table_entries ctx)
                            (base_level ctx) ctx of
                       (Returned _, ctx) \<Rightarrow> (Returned (- XLAT_ENOMEM), ctx)
                     | (_, ctx) \<Rightarrow> (Assert_failed, ctx))
      | (_, ctx) \<Rightarrow> (Assert_failed, ctx))"

definition mmap_add_dynamic_region_ctx ::
  "xlat_env \<Rightarrow> mmap_region_t \<Rightarrow> xlat_ctx_t \<Rightarrow> int outcome \<times> mmap_region_t \<times> xlat_ctx_t" where
  "mmap_add_dynamic_region_ctx e mm ctx =
     (if mm_size mm = 0 then (Returned 0, mm, ctx)
      else
        let mm = mm\<lparr>mm_attr := mm_attr mm OR MT_DYNAMIC\<rparr>;
            ret = mmap_add_region_check mm ctx
        in if ret \<noteq> 0 then (Returned ret, mm, ctx)
           else
             let old = mmap ctx;
                 ctx = ctx\<lparr>mmap := mmap_insert mm old\<rparr>;
                 (r, ctx) = (if initialized ctx then map_dynamic_region e mm old ctx else (Returned 0, ctx))
             in if r = Returned 0 then (Returned 0, mm, update_max mm ctx) else (r, mm, ctx))"

definition mmap_add_dynamic_region_alloc_va_ctx ::
  "xlat_env \<Rightarrow> mmap_region_t \<Rightarrow> xlat_ctx_t \<Rightarrow> int outcome \<times> mmap_region_t \<times> xlat_ctx_t" where
  "mmap_add_dynamic_region_alloc_va_ctx e mm ctx =
     (let mm = mm\<lparr>base_va := max_va ctx + 1\<rparr>
      in if mm_size mm = 0 then (Returned 0, mm, ctx)
         else
           let mm = mmap_alloc_va_align_ctx ctx mm
           in if base_va mm < max_va ctx then (Returned (- XLAT_ENOMEM), mm, ctx)
              else mmap_add_dynamic_region_ctx e mm ctx)"

definition max_of :: "('a \<Rightarrow> uint64_t) \<Rightarrow> 'a list \<Rightarrow> uint64_t" where
  "max_of f ms = fold (\<lambda>mm m. if f mm > m then f mm else m) ms 0"

definition mmap_remove_dynamic_region_ctx ::
  "uintptr_t \<Rightarrow> uint64_t \<Rightarrow> xlat_ctx_t \<Rightarrow> int outcome \<times> xlat_ctx_t" where
  "mmap_remove_dynamic_region_ctx va sz ctx =
     (let p = (\<lambda>mm. base_va mm = va \<and> mm_size mm = sz)
      in case List.find p (mmap ctx) of
           None \<Rightarrow> (Returned (- XLAT_EINVAL), ctx)
         | Some mm \<Rightarrow>
             if mm_attr mm AND MT_DYNAMIC = 0 then (Returned (- XLAT_EPERM), ctx)
             else
               let update_max_va_needed = region_end_va mm = max_va ctx;
                   update_max_pa_needed = region_end_pa mm = max_pa ctx;
                   (r, ctx) = (if initialized ctx
                               then xlat_tables_unmap_region mm 0 (base_table ctx) (base_table_entries ctx)
                                      (base_level ctx) ctx
                               else (Returned (), ctx))
               in if r \<noteq> Returned () then (Assert_failed, ctx)
                  else
                    let ms = takeWhile (\<lambda>mm. \<not> p mm) (mmap ctx) @ tl (dropWhile (\<lambda>mm. \<not> p mm) (mmap ctx));
                        ctx = ctx\<lparr>mmap := ms\<rparr>;
                        ctx = (if update_max_va_needed then ctx\<lparr>max_va := max_of region_end_va ms\<rparr> else ctx);
                        ctx = (if update_max_pa_needed then ctx\<lparr>max_pa := max_of region_end_pa ms\<rparr> else ctx)
                    in (Returned 0, ctx))"

section \<open>Setup\<close>

definition GET_XLAT_TABLE_LEVEL_BASE :: "uint64_t \<Rightarrow> nat" where
  "GET_XLAT_TABLE_LEVEL_BASE sz =
     (if sz > push_bit 39 1 then 0 else if sz > push_bit 30 1 then 1 else if sz > push_bit 21 1 then 2 else 3)"

definition GET_NUM_BASE_LEVEL_ENTRIES :: "uint64_t \<Rightarrow> nat" where
  "GET_NUM_BASE_LEVEL_ENTRIES sz = unat (drop_bit (XLAT_ADDR_SHIFT (GET_XLAT_TABLE_LEVEL_BASE sz)) sz)"

definition xlat_setup_dynamic_ctx ::
  "uint64_t \<Rightarrow> uintptr_t \<Rightarrow> nat \<Rightarrow> uint64_t list \<Rightarrow> uint64_t \<Rightarrow> int \<Rightarrow> xlat_ctx_t \<Rightarrow> xlat_ctx_t" where
  "xlat_setup_dynamic_ctx pa_max va_max num tables base regime ctx =
     ctx\<lparr>xlat_regime := regime, pa_max_address := pa_max, va_max_address := va_max,
         mmap := [], mmap_num := num, xlat_tables := tables,
         base_level := GET_XLAT_TABLE_LEVEL_BASE (va_max + 1), base_table := base,
         base_table_entries := GET_NUM_BASE_LEVEL_ENTRIES (va_max + 1),
         max_pa := 0, max_va := 0, initialized := False\<rparr>"

definition clear_tables :: "xlat_ctx_t \<Rightarrow> xlat_ctx_t" where
  "clear_tables ctx =
     ctx\<lparr>xlat_mem := (\<lambda>t i. if t = base_table ctx \<and> i < base_table_entries ctx
                                \<or> t \<in> set (xlat_tables ctx) \<and> i < XLAT_TABLE_ENTRIES
                             then INVALID_DESC else xlat_mem ctx t i),
         tables_mapped_regions := (\<lambda>j. if j < length (xlat_tables ctx) then 0 else tables_mapped_regions ctx j)\<rparr>"

fun init_regions_loop :: "xlat_env \<Rightarrow> mmap_region_t list \<Rightarrow> xlat_ctx_t \<Rightarrow> unit outcome \<times> xlat_ctx_t" where
  "init_regions_loop e [] ctx = (Returned (), ctx)"
| "init_regions_loop e (mm # mms) ctx =
     (case xlat_tables_map_region e mm 0 (base_table ctx) (base_table_entries ctx) (base_level ctx) ctx of
        (Returned end_va, ctx) \<Rightarrow>
          if end_va \<noteq> region_end_va mm then (Panicked, ctx) else init_regions_loop e mms ctx
      | (_, ctx) \<Rightarrow> (Assert_failed, ctx))"

definition xlat_get_min_virt_addr_space_size :: "xlat_env \<Rightarrow> uintptr_t" where
  "xlat_get_min_virt_addr_space_size e = push_bit (64 - (if ttst_present e then 48 else 39)) 1"

definition pa_range_bits_arr :: "nat list" where
  "pa_range_bits_arr = [32, 36, 40, 42, 44, 48, 52]"

text \<open>\<open>None\<close> is the failed assertion on a reserved value of the register field.\<close>

definition xlat_arch_get_max_supported_pa :: "xlat_env \<Rightarrow> uint64_t option" where
  "xlat_arch_get_max_supported_pa e =
     (if parange e < length pa_range_bits_arr then Some (push_bit (pa_range_bits_arr ! parange e) 1 - 1) else None)"

text \<open>The MMU is off, which the code asserts.\<close>

definition init_xlat_tables_ctx :: "xlat_env \<Rightarrow> xlat_ctx_t \<Rightarrow> unit outcome \<times> xlat_ctx_t" where
  "init_xlat_tables_ctx e ctx =
     (if initialized ctx \<or> \<not> regime_ok ctx \<or> \<not> va_max_address ctx \<ge> xlat_get_min_virt_addr_space_size e - 1
         \<or> \<not> va_max_address ctx \<le> 0xFFFFFFFFFFFF \<or> (va_max_address ctx + 1) AND va_max_address ctx \<noteq> 0
      then (Assert_failed, ctx)
      else case init_regions_loop e (mmap ctx) (clear_tables ctx) of
             (Returned _, ctx) \<Rightarrow>
               (case xlat_arch_get_max_supported_pa e of
                  None \<Rightarrow> (Assert_failed, ctx)
                | Some max_supported_pa \<Rightarrow>
                    if \<not> pa_max_address ctx \<le> max_supported_pa \<or> \<not> max_va ctx \<le> va_max_address ctx
                       \<or> \<not> max_pa ctx \<le> pa_max_address ctx
                    then (Assert_failed, ctx)
                    else (Returned (), ctx\<lparr>initialized := True\<rparr>))
           | r \<Rightarrow> r)"

section \<open>Walking the tables\<close>

text \<open>The entry that maps an address: its table, index and level.\<close>

datatype walk_result = Not_mapped | Mapped uint64_t nat nat | Walk_assert

function find_entry_loop :: "uintptr_t \<Rightarrow> nat \<Rightarrow> uint64_t \<Rightarrow> nat \<Rightarrow> xlat_ctx_t \<Rightarrow> walk_result" where
  "find_entry_loop va level table entries ctx =
     (if \<not> level \<le> XLAT_TABLE_LEVEL_MAX then Walk_assert
      else
        let idx = XLAT_TABLE_IDX va level
        in if idx \<ge> entries then Not_mapped
           else
             let desc = xlat_mem ctx table idx; desc_type = desc AND DESC_MASK
             in if desc_type = INVALID_DESC then Not_mapped
                else if level = XLAT_TABLE_LEVEL_MAX then
                  if desc_type = PAGE_DESC then Mapped table idx level else Walk_assert
                else if desc_type = BLOCK_DESC then Mapped table idx level
                else if desc_type = TABLE_DESC
                then find_entry_loop va (Suc level) (desc AND TABLE_ADDR_MASK) XLAT_TABLE_ENTRIES ctx
                else Walk_assert)"
  by auto
termination
  by (relation "measure (\<lambda>(va, level, table, entries, ctx). Suc XLAT_TABLE_LEVEL_MAX - level)") auto

definition find_xlat_table_entry :: "uintptr_t \<Rightarrow> xlat_ctx_t \<Rightarrow> walk_result" where
  "find_xlat_table_entry va ctx =
     find_entry_loop va (GET_XLAT_TABLE_LEVEL_BASE (va_max_address ctx + 1)) (base_table ctx) (base_table_entries ctx) ctx"

section \<open>Memory attributes\<close>

text \<open>The attributes read from a descriptor; the assertions on its fields give \<open>None\<close>.\<close>

definition desc_attributes :: "xlat_ctx_t \<Rightarrow> uint64_t \<Rightarrow> uint32_t option" where
  "desc_attributes ctx desc =
     (let attr_index = drop_bit 2 desc AND 3;
          xn_mask = xlat_arch_regime_get_xn_desc (xlat_regime ctx)
      in if attr_index \<notin> {ATTR_IWBWA_OWBWA_NTR_INDEX, ATTR_NON_CACHEABLE_INDEX, ATTR_DEVICE_INDEX}
            \<or> desc AND xn_mask \<noteq> xn_mask \<and> desc AND xn_mask \<noteq> 0
         then None
         else
           Some ((if attr_index = ATTR_IWBWA_OWBWA_NTR_INDEX then MT_MEMORY
                  else if attr_index = ATTR_NON_CACHEABLE_INDEX then MT_NON_CACHEABLE else MT_DEVICE)
                 OR (if drop_bit 7 desc AND 1 = 0 then MT_RW else 0)
                 OR (if xlat_regime ctx = EL1_EL0_REGIME \<and> drop_bit 6 desc AND 1 = 1 then MT_USER else 0)
                 OR (if drop_bit 5 desc AND 1 = 1 then MT_NS else 0)
                 OR (if desc AND xn_mask = xn_mask then MT_EXECUTE_NEVER else 0)))"

text \<open>The attributes, the entry, the physical address and the level, or the error code.\<close>

definition xlat_get_mem_attributes_internal ::
  "uintptr_t \<Rightarrow> xlat_ctx_t \<Rightarrow> (int + uint32_t \<times> uint64_t \<times> nat \<times> uint64_t \<times> nat) outcome" where
  "xlat_get_mem_attributes_internal va ctx =
     (if \<not> initialized ctx \<or> \<not> regime_ok ctx \<or> va_max_address ctx + 1 = 0 then Assert_failed
      else case find_xlat_table_entry va ctx of
             Not_mapped \<Rightarrow> Returned (Inl (- XLAT_EINVAL))
           | Walk_assert \<Rightarrow> Assert_failed
           | Mapped table idx level \<Rightarrow>
               let desc = xlat_mem ctx table idx
               in case desc_attributes ctx desc of
                    None \<Rightarrow> Assert_failed
                  | Some attr \<Rightarrow> Returned (Inr (attr, table, idx, desc AND TABLE_ADDR_MASK, level)))"

definition xlat_get_mem_attributes_ctx :: "uintptr_t \<Rightarrow> xlat_ctx_t \<Rightarrow> (int + uint32_t) outcome" where
  "xlat_get_mem_attributes_ctx va ctx = map_outcome (map_sum id fst) (xlat_get_mem_attributes_internal va ctx)"

text \<open>The sanity checks of \<open>xlat_change_mem_attributes_ctx\<close> on \<open>n\<close> pages, and the changes.\<close>

fun change_check_loop :: "uint32_t \<Rightarrow> nat \<Rightarrow> uintptr_t \<Rightarrow> xlat_ctx_t \<Rightarrow> int outcome" where
  "change_check_loop attr 0 va ctx = Returned 0"
| "change_check_loop attr (Suc n) va ctx =
     (case find_xlat_table_entry va ctx of
        Not_mapped \<Rightarrow> Returned (- XLAT_EINVAL)
      | Walk_assert \<Rightarrow> Assert_failed
      | Mapped table idx level \<Rightarrow>
          let desc = xlat_mem ctx table idx
          in if desc AND DESC_MASK \<noteq> PAGE_DESC \<or> level \<noteq> XLAT_TABLE_LEVEL_MAX then Returned (- XLAT_EINVAL)
             else if drop_bit 2 desc AND 3 = ATTR_DEVICE_INDEX \<and> attr AND MT_EXECUTE_NEVER = 0
             then Returned (- XLAT_EINVAL)
             else change_check_loop attr n (va + 0x1000) ctx)"

definition changed_attr :: "uint32_t \<Rightarrow> uint32_t \<Rightarrow> uint32_t" where
  "changed_attr old_attr attr =
     (old_attr AND NOT (MT_RW OR MT_EXECUTE_NEVER OR MT_USER)) OR (attr AND (MT_RW OR MT_EXECUTE_NEVER OR MT_USER))"

fun change_loop :: "xlat_env \<Rightarrow> uint32_t \<Rightarrow> nat \<Rightarrow> uintptr_t \<Rightarrow> xlat_ctx_t \<Rightarrow> int outcome \<times> xlat_ctx_t" where
  "change_loop e attr 0 va ctx = (Returned 0, ctx)"
| "change_loop e attr (Suc n) va ctx =
     (case xlat_get_mem_attributes_internal va ctx of
        Returned (Inr (old_attr, table, idx, addr_pa, level)) \<Rightarrow>
          let ctx = write_entry table idx INVALID_DESC ctx
          in (case xlat_desc e ctx (changed_attr old_attr attr) addr_pa level of
                Returned d \<Rightarrow> change_loop e attr n (va + 0x1000) (write_entry table idx d ctx)
              | _ \<Rightarrow> (Assert_failed, ctx))
      | _ \<Rightarrow> (Assert_failed, ctx))"

definition xlat_change_mem_attributes_ctx ::
  "xlat_env \<Rightarrow> uintptr_t \<Rightarrow> uint64_t \<Rightarrow> uint32_t \<Rightarrow> xlat_ctx_t \<Rightarrow> int outcome \<times> xlat_ctx_t" where
  "xlat_change_mem_attributes_ctx e va sz attr ctx =
     (if \<not> initialized ctx \<or> va_max_address ctx + 1 = 0 then (Assert_failed, ctx)
      else if \<not> IS_PAGE_ALIGNED va \<or> sz = 0 \<or> sz mod 0x1000 \<noteq> 0 then (Returned (- XLAT_EINVAL), ctx)
      else if attr AND MT_EXECUTE_NEVER = 0 \<and> attr AND MT_RW \<noteq> 0 then (Returned (- XLAT_EINVAL), ctx)
      else
        let pages_count = unat (sz div 0x1000)
        in case change_check_loop attr pages_count va ctx of
             Returned rc \<Rightarrow>
               if rc \<noteq> 0 then (Returned rc, ctx) else change_loop e attr pages_count va ctx
           | r \<Rightarrow> (r, ctx))"

text \<open>The loops are unfolded one turn at a time.\<close>

declare map_region_loop.simps [simp del] unmap_region_loop.simps [simp del] find_entry_loop.simps [simp del]

end
