(* ===== verification/Xlat_Desc.thy ===== *)
theory Xlat_Desc
  imports Xlat
begin

text \<open>
  Block and page descriptors: \<open>xlat_desc\<close> puts the address, the type and the attributes in disjoint
  fields, so each is read back, and the sizes of the blocks of each level.
\<close>

section \<open>Block sizes\<close>

text \<open>The size in bytes of what an entry describes, for a table with \<open>h\<close> levels below it.\<close>

definition bsz :: "nat \<Rightarrow> nat" where
  "bsz h = 2 ^ (12 + 9 * h)"

lemma bsz_pos [simp]: "0 < bsz h"
  by (simp add: bsz_def)

lemma bsz_Suc: "bsz (Suc h) = 512 * bsz h"
  by (simp add: bsz_def power_add)

lemma bsz_0: "bsz 0 = 4096"
  by (simp add: bsz_def)

lemma shift_height: "h \<le> 3 \<Longrightarrow> XLAT_ADDR_SHIFT (3 - h) = 12 + 9 * h"
  by (simp add: XLAT_ADDR_SHIFT_def)

lemma unat_push_one: "n < 64 \<Longrightarrow> unat (push_bit n (1 :: uint64_t)) = 2 ^ n"
  by (simp only: unsigned_push_bit_eq) (simp add: push_bit_eq_mult take_bit_nat_eq_self)

lemma unat_block_size: "h \<le> 3 \<Longrightarrow> unat (XLAT_BLOCK_SIZE (3 - h)) = bsz h"
  unfolding XLAT_BLOCK_SIZE_def by (simp only: shift_height bsz_def) (rule unat_push_one, simp)

lemma bsz_mult: "h \<le> h' \<Longrightarrow> bsz h dvd bsz h'"
  by (simp add: bsz_def le_imp_power_dvd)

lemma bsz_page: "4096 dvd bsz h"
  using bsz_mult [of 0 h] by (simp add: bsz_0)

lemma block_mask: "h \<le> 3 \<Longrightarrow> XLAT_BLOCK_MASK (3 - h) = mask (12 + 9 * h)"
  by (simp add: XLAT_BLOCK_MASK_def XLAT_BLOCK_SIZE_def shift_height mask_eq_exp_minus_1 push_bit_eq_mult)

lemma unat_and_mask: "h \<le> 3 \<Longrightarrow> unat (x AND XLAT_BLOCK_MASK (3 - h)) = unat x mod bsz h"
proof -
  assume h: "h \<le> 3"
  have "x AND XLAT_BLOCK_MASK (3 - h) = take_bit (12 + 9 * h) x"
    using h by (simp add: block_mask take_bit_eq_mask)
  then have "unat (x AND XLAT_BLOCK_MASK (3 - h)) = take_bit (12 + 9 * h) (unat x)"
    by (simp only: unsigned_take_bit_eq)
  then show ?thesis by (simp only: take_bit_eq_mod bsz_def)
qed

lemma and_block_mask: "h \<le> 3 \<Longrightarrow> x AND XLAT_BLOCK_MASK (3 - h) = 0 \<longleftrightarrow> bsz h dvd unat x"
  by (metis unat_and_mask dvd_eq_mod_eq_0 unat_eq_zero)

lemma clear_low_bits: "x AND NOT (mask n) = push_bit n (drop_bit n x)" for x :: uint64_t
  by (rule bit_word_eqI) (auto simp: bit_simps)

lemma unat_clear_block: "h \<le> 3 \<Longrightarrow> unat (x AND NOT (XLAT_BLOCK_MASK (3 - h))) = unat x - unat x mod bsz h"
proof -
  assume h: "h \<le> 3"
  have le: "unat x div 2 ^ n * 2 ^ n < 2 ^ 64" for n
    by (rule le_less_trans [OF div_times_less_eq_dividend]) (use unat_bound [of x] in simp)
  have "unat (x AND NOT (XLAT_BLOCK_MASK (3 - h))) = take_bit 64 (push_bit (12 + 9 * h) (drop_bit (12 + 9 * h) (unat x)))"
    using h unat_bound [of x]
    by (simp only: block_mask clear_low_bits unsigned_push_bit_eq unsigned_drop_bit_eq) (simp add: take_bit_nat_eq_self)
  also have "\<dots> = unat x div bsz h * bsz h"
    using le [of "12 + 9 * h"] by (simp only: push_bit_eq_mult drop_bit_eq_div bsz_def take_bit_nat_eq_self)
  finally show ?thesis by (simp add: minus_mod_eq_div_mult)
qed

section \<open>Fields of a descriptor\<close>

text \<open>The attribute bits \<open>xlat_desc\<close> sets, wherever the region lies and at whatever level.\<close>

definition attr_word :: "xlat_env \<Rightarrow> int \<Rightarrow> uint32_t \<Rightarrow> uint64_t option" where
  "attr_word e regime attr =
     (let common = LOWER_ATTRS ACCESS_FLAG OR ucast (xlat_arch_get_pas e attr)
            OR (if attr AND MT_RW \<noteq> 0 then LOWER_ATTRS AP_RW else LOWER_ATTRS AP_RO)
            OR (if regime = EL1_EL0_REGIME
                then if attr AND MT_USER \<noteq> 0 then LOWER_ATTRS AP_ACCESS_UNPRIVILEGED
                     else LOWER_ATTRS AP_NO_ACCESS_UNPRIVILEGED
                else LOWER_ATTRS AP_ONE_VA_RANGE_RES1);
          xn = xlat_arch_regime_get_xn_desc regime;
          maybe_xn = (if attr AND MT_RW \<noteq> 0 \<or> attr AND MT_EXECUTE_NEVER \<noteq> 0 then xn else 0)
      in if attr AND MT_TYPE_MASK = MT_DEVICE then Some (common OR LOWER_ATTRS (ATTR_DEVICE_INDEX OR OSH) OR xn)
         else if attr AND MT_TYPE_MASK = MT_MEMORY then
           Some (common OR maybe_xn
             OR (if attr AND MT_SHAREABILITY_MASK = MT_SHAREABILITY_NSH then LOWER_ATTRS NSH
                 else if attr AND MT_SHAREABILITY_MASK = MT_SHAREABILITY_OSH then LOWER_ATTRS OSH
                 else LOWER_ATTRS ISH)
             OR (if bti_present e \<and> attr AND (MT_TYPE_MASK OR MT_RW OR MT_EXECUTE_NEVER) = MT_CODE then GP else 0))
         else if attr AND MT_TYPE_MASK = MT_NON_CACHEABLE then
           Some (common OR maybe_xn OR LOWER_ATTRS (ATTR_NON_CACHEABLE_INDEX OR OSH))
         else None)"

lemma xlat_desc_fields:
  "xlat_desc e ctx attr pa level = Returned d \<longleftrightarrow>
     pa AND XLAT_BLOCK_MASK level = 0 \<and> regime_ok ctx \<and>
     (\<exists>a. attr_word e (xlat_regime ctx) attr = Some a \<and> d = pa OR (if level = 3 then PAGE_DESC else BLOCK_DESC) OR a)"
  by (auto simp: xlat_desc_def attr_word_def Let_def or.assoc LOWER_ATTRS_def [of ATTR_IWBWA_OWBWA_NTR_INDEX])

text \<open>The bits of the address and of the type.\<close>

definition FIXED_BITS :: uint64_t where
  "FIXED_BITS = TABLE_ADDR_MASK OR DESC_MASK"

definition attr_bits :: "uint64_t \<Rightarrow> uint64_t" where
  "attr_bits d = d AND NOT FIXED_BITS"

lemma fixed_or: "x AND FIXED_BITS = 0 \<Longrightarrow> y AND FIXED_BITS = 0 \<Longrightarrow> (x OR y) AND FIXED_BITS = 0"
  by (simp add: bit.conj_disj_distrib2)

lemma fixed_pas: "(ucast (xlat_arch_get_pas e attr) :: uint64_t) AND FIXED_BITS = 0"
  by (simp add: xlat_arch_get_pas_def Let_def LOWER_ATTRS_def FIXED_BITS_def)

lemma fixed_xn: "xlat_arch_regime_get_xn_desc r AND FIXED_BITS = 0"
  by (simp add: xlat_arch_regime_get_xn_desc_def UPPER_ATTRS_def FIXED_BITS_def)

lemma fixed_lower:
  "x \<in> {0, 1, 2, 8, 0x10, 0x20, 0x80, 0x81, 0x82, 0xC0, 0x100} \<Longrightarrow> LOWER_ATTRS x AND FIXED_BITS = 0"
  by (auto simp: LOWER_ATTRS_def FIXED_BITS_def)

lemma fixed_gp: "GP AND FIXED_BITS = 0"
  by (simp add: FIXED_BITS_def)

lemma fixed_if: "x AND FIXED_BITS = 0 \<Longrightarrow> y AND FIXED_BITS = 0 \<Longrightarrow> (if c then x else y) AND FIXED_BITS = 0"
  by simp

lemmas fixed_intros = fixed_or fixed_if fixed_pas fixed_xn fixed_gp fixed_lower

lemma attr_word_fixed:
  assumes "attr_word e regime attr = Some a"
  shows "a AND FIXED_BITS = 0"
proof (cases "attr AND MT_TYPE_MASK = MT_DEVICE")
  case True
  show ?thesis
    using assms unfolding attr_word_def Let_def
    by (simp only: True if_True option.inject simp_thms) (erule subst, intro fixed_intros; simp)
next
  case dev: False
  show ?thesis
  proof (cases "attr AND MT_TYPE_MASK = MT_MEMORY")
    case True
    show ?thesis
      using assms dev unfolding attr_word_def Let_def
      by (simp only: True if_True if_False option.inject simp_thms) (erule subst, intro fixed_intros; simp)
  next
    case False
    then have "attr AND MT_TYPE_MASK = MT_NON_CACHEABLE"
      using assms dev by (auto simp: attr_word_def Let_def split: if_splits)
    then show ?thesis
      using assms dev False unfolding attr_word_def Let_def
      by (simp only: if_True if_False option.inject simp_thms) (erule subst, intro fixed_intros; simp)
  qed
qed

lemma fixed_parts: "x AND FIXED_BITS = 0 \<Longrightarrow> x AND TABLE_ADDR_MASK = 0 \<and> x AND DESC_MASK = 0"
proof -
  have "x AND TABLE_ADDR_MASK = (x AND FIXED_BITS) AND TABLE_ADDR_MASK" "x AND DESC_MASK = (x AND FIXED_BITS) AND DESC_MASK"
    by (simp_all add: FIXED_BITS_def and.assoc)
  then show "x AND FIXED_BITS = 0 \<Longrightarrow> x AND TABLE_ADDR_MASK = 0 \<and> x AND DESC_MASK = 0" by simp
qed

lemma desc_fields:
  assumes "a AND FIXED_BITS = 0" "pa AND TABLE_ADDR_MASK = pa" "t = 1 \<or> t = 3"
  shows "(pa OR t OR a) AND DESC_MASK = t" "(pa OR t OR a) AND TABLE_ADDR_MASK = pa" "attr_bits (pa OR t OR a) = a"
proof -
  have a: "a AND TABLE_ADDR_MASK = 0" "a AND DESC_MASK = 0" using fixed_parts [OF assms(1)] by simp_all
  have "pa AND DESC_MASK = (pa AND TABLE_ADDR_MASK) AND DESC_MASK" using assms(2) by simp
  then have p: "pa AND DESC_MASK = 0" by (simp only: and.assoc) simp
  have t: "t AND DESC_MASK = t" "t AND TABLE_ADDR_MASK = 0" using assms(3) by auto
  show "(pa OR t OR a) AND DESC_MASK = t" by (simp only: bit.conj_disj_distrib2 a p t) simp
  show "(pa OR t OR a) AND TABLE_ADDR_MASK = pa" by (simp only: bit.conj_disj_distrib2 a assms(2) t) simp
  have "pa AND NOT FIXED_BITS = (pa AND TABLE_ADDR_MASK) AND NOT FIXED_BITS" using assms(2) by simp
  then have pf: "pa AND NOT FIXED_BITS = 0" by (simp only: and.assoc) (simp add: FIXED_BITS_def)
  have tf: "t AND NOT FIXED_BITS = 0" using assms(3) by (auto simp: FIXED_BITS_def)
  have "a AND NOT FIXED_BITS = a"
  proof (rule bit_word_eqI)
    fix n
    have "\<not> bit (a AND FIXED_BITS) n" using assms(1) by simp
    then show "bit (a AND NOT FIXED_BITS) n \<longleftrightarrow> bit a n" if "n < LENGTH(64)"
      using that by (auto simp: bit_and_iff bit_not_iff)
  qed
  then show "attr_bits (pa OR t OR a) = a" by (simp add: attr_bits_def bit.conj_disj_distrib2 pf tf)
qed

lemma mapped_desc:
  assumes "xlat_desc e ctx attr pa level = Returned d" "pa AND TABLE_ADDR_MASK = pa"
  shows "d AND DESC_MASK = (if level = 3 then PAGE_DESC else BLOCK_DESC)" "d AND TABLE_ADDR_MASK = pa"
    and "attr_word e (xlat_regime ctx) attr = Some (attr_bits d)"
proof -
  obtain a where a: "attr_word e (xlat_regime ctx) attr = Some a"
      "d = pa OR (if level = 3 then PAGE_DESC else BLOCK_DESC) OR a"
    using assms(1) by (auto simp: xlat_desc_fields)
  note f = desc_fields [OF attr_word_fixed [OF a(1)] assms(2), of "if level = 3 then PAGE_DESC else BLOCK_DESC"]
  show "d AND DESC_MASK = (if level = 3 then PAGE_DESC else BLOCK_DESC)" "d AND TABLE_ADDR_MASK = pa"
      "attr_word e (xlat_regime ctx) attr = Some (attr_bits d)"
    using f a by auto
qed

end
