(* ===== verification/Xlat_Walk.thy ===== *)
theory Xlat_Walk
  imports Xlat_Desc
begin

text \<open>
  What the tables mean: the tables an entry refers to, the translation an entry gives, and the
  agreement of both with the walk of \<open>find_xlat_table_entry\<close>. Height \<open>h\<close> stands for level \<open>3 - h\<close>.
\<close>

type_synonym tables = "uint64_t \<Rightarrow> nat \<Rightarrow> uint64_t"

abbreviation (input) sub_of :: "uint64_t \<Rightarrow> uint64_t" where
  "sub_of d \<equiv> d AND TABLE_ADDR_MASK"

section \<open>The tables below an entry\<close>

fun esub :: "tables \<Rightarrow> nat \<Rightarrow> uint64_t \<Rightarrow> uint64_t set" where
  "esub m 0 d = {}"
| "esub m (Suc h) d =
     (if d AND DESC_MASK = TABLE_DESC then insert (sub_of d) (\<Union>i < 512. esub m h (m (sub_of d) i)) else {})"

definition tsub :: "tables \<Rightarrow> nat \<Rightarrow> uint64_t \<Rightarrow> nat \<Rightarrow> uint64_t set" where
  "tsub m h t n = (\<Union>i < n. esub m h (m t i))"

text \<open>No table is reached twice.\<close>

fun eok :: "tables \<Rightarrow> nat \<Rightarrow> uint64_t \<Rightarrow> bool" where
  "eok m 0 d = True"
| "eok m (Suc h) d =
     (d AND DESC_MASK = TABLE_DESC \<longrightarrow>
        (\<forall>i < 512. eok m h (m (sub_of d) i) \<and> sub_of d \<notin> esub m h (m (sub_of d) i))
        \<and> (\<forall>i < 512. \<forall>j < 512. i \<noteq> j \<longrightarrow> esub m h (m (sub_of d) i) \<inter> esub m h (m (sub_of d) j) = {}))"

definition tok :: "tables \<Rightarrow> nat \<Rightarrow> uint64_t \<Rightarrow> nat \<Rightarrow> bool" where
  "tok m h t n \<longleftrightarrow>
     (\<forall>i < n. eok m h (m t i) \<and> t \<notin> esub m h (m t i))
     \<and> (\<forall>i < n. \<forall>j < n. i \<noteq> j \<longrightarrow> esub m h (m t i) \<inter> esub m h (m t j) = {})"

lemma esub_Suc: "esub m (Suc h) d = (if d AND DESC_MASK = TABLE_DESC then insert (sub_of d) (tsub m h (sub_of d) 512) else {})"
  by (simp add: tsub_def)

lemma eok_Suc: "eok m (Suc h) d \<longleftrightarrow> (d AND DESC_MASK = TABLE_DESC \<longrightarrow> tok m h (sub_of d) 512)"
  by (simp add: tok_def)

section \<open>The translation\<close>

text \<open>The physical address and the attributes for the byte at an offset from the start of the entry.\<close>

fun etrans :: "tables \<Rightarrow> nat \<Rightarrow> uint64_t \<Rightarrow> nat \<Rightarrow> (uint64_t \<times> uint64_t) option" where
  "etrans m 0 d off = (if d AND DESC_MASK = PAGE_DESC then Some (sub_of d + of_nat off, attr_bits d) else None)"
| "etrans m (Suc h) d off =
     (if d AND DESC_MASK = BLOCK_DESC then Some (sub_of d + of_nat off, attr_bits d)
      else if d AND DESC_MASK = TABLE_DESC then etrans m h (m (sub_of d) (off div bsz h)) (off mod bsz h)
      else None)"

definition ttrans :: "tables \<Rightarrow> nat \<Rightarrow> uint64_t \<Rightarrow> nat \<Rightarrow> nat \<Rightarrow> (uint64_t \<times> uint64_t) option" where
  "ttrans m h t n off = (if off div bsz h < n then etrans m h (m t (off div bsz h)) (off mod bsz h) else None)"

lemma etrans_table:
  "d AND DESC_MASK = TABLE_DESC \<Longrightarrow> off < bsz (Suc h) \<Longrightarrow> etrans m (Suc h) d off = ttrans m h (sub_of d) 512 off"
  by (simp add: ttrans_def bsz_Suc less_mult_imp_div_less mult.commute)

lemma etrans_invalid [simp]: "d AND DESC_MASK = INVALID_DESC \<Longrightarrow> etrans m h d off = None"
  by (cases h) simp_all

lemma esub_not_table [simp]: "d AND DESC_MASK \<noteq> TABLE_DESC \<Longrightarrow> esub m h d = {}"
  by (cases h) simp_all

lemma eok_not_table [simp]: "d AND DESC_MASK \<noteq> TABLE_DESC \<Longrightarrow> eok m h d"
  by (cases h) simp_all

text \<open>An entry depends on the tables below it only.\<close>

lemma entry_frame:
  "(\<And>x. x \<in> esub m h d \<Longrightarrow> m' x = m x) \<Longrightarrow>
     esub m' h d = esub m h d \<and> eok m' h d = eok m h d \<and> (\<forall>off < bsz h. etrans m' h d off = etrans m h d off)"
proof (induction h arbitrary: d)
  case 0
  then show ?case by simp
next
  case (Suc h)
  show ?case
  proof (cases "d AND DESC_MASK = TABLE_DESC")
    case True
    have top: "m' (sub_of d) = m (sub_of d)" using Suc.prems True by simp
    have sub: "esub m' h (m (sub_of d) i) = esub m h (m (sub_of d) i)
        \<and> eok m' h (m (sub_of d) i) = eok m h (m (sub_of d) i)
        \<and> (\<forall>off < bsz h. etrans m' h (m (sub_of d) i) off = etrans m h (m (sub_of d) i) off)" if "i < 512" for i
      using that Suc.prems True by (intro Suc.IH) auto
    have "etrans m' (Suc h) d off = etrans m (Suc h) d off" if "off < bsz (Suc h)" for off
      using that True top sub [of "off div bsz h"] by (simp add: bsz_Suc less_mult_imp_div_less mult.commute)
    then show ?thesis using True top sub by simp
  next
    case False
    then show ?thesis by simp
  qed
qed

lemmas esub_frame = entry_frame [THEN conjunct1]
lemmas eok_frame = entry_frame [THEN conjunct2, THEN conjunct1]
lemmas etrans_frame = entry_frame [THEN conjunct2, THEN conjunct2, rule_format]

text \<open>
  The leaf entries satisfy a predicate of their first address and size, and every entry has a type
  that its level allows.
\<close>

fun eleaf :: "(nat \<Rightarrow> nat \<Rightarrow> bool) \<Rightarrow> tables \<Rightarrow> nat \<Rightarrow> uint64_t \<Rightarrow> nat \<Rightarrow> bool" where
  "eleaf Q m 0 d base \<longleftrightarrow> d AND DESC_MASK = INVALID_DESC \<or> d AND DESC_MASK = PAGE_DESC \<and> Q base (bsz 0)"
| "eleaf Q m (Suc h) d base \<longleftrightarrow>
     d AND DESC_MASK = INVALID_DESC \<or> d AND DESC_MASK = BLOCK_DESC \<and> h < 2 \<and> Q base (bsz (Suc h))
     \<or> d AND DESC_MASK = TABLE_DESC \<and> (\<forall>i < 512. eleaf Q m h (m (sub_of d) i) (base + i * bsz h))"

lemma eleaf_frame: "(\<And>x. x \<in> esub m h d \<Longrightarrow> m' x = m x) \<Longrightarrow> eleaf Q m' h d base = eleaf Q m h d base"
proof (induction h arbitrary: d base)
  case 0
  then show ?case by simp
next
  case (Suc h)
  show ?case
  proof (cases "d AND DESC_MASK = TABLE_DESC")
    case True
    have "m' (sub_of d) = m (sub_of d)" using Suc.prems True by simp
    moreover have "eleaf Q m' h (m (sub_of d) i) b = eleaf Q m h (m (sub_of d) i) b" if "i < 512" for i b
      using that Suc.prems True by (intro Suc.IH) auto
    ultimately show ?thesis using True by simp
  next
    case False
    then show ?thesis by simp
  qed
qed

lemma eleaf_mono: "eleaf Q m h d base \<Longrightarrow> (\<And>b s. Q b s \<Longrightarrow> Q' b s) \<Longrightarrow> eleaf Q' m h d base"
  by (induction h arbitrary: d base) auto

lemma eleaf_invalid [simp]: "d AND DESC_MASK = INVALID_DESC \<Longrightarrow> eleaf Q m h d base"
  by (cases h) simp_all

text \<open>
  The regions that reach into the addresses of an entry: an entry is invalid only when none does, and
  every table counts at least those that do, or exactly those. \<open>K b s\<close> is the number of regions that
  meet the \<open>s\<close> bytes from \<open>b\<close>.
\<close>

fun ecnt :: "bool \<Rightarrow> (nat \<Rightarrow> nat \<Rightarrow> int) \<Rightarrow> (uint64_t \<Rightarrow> int) \<Rightarrow> tables \<Rightarrow> nat \<Rightarrow> uint64_t \<Rightarrow> nat \<Rightarrow> bool" where
  "ecnt exact K k m 0 d base \<longleftrightarrow> (d AND DESC_MASK = INVALID_DESC \<longrightarrow> K base (bsz 0) = 0)"
| "ecnt exact K k m (Suc h) d base \<longleftrightarrow>
     (d AND DESC_MASK = INVALID_DESC \<longrightarrow> K base (bsz (Suc h)) = 0)
     \<and> (d AND DESC_MASK = TABLE_DESC \<longrightarrow>
          K base (bsz (Suc h)) \<le> k (sub_of d) \<and> (exact \<longrightarrow> K base (bsz (Suc h)) = k (sub_of d))
          \<and> (\<forall>i < 512. ecnt exact K k m h (m (sub_of d) i) (base + i * bsz h)))"

lemma ecnt_frame:
  "ecnt x K k m h d base \<Longrightarrow> (\<And>t. t \<in> esub m h d \<Longrightarrow> m' t = m t \<and> k' t = k t) \<Longrightarrow> ecnt x K k' m' h d base"
proof (induction h arbitrary: d base)
  case 0
  then show ?case by simp
next
  case (Suc h)
  show ?case
  proof (cases "d AND DESC_MASK = TABLE_DESC")
    case True
    have top: "m' (sub_of d) = m (sub_of d)" "k' (sub_of d) = k (sub_of d)" using Suc.prems(2) [of "sub_of d"] True by simp_all
    have "ecnt x K k' m' h (m (sub_of d) i) (base + i * bsz h)" if "i < 512" for i
      using that Suc.prems True by (intro Suc.IH) auto
    then show ?thesis using Suc.prems(1) True top by simp
  next
    case False
    then show ?thesis using Suc.prems(1) by simp
  qed
qed

lemma sub_range: "i < 512 \<Longrightarrow> base + i * bsz h + bsz h \<le> base + bsz (Suc h)"
  using mult_le_mono1 [of "Suc i" 512 "bsz h"] by (simp add: bsz_Suc)

lemma ecnt_cong:
  "ecnt x K k m h d base \<Longrightarrow> (\<And>b s. base \<le> b \<Longrightarrow> b + s \<le> base + bsz h \<Longrightarrow> K' b s = K b s) \<Longrightarrow> ecnt x K' k m h d base"
proof (induction h arbitrary: d base)
  case 0
  then show ?case by simp
next
  case (Suc h)
  have top: "K' base (bsz (Suc h)) = K base (bsz (Suc h))" using Suc.prems(2) by simp
  have "ecnt x K' k m h (m (sub_of d) i) (base + i * bsz h)"
    if i: "i < 512" and d: "d AND DESC_MASK = TABLE_DESC" for i
  proof (rule Suc.IH)
    show "ecnt x K k m h (m (sub_of d) i) (base + i * bsz h)" using Suc.prems(1) i d by simp
    show "K' b s = K b s" if "base + i * bsz h \<le> b" "b + s \<le> base + i * bsz h + bsz h" for b s
      using that sub_range [OF i, of base h] by (intro Suc.prems(2)) auto
  qed
  then show ?case using Suc.prems(1) top by simp
qed

lemma ecnt_leaf [simp]:
  "d AND DESC_MASK = (if h = 0 then PAGE_DESC else BLOCK_DESC) \<Longrightarrow> ecnt x K k m h d base"
  by (cases h) simp_all

lemma ecnt_invalid: "d AND DESC_MASK = INVALID_DESC \<Longrightarrow> ecnt x K k m h d base \<longleftrightarrow> K base (bsz h) = 0"
  by (cases h) simp_all

section \<open>The walk of the source\<close>

text \<open>The translation of an address as the walk finds it.\<close>

definition walk_value :: "xlat_ctx_t \<Rightarrow> uintptr_t \<Rightarrow> walk_result \<Rightarrow> (uint64_t \<times> uint64_t) option" where
  "walk_value ctx va w =
     (case w of
        Mapped table idx level \<Rightarrow>
          Some (sub_of (xlat_mem ctx table idx) + (va AND XLAT_BLOCK_MASK level), attr_bits (xlat_mem ctx table idx))
      | _ \<Rightarrow> None)"

definition xlat_translate :: "xlat_ctx_t \<Rightarrow> uintptr_t \<Rightarrow> (uint64_t \<times> uint64_t) option" where
  "xlat_translate ctx va = walk_value ctx va (find_xlat_table_entry va ctx)"

lemma table_idx: "h \<le> 3 \<Longrightarrow> XLAT_TABLE_IDX va (3 - h) = unat va mod bsz (Suc h) div bsz h"
proof -
  assume h: "h \<le> 3"
  have "XLAT_TABLE_IDX va (3 - h) = unat (take_bit 9 (drop_bit (12 + 9 * h) va))"
    using h by (simp add: XLAT_TABLE_IDX_def shift_height take_bit_eq_mask mask_numeral)
  also have "\<dots> = take_bit 9 (drop_bit (12 + 9 * h) (unat va))"
    by (simp only: unsigned_take_bit_eq unsigned_drop_bit_eq) (use unat_bound [of va] in \<open>simp add: take_bit_nat_eq_self\<close>)
  also have "\<dots> = unat va div bsz h mod 512"
    by (simp add: take_bit_eq_mod drop_bit_eq_div bsz_def)
  also have "\<dots> = unat va mod bsz (Suc h) div bsz h"
    by (simp add: bsz_Suc div_mult2_eq' mod_mult2_eq mult.commute [of 512])
  finally show ?thesis .
qed

lemma and_mask_offset: "h \<le> 3 \<Longrightarrow> va AND XLAT_BLOCK_MASK (3 - h) = of_nat (unat va mod bsz h)"
  by (simp flip: unat_and_mask)

lemma bsz_mod_Suc: "x mod bsz (Suc h) mod bsz h = x mod bsz h"
  by (simp add: bsz_mult mod_mod_cancel)

lemma walk_ttrans:
  "h \<le> 3 \<Longrightarrow> walk_value ctx va (find_entry_loop va (3 - h) t n ctx) = ttrans (xlat_mem ctx) h t n (unat va mod bsz (Suc h))"
proof (induction h arbitrary: t n)
  case 0
  then show ?case
    using table_idx [of 0 va] and_mask_offset [of 0 va]
    by (subst find_entry_loop.simps) (auto simp: walk_value_def ttrans_def Let_def bsz_mod_Suc)
next
  case (Suc h)
  define d where "d = xlat_mem ctx t (unat va mod bsz (Suc (Suc h)) div bsz (Suc h))"
  have level: "3 - Suc h \<le> 3" "3 - Suc h \<noteq> 3" "Suc (3 - Suc h) = 3 - h" using Suc.prems by simp_all
  have sub: "walk_value ctx va (find_entry_loop va (3 - h) (sub_of d) 512 ctx)
      = etrans (xlat_mem ctx) (Suc h) d (unat va mod bsz (Suc h))" if "d AND DESC_MASK = TABLE_DESC"
    using that Suc by (simp only: etrans_table mod_less_divisor bsz_pos)
  show ?case
    using level sub table_idx [OF Suc.prems, of va] and_mask_offset [OF Suc.prems, of va]
    by (subst find_entry_loop.simps) (auto simp: walk_value_def ttrans_def Let_def bsz_mod_Suc simp flip: d_def)
qed

end
