(* ===== verification/Xlat_Pool.thy ===== *)
theory Xlat_Pool
  imports Xlat_Walk
begin

text \<open>
  The pool of tables: which tables are free, how taking one changes the context, and what an
  operation leaves alone.
\<close>

definition free_tables :: "xlat_ctx_t \<Rightarrow> uint64_t set" where
  "free_tables ctx = {xlat_tables ctx ! i | i. i < length (xlat_tables ctx) \<and> tables_mapped_regions ctx i = 0}"

definition pool_base :: "xlat_ctx_t \<Rightarrow> bool" where
  "pool_base ctx \<longleftrightarrow>
     distinct (xlat_tables ctx) \<and> (\<forall>t \<in> set (xlat_tables ctx). sub_of t = t)
     \<and> (\<forall>i < length (xlat_tables ctx). 0 \<le> tables_mapped_regions ctx i)"

definition pool_ok :: "xlat_ctx_t \<Rightarrow> bool" where
  "pool_ok ctx \<longleftrightarrow>
     pool_base ctx \<and> (\<forall>t \<in> free_tables ctx. \<forall>i < 512. xlat_mem ctx t i AND DESC_MASK = INVALID_DESC)"

text \<open>The number of regions a table counts.\<close>

definition cnt :: "xlat_ctx_t \<Rightarrow> uint64_t \<Rightarrow> int" where
  "cnt ctx t = (case index_of t (xlat_tables ctx) of Some i \<Rightarrow> tables_mapped_regions ctx i | None \<Rightarrow> 0)"

lemma free_tables_subset: "free_tables ctx \<subseteq> set (xlat_tables ctx)"
  by (auto simp: free_tables_def)

lemma index_of_nth: "distinct xs \<Longrightarrow> i < length xs \<Longrightarrow> index_of (xs ! i) xs = Some i"
  by (induction xs arbitrary: i) (auto simp: nth_Cons' split: nat.splits)

lemma index_of_Some: "index_of x xs = Some i \<Longrightarrow> i < length xs \<and> xs ! i = x"
  by (induction xs arbitrary: i) (auto split: if_splits)

lemma index_of_None: "index_of x xs = None \<longleftrightarrow> x \<notin> set xs"
  by (induction xs) auto

lemma free_cnt: "pool_base ctx \<Longrightarrow> t \<in> free_tables ctx \<longleftrightarrow> t \<in> set (xlat_tables ctx) \<and> cnt ctx t = 0"
  by (auto simp: free_tables_def cnt_def pool_base_def in_set_conv_nth index_of_nth)

lemma pool_ok_base: "pool_ok ctx \<Longrightarrow> pool_base ctx"
  by (simp add: pool_ok_def)

lemma cnt_nonneg: "pool_base ctx \<Longrightarrow> 0 \<le> cnt ctx t"
  by (auto simp: cnt_def pool_base_def dest: index_of_Some split: option.split)

lemma get_empty_None: "xlat_table_get_empty ctx = None \<longleftrightarrow> free_tables ctx = {}"
  by (auto simp: xlat_table_get_empty_def free_tables_def find_None_iff)

lemma get_empty_Some: "xlat_table_get_empty ctx = Some t \<Longrightarrow> t \<in> free_tables ctx"
  by (auto simp: xlat_table_get_empty_def free_tables_def find_Some_iff)

text \<open>An operation that writes the tables of a set only, and those it takes from the pool.\<close>

definition same_fields :: "xlat_ctx_t \<Rightarrow> xlat_ctx_t \<Rightarrow> bool" where
  "same_fields ctx ctx' \<longleftrightarrow>
     ctx' = ctx\<lparr>xlat_mem := xlat_mem ctx', tables_mapped_regions := tables_mapped_regions ctx'\<rparr>"

lemma same_fields_simps:
  assumes "same_fields ctx ctx'"
  shows "xlat_tables ctx' = xlat_tables ctx" "xlat_regime ctx' = xlat_regime ctx" "base_table ctx' = base_table ctx"
    "base_table_entries ctx' = base_table_entries ctx" "base_level ctx' = base_level ctx" "mmap ctx' = mmap ctx"
    "va_max_address ctx' = va_max_address ctx" "pa_max_address ctx' = pa_max_address ctx" "regime_ok ctx' = regime_ok ctx"
    "max_va ctx' = max_va ctx" "max_pa ctx' = max_pa ctx" "initialized ctx' = initialized ctx" "mmap_num ctx' = mmap_num ctx"
  using assms by (cases ctx; cases ctx'; simp add: same_fields_def regime_ok_def)+

lemma same_fields_trans: "same_fields ctx ctx1 \<Longrightarrow> same_fields ctx1 ctx2 \<Longrightarrow> same_fields ctx ctx2"
  by (cases ctx; cases ctx1; cases ctx2; simp add: same_fields_def)

definition alloc_frame :: "uint64_t set \<Rightarrow> xlat_ctx_t \<Rightarrow> xlat_ctx_t \<Rightarrow> bool" where
  "alloc_frame S ctx ctx' \<longleftrightarrow>
     same_fields ctx ctx' \<and> free_tables ctx' \<subseteq> free_tables ctx
     \<and> (\<forall>i < length (xlat_tables ctx). tables_mapped_regions ctx i \<le> tables_mapped_regions ctx' i)
     \<and> (\<forall>x. x \<notin> S \<union> (free_tables ctx - free_tables ctx') \<longrightarrow> xlat_mem ctx' x = xlat_mem ctx x)"

lemma alloc_frame_refl: "alloc_frame S ctx ctx"
  by (simp add: alloc_frame_def same_fields_def)

lemma alloc_frame_mono: "alloc_frame S ctx ctx' \<Longrightarrow> S \<subseteq> S' \<Longrightarrow> alloc_frame S' ctx ctx'"
  by (auto simp: alloc_frame_def)

lemma alloc_frame_trans:
  assumes one: "alloc_frame S1 ctx ctx1" and two: "alloc_frame S2 ctx1 ctx2"
    and sub: "S1 \<subseteq> S" "S2 \<subseteq> S \<union> (free_tables ctx - free_tables ctx1)"
  shows "alloc_frame S ctx ctx2"
proof -
  have f: "free_tables ctx1 \<subseteq> free_tables ctx" "free_tables ctx2 \<subseteq> free_tables ctx1"
    using one two by (simp_all add: alloc_frame_def)
  have "xlat_mem ctx2 x = xlat_mem ctx x" if "x \<notin> S \<union> (free_tables ctx - free_tables ctx2)" for x
  proof -
    have "x \<notin> S2 \<union> (free_tables ctx1 - free_tables ctx2)" "x \<notin> S1 \<union> (free_tables ctx - free_tables ctx1)"
      using that sub f by auto
    then show ?thesis using one two by (simp add: alloc_frame_def)
  qed
  moreover have "tables_mapped_regions ctx i \<le> tables_mapped_regions ctx2 i" if "i < length (xlat_tables ctx)" for i
    using that one two same_fields_simps(1) [of ctx ctx1] order_trans unfolding alloc_frame_def by metis
  ultimately show ?thesis
    using one two f same_fields_trans by (auto simp: alloc_frame_def)
qed

text \<open>The counts that stay the same.\<close>

definition cnt_same :: "uint64_t set \<Rightarrow> xlat_ctx_t \<Rightarrow> xlat_ctx_t \<Rightarrow> bool" where
  "cnt_same C ctx ctx' \<longleftrightarrow> (\<forall>x. x \<notin> C \<union> (free_tables ctx - free_tables ctx') \<longrightarrow> cnt ctx' x = cnt ctx x)"

lemma cnt_same_refl [simp]: "cnt_same C ctx ctx"
  by (simp add: cnt_same_def)

lemma cnt_same_mono: "cnt_same C ctx ctx' \<Longrightarrow> C \<subseteq> C' \<Longrightarrow> cnt_same C' ctx ctx'"
  by (auto simp: cnt_same_def)

lemma cnt_same_trans:
  assumes one: "cnt_same C1 ctx ctx1" and two: "cnt_same C2 ctx1 ctx2"
    and f: "free_tables ctx1 \<subseteq> free_tables ctx" "free_tables ctx2 \<subseteq> free_tables ctx1"
    and sub: "C1 \<subseteq> C" "C2 \<subseteq> C \<union> (free_tables ctx - free_tables ctx1)"
  shows "cnt_same C ctx ctx2"
  unfolding cnt_same_def
proof (intro allI impI)
  fix x assume "x \<notin> C \<union> (free_tables ctx - free_tables ctx2)"
  then have "x \<notin> C2 \<union> (free_tables ctx1 - free_tables ctx2)" "x \<notin> C1 \<union> (free_tables ctx - free_tables ctx1)"
    using sub f by auto
  then show "cnt ctx2 x = cnt ctx x" using one two by (simp add: cnt_same_def)
qed

lemma pool_ok_frame:
  assumes "alloc_frame S ctx ctx'" "pool_ok ctx" "S \<inter> free_tables ctx = {}"
  shows "pool_ok ctx'"
proof -
  have t: "xlat_tables ctx' = xlat_tables ctx" using assms(1) same_fields_simps by (simp add: alloc_frame_def)
  have "xlat_mem ctx' x = xlat_mem ctx x \<and> x \<in> free_tables ctx" if "x \<in> free_tables ctx'" for x
    using that assms by (auto simp: alloc_frame_def)
  moreover have "0 \<le> tables_mapped_regions ctx' i" if "i < length (xlat_tables ctx)" for i
  proof -
    have "0 \<le> tables_mapped_regions ctx i" "tables_mapped_regions ctx i \<le> tables_mapped_regions ctx' i"
      using that assms by (auto simp: alloc_frame_def pool_ok_def pool_base_def)
    then show ?thesis by simp
  qed
  ultimately show ?thesis using assms(2) t by (simp add: pool_ok_def pool_base_def)
qed

lemma write_entry_frame: "t \<in> S \<Longrightarrow> alloc_frame S ctx (write_entry t i d ctx)"
  by (auto simp: alloc_frame_def write_entry_def same_fields_def free_tables_def)

lemma write_entry_cnt [simp]: "cnt (write_entry t i d ctx) = cnt ctx"
  by (simp add: cnt_def write_entry_def fun_eq_iff split: option.split)

lemma inc_regions:
  assumes "pool_ok ctx" "t \<in> set (xlat_tables ctx)"
  obtains ctx' where "xlat_table_inc_regions_count t ctx = Some ctx'" "alloc_frame S ctx ctx'"
    "xlat_mem ctx' = xlat_mem ctx" "free_tables ctx' = free_tables ctx - {t}" "cnt ctx' t = cnt ctx t + 1"
    "\<And>x. x \<noteq> t \<Longrightarrow> cnt ctx' x = cnt ctx x"
proof -
  obtain k where k: "k < length (xlat_tables ctx)" "t = xlat_tables ctx ! k" using assms(2) by (auto simp: in_set_conv_nth)
  have dist: "distinct (xlat_tables ctx)" using assms(1) by (simp add: pool_ok_def pool_base_def)
  define ctx' where "ctx' = ctx\<lparr>tables_mapped_regions := (tables_mapped_regions ctx)(k := tables_mapped_regions ctx k + 1)\<rparr>"
  have 1: "xlat_table_inc_regions_count t ctx = Some ctx'"
    using k dist by (simp add: xlat_table_inc_regions_count_def xlat_table_add_regions_count_def xlat_table_get_index_def
      index_of_nth ctx'_def)
  have free: "free_tables ctx' = free_tables ctx - {t}"
  proof -
    have "0 \<le> tables_mapped_regions ctx k" using assms(1) k by (simp add: pool_ok_def pool_base_def)
    then show ?thesis
      using k dist by (auto simp: free_tables_def ctx'_def nth_eq_iff_index_eq)
  qed
  have 3: "xlat_mem ctx' = xlat_mem ctx" by (simp add: ctx'_def)
  have 4: "cnt ctx' t = cnt ctx t + 1" using k dist by (simp add: cnt_def ctx'_def index_of_nth)
  have 5: "cnt ctx' x = cnt ctx x" if "x \<noteq> t" for x
    using that k by (auto simp: cnt_def ctx'_def dest: index_of_Some split: option.split)
  have 2: "alloc_frame S ctx ctx'"
    using free by (auto simp: alloc_frame_def same_fields_def ctx'_def)
  show ?thesis by (rule that [OF 1 2 3 free 4 5])
qed

end
