(* ===== verification/Xlat_Map.thy ===== *)
theory Xlat_Map
  imports Xlat_Pool
begin

text \<open>
  Mapping a region: the loop of \<open>xlat_tables_map_region\<close> never fails an assertion on well-formed tables,
  gives every address of the region that was not mapped its translation, leaves every other address
  as it was, and stops early only when the pool of tables is empty.
\<close>

section \<open>Regions\<close>

abbreviation (input) rbase :: "mmap_region_t \<Rightarrow> nat" where
  "rbase mm \<equiv> unat (base_va mm)"

definition rend :: "mmap_region_t \<Rightarrow> nat" where
  "rend mm = unat (base_va mm) + unat (mm_size mm)"

definition region_ok :: "mmap_region_t \<Rightarrow> bool" where
  "region_ok mm \<longleftrightarrow>
     4096 dvd unat (base_va mm) \<and> 4096 dvd unat (base_pa mm) \<and> 4096 dvd unat (mm_size mm) \<and> 0 < unat (mm_size mm)
     \<and> rend mm \<le> 2 ^ 48 \<and> unat (base_pa mm) + unat (mm_size mm) \<le> 2 ^ 48"

lemma region_end_unat: "region_ok mm \<Longrightarrow> unat (region_end_va mm) = rend mm - 1"
proof -
  assume r: "region_ok mm"
  have "unat (base_va mm + mm_size mm) = rend mm"
    using r unat_bound [of "base_va mm"] by (simp add: unat_word_ariths(1) region_ok_def rend_def)
  moreover have "unat (x - 1) = unat x - 1" if "0 < unat x" for x :: uint64_t
    using that by (simp add: unat_minus_one unat_gt_0)
  ultimately show ?thesis using r by (simp add: region_end_va_def region_ok_def rend_def)
qed

text \<open>What mapping a region up to an address does to the translation of the address \<open>v\<close>.\<close>

definition fill ::
  "mmap_region_t \<Rightarrow> uint64_t \<Rightarrow> nat \<Rightarrow> nat \<Rightarrow> (uint64_t \<times> uint64_t) option \<Rightarrow> (uint64_t \<times> uint64_t) option" where
  "fill mm a lim v x =
     (case x of
        Some y \<Rightarrow> Some y
      | None \<Rightarrow> if rbase mm \<le> v \<and> v < rend mm \<and> v < lim then Some (base_pa mm + of_nat (v - rbase mm), a) else None)"

lemma fill_Some [simp]: "fill mm a lim v (Some y) = Some y"
  by (simp add: fill_def)

lemma fill_beyond: "lim \<le> v \<Longrightarrow> fill mm a lim v x = x"
  by (auto simp: fill_def split: option.splits)

lemma fill_below: "v < lim \<Longrightarrow> v < lim' \<Longrightarrow> fill mm a lim v x = fill mm a lim' v x"
  by (simp add: fill_def split: option.splits)

text \<open>Counting the regions that meet a range of addresses, and the part of a region below a limit.\<close>

definition counting :: "(nat \<Rightarrow> nat \<Rightarrow> int) \<Rightarrow> bool" where
  "counting K \<longleftrightarrow> (\<forall>b s. 0 \<le> K b s \<and> (\<forall>b' s'. b' \<le> b \<and> b + s \<le> b' + s' \<longrightarrow> K b s \<le> K b' s'))"

definition ovl :: "mmap_region_t \<Rightarrow> nat \<Rightarrow> nat \<Rightarrow> nat \<Rightarrow> int" where
  "ovl mm lim b s = (if max b (rbase mm) < min (b + s) (min lim (rend mm)) then 1 else 0)"

lemma counting_ovl: "counting K \<Longrightarrow> counting (\<lambda>b s. K b s + ovl mm lim b s)"
proof -
  assume K: "counting K"
  have o: "0 \<le> ovl mm lim b s" "b' \<le> b \<Longrightarrow> b + s \<le> b' + s' \<Longrightarrow> ovl mm lim b s \<le> ovl mm lim b' s'" for b s b' s'
    by (auto simp: ovl_def)
  show ?thesis using K o unfolding counting_def by (meson add_mono add_nonneg_nonneg)
qed

lemma ovl_beyond: "lim \<le> b \<Longrightarrow> ovl mm lim b s = 0"
  by (simp add: ovl_def)

lemma ovl_limits: "b + s \<le> lim \<Longrightarrow> b + s \<le> lim' \<Longrightarrow> ovl mm lim b s = ovl mm lim' b s"
  by (auto simp: ovl_def)

section \<open>Addresses of entries\<close>

lemma unat_add_block:
  "h \<le> 3 \<Longrightarrow> unat w + bsz h \<le> 2 ^ 48 \<Longrightarrow> unat (w + XLAT_BLOCK_SIZE (3 - h)) = unat w + bsz h"
  by (simp add: unat_word_ariths(1) unat_block_size)

lemma unat_entry_end:
  "h \<le> 3 \<Longrightarrow> unat w + bsz h \<le> 2 ^ 48 \<Longrightarrow> unat (w + XLAT_BLOCK_SIZE (3 - h) - 1) = unat w + bsz h - 1"
proof -
  assume a: "h \<le> 3" "unat w + bsz h \<le> 2 ^ 48"
  have "unat (w + XLAT_BLOCK_SIZE (3 - h)) = unat w + bsz h" using a by (rule unat_add_block)
  moreover have "w + XLAT_BLOCK_SIZE (3 - h) \<noteq> 0" using calculation bsz_pos [of h] by (metis add_is_0 less_irrefl unat_0)
  ultimately show ?thesis by (simp add: unat_minus_one)
qed

lemma entry_pa:
  assumes "region_ok mm" "rbase mm \<le> unat w" "unat w < rend mm"
  shows "unat (base_pa mm + w - base_va mm) = unat (base_pa mm) + (unat w - rbase mm)"
proof -
  have "unat (w - base_va mm) = unat w - rbase mm" using assms(2) by (simp add: unat_sub word_le_nat_alt)
  moreover have "unat (base_pa mm) + (unat w - rbase mm) < 2 ^ 64" using assms by (auto simp: region_ok_def rend_def)
  ultimately have "unat (base_pa mm + (w - base_va mm)) = unat (base_pa mm) + (unat w - rbase mm)"
    by (simp only: unat_word_ariths(1) mod_less len_of_numeral_defs) simp
  then show ?thesis by (simp only: add_diff_eq)
qed

lemma page_aligned_mask: "4096 dvd unat x \<Longrightarrow> unat x < 2 ^ 48 \<Longrightarrow> sub_of x = x"
proof -
  assume a: "4096 dvd unat x" "unat x < 2 ^ 48"
  have low: "take_bit 12 x = 0"
    using a(1) by (simp add: take_bit_eq_mod flip: unat_eq_zero) (simp add: unat_mod)
  have high: "take_bit 48 x = x"
    using a(2) by (simp add: take_bit_eq_mod word_unat_eq_iff unat_mod)
  have "x AND TABLE_ADDR_MASK = x AND (mask 48 AND NOT (mask 12))" by (simp add: mask_numeral)
  also have "\<dots> = take_bit 48 x AND NOT (mask 12)" by (simp add: take_bit_eq_mask ac_simps)
  also have "\<dots> = x AND NOT (mask 12)" using high by simp
  also have "\<dots> = x"
  proof (rule bit_word_eqI)
    fix n
    have "\<not> bit (take_bit 12 x) n" using low by simp
    then show "bit (x AND NOT (mask 12)) n \<longleftrightarrow> bit x n" if "n < LENGTH(64)"
      using that by (auto simp: bit_simps)
  qed
  finally show ?thesis .
qed

section \<open>What an entry and a table must satisfy\<close>

definition table_ok :: "(nat \<Rightarrow> nat \<Rightarrow> bool) \<Rightarrow> xlat_ctx_t \<Rightarrow> nat \<Rightarrow> uint64_t \<Rightarrow> nat \<Rightarrow> nat \<Rightarrow> bool" where
  "table_ok Q ctx h t n base \<longleftrightarrow>
     tok (xlat_mem ctx) h t n \<and> t \<notin> free_tables ctx
     \<and> tsub (xlat_mem ctx) h t n \<subseteq> set (xlat_tables ctx) - free_tables ctx
     \<and> (\<forall>i < n. eleaf Q (xlat_mem ctx) h (xlat_mem ctx t i) (base + i * bsz h))"

text \<open>The entry \<open>idx\<close> of the table \<open>t\<close>, which starts at address \<open>va\<close>, has been mapped up to
  \<open>lim\<close>; \<open>ok\<close> says that the pool had the tables for it.\<close>

definition entry_post ::
  "mmap_region_t \<Rightarrow> uint64_t \<Rightarrow> (nat \<Rightarrow> nat \<Rightarrow> bool) \<Rightarrow> nat \<Rightarrow> uint64_t \<Rightarrow> nat \<Rightarrow> nat \<Rightarrow> nat \<Rightarrow> bool \<Rightarrow> xlat_ctx_t \<Rightarrow> xlat_ctx_t \<Rightarrow> bool" where
  "entry_post mm a Q h t idx va lim ok ctx ctx' \<longleftrightarrow>
     (let m = xlat_mem ctx; m' = xlat_mem ctx'; d = m t idx; d' = m' t idx
      in alloc_frame (insert t (esub m h d)) ctx ctx' \<and> cnt_same (esub m h d) ctx ctx' \<and> (\<forall>i. i \<noteq> idx \<longrightarrow> m' t i = m t i)
         \<and> eok m' h d' \<and> esub m' h d' \<subseteq> esub m h d \<union> (free_tables ctx - free_tables ctx')
         \<and> eleaf Q m' h d' va
         \<and> (\<forall>off < bsz h. etrans m' h d' off = fill mm a lim (va + off) (etrans m h d off))
         \<and> (\<forall>x K. counting K \<longrightarrow> (x \<longrightarrow> ok) \<longrightarrow> ecnt x K (cnt ctx) m h d va \<longrightarrow>
              ecnt x (\<lambda>b s. K b s + ovl mm lim b s) (cnt ctx') m' h d' va))"

text \<open>The table \<open>t\<close>, which starts at address \<open>base\<close>, has been mapped from its entry \<open>idx\<close> up to \<open>lim\<close>.\<close>

definition table_post ::
  "mmap_region_t \<Rightarrow> uint64_t \<Rightarrow> (nat \<Rightarrow> nat \<Rightarrow> bool) \<Rightarrow> nat \<Rightarrow> uint64_t \<Rightarrow> nat \<Rightarrow> nat \<Rightarrow> nat \<Rightarrow> nat \<Rightarrow> bool \<Rightarrow> xlat_ctx_t \<Rightarrow> xlat_ctx_t \<Rightarrow> bool" where
  "table_post mm a Q h t n base idx lim ok ctx ctx' \<longleftrightarrow>
     (let m = xlat_mem ctx; m' = xlat_mem ctx'
      in alloc_frame (insert t (tsub m h t n)) ctx ctx' \<and> cnt_same (tsub m h t n) ctx ctx'
         \<and> table_ok Q ctx' h t n base \<and> tsub m' h t n \<subseteq> tsub m h t n \<union> (free_tables ctx - free_tables ctx')
         \<and> (\<forall>off < n * bsz h. ttrans m' h t n off
              = (if idx * bsz h \<le> off then fill mm a lim (base + off) (ttrans m h t n off) else ttrans m h t n off))
         \<and> (\<forall>x K i. counting K \<longrightarrow> i < n \<longrightarrow> (x \<longrightarrow> ok) \<longrightarrow> ecnt x K (cnt ctx) m h (m t i) (base + i * bsz h) \<longrightarrow>
              ecnt x (\<lambda>b s. K b s + (if idx \<le> i then ovl mm lim b s else 0)) (cnt ctx') m' h (m' t i) (base + i * bsz h)))"

lemma tsub_mem: "i < n \<Longrightarrow> esub m h (m t i) \<subseteq> tsub m h t n"
  by (auto simp: tsub_def)

text \<open>The entries of a table other than the one written keep their meaning.\<close>

lemma other_entry:
  assumes ok: "table_ok Q ctx h t n base" and pool: "pool_ok ctx"
    and post: "entry_post mm a R h t idx va lim good ctx ctx'" and i: "i < n" "idx < n" "i \<noteq> idx"
  shows "xlat_mem ctx' t i = xlat_mem ctx t i"
    and "x \<in> esub (xlat_mem ctx) h (xlat_mem ctx t i) \<Longrightarrow> xlat_mem ctx' x = xlat_mem ctx x"
    and "x \<in> esub (xlat_mem ctx) h (xlat_mem ctx t i) \<Longrightarrow> cnt ctx' x = cnt ctx x"
proof -
  let ?m = "xlat_mem ctx"
  show "xlat_mem ctx' t i = xlat_mem ctx t i" using post i by (simp add: entry_post_def Let_def)
  have apart: "x \<notin> esub ?m h (?m t idx)" "x \<noteq> t" "x \<notin> free_tables ctx" if x: "x \<in> esub ?m h (?m t i)"
  proof -
    show "x \<notin> esub ?m h (?m t idx)" using ok i x by (auto simp: table_ok_def tok_def)
    show "x \<noteq> t" using ok i x by (auto simp: table_ok_def tok_def)
    show "x \<notin> free_tables ctx" using ok x tsub_mem [OF i(1), of ?m h t] by (auto simp: table_ok_def)
  qed
  show "x \<in> esub ?m h (?m t i) \<Longrightarrow> xlat_mem ctx' x = xlat_mem ctx x"
    using post apart by (auto simp: entry_post_def Let_def alloc_frame_def)
  show "x \<in> esub ?m h (?m t i) \<Longrightarrow> cnt ctx' x = cnt ctx x"
    using post apart by (auto simp: entry_post_def Let_def cnt_same_def)
qed

lemma entry_to_table:
  assumes ok: "table_ok Q ctx h t n base" and pool: "pool_ok ctx"
    and post: "entry_post mm a Q h t idx (base + idx * bsz h) lim good ctx ctx'" and idx: "idx < n"
  shows "pool_ok ctx'" "alloc_frame (insert t (tsub (xlat_mem ctx) h t n)) ctx ctx'"
    "table_ok Q ctx' h t n base"
    "tsub (xlat_mem ctx') h t n \<subseteq> tsub (xlat_mem ctx) h t n \<union> (free_tables ctx - free_tables ctx')"
    "\<And>off. off < n * bsz h \<Longrightarrow> ttrans (xlat_mem ctx') h t n off
       = (if off div bsz h = idx then fill mm a lim (base + off) (ttrans (xlat_mem ctx) h t n off)
          else ttrans (xlat_mem ctx) h t n off)"
    "cnt_same (tsub (xlat_mem ctx) h t n) ctx ctx'"
    "\<And>x K i. counting K \<Longrightarrow> i < n \<Longrightarrow> x \<longrightarrow> good \<Longrightarrow> ecnt x K (cnt ctx) (xlat_mem ctx) h (xlat_mem ctx t i) (base + i * bsz h) \<Longrightarrow>
       ecnt x (\<lambda>b s. K b s + (if i = idx then ovl mm lim b s else 0)) (cnt ctx') (xlat_mem ctx') h (xlat_mem ctx' t i) (base + i * bsz h)"
proof -
  let ?m = "xlat_mem ctx" and ?m' = "xlat_mem ctx'"
  have frame: "alloc_frame (insert t (esub ?m h (?m t idx))) ctx ctx'" using post by (simp add: entry_post_def Let_def)
  show fr: "alloc_frame (insert t (tsub ?m h t n)) ctx ctx'"
    by (rule alloc_frame_mono [OF frame]) (use tsub_mem [OF idx, of ?m h t] in auto)
  show "pool_ok ctx'"
    by (rule pool_ok_frame [OF fr pool]) (use ok in \<open>auto simp: table_ok_def\<close>)
  have other: "?m' t i = ?m t i" "esub ?m' h (?m t i) = esub ?m h (?m t i)" "eok ?m' h (?m t i) = eok ?m h (?m t i)"
      "\<And>off. off < bsz h \<Longrightarrow> etrans ?m' h (?m t i) off = etrans ?m h (?m t i) off"
      "\<And>b. eleaf Q ?m' h (?m t i) b = eleaf Q ?m h (?m t i) b"
    if "i < n" "i \<noteq> idx" for i
  proof -
    note oe = other_entry [OF ok pool post that(1) idx that(2)]
    show "?m' t i = ?m t i" by (rule oe)
    show "esub ?m' h (?m t i) = esub ?m h (?m t i)" by (rule esub_frame) (rule oe)
    show "eok ?m' h (?m t i) = eok ?m h (?m t i)" by (rule eok_frame) (rule oe)
    show "etrans ?m' h (?m t i) off = etrans ?m h (?m t i) off" if "off < bsz h" for off
      by (rule etrans_frame [OF _ that]) (rule oe)
    show "eleaf Q ?m' h (?m t i) b = eleaf Q ?m h (?m t i) b" for b by (rule eleaf_frame) (rule oe)
  qed
  have new: "esub ?m' h (?m' t idx) \<subseteq> esub ?m h (?m t idx) \<union> (free_tables ctx - free_tables ctx')"
    using post by (simp add: entry_post_def Let_def)
  show sub: "tsub ?m' h t n \<subseteq> tsub ?m h t n \<union> (free_tables ctx - free_tables ctx')"
  proof
    fix x assume "x \<in> tsub ?m' h t n"
    then obtain i where i: "i < n" "x \<in> esub ?m' h (?m' t i)" by (auto simp: tsub_def)
    show "x \<in> tsub ?m h t n \<union> (free_tables ctx - free_tables ctx')"
      using i new other [of i] tsub_mem [of i n ?m h t] by (cases "i = idx") auto
  qed
  show "ttrans ?m' h t n off = (if off div bsz h = idx then fill mm a lim (base + off) (ttrans ?m h t n off)
      else ttrans ?m h t n off)" if "off < n * bsz h" for off
  proof (cases "off div bsz h = idx")
    case True
    have eq: "base + idx * bsz h + off mod bsz h = base + off"
      using div_mult_mod_eq [of off "bsz h"] True by simp
    have "etrans ?m' h (?m' t idx) (off mod bsz h)
        = fill mm a lim (base + idx * bsz h + off mod bsz h) (etrans ?m h (?m t idx) (off mod bsz h))"
      using post by (simp add: entry_post_def Let_def)
    then show ?thesis using True idx unfolding eq by (simp add: ttrans_def)
  next
    case False
    have "off div bsz h < n" using that by (simp add: less_mult_imp_div_less)
    then show ?thesis using False other [of "off div bsz h"] by (simp add: ttrans_def)
  qed
  have csame: "cnt_same (esub ?m h (?m t idx)) ctx ctx'" using post by (simp add: entry_post_def Let_def)
  show "cnt_same (tsub ?m h t n) ctx ctx'" by (rule cnt_same_mono [OF csame tsub_mem [OF idx]])
  show "ecnt x (\<lambda>b s. K b s + (if i = idx then ovl mm lim b s else 0)) (cnt ctx') ?m' h (?m' t i) (base + i * bsz h)"
    if K: "counting K" "i < n" "x \<longrightarrow> good" "ecnt x K (cnt ctx) ?m h (?m t i) (base + i * bsz h)" for x K i
  proof (cases "i = idx")
    case True
    then show ?thesis using post K by (simp add: entry_post_def Let_def)
  next
    case False
    have "ecnt x K (cnt ctx') ?m' h (?m t i) (base + i * bsz h)"
      by (rule ecnt_frame [OF K(4)]) (use other_entry(2,3) [OF ok pool post K(2) idx False] in blast)
    then show ?thesis using False other(1) [OF K(2) False] by simp
  qed
  have free: "free_tables ctx' \<subseteq> free_tables ctx" and tabs: "xlat_tables ctx' = xlat_tables ctx"
    using frame same_fields_simps(1) by (auto simp: alloc_frame_def)
  have sub_free: "esub ?m h (?m t i) \<inter> free_tables ctx = {}" if "i < n" for i
    using that ok tsub_mem [of i n ?m h t] by (auto simp: table_ok_def)
  have disj: "esub ?m' h (?m' t i) \<inter> esub ?m' h (?m' t idx) = {}" if "i < n" "i \<noteq> idx" for i
  proof -
    have "esub ?m h (?m t i) \<inter> esub ?m h (?m t idx) = {}" using ok that idx by (simp add: table_ok_def tok_def)
    then show ?thesis using new other [OF that] sub_free [OF that(1)] by auto
  qed
  have "tok ?m' h t n"
    unfolding tok_def
  proof (intro conjI allI impI)
    fix i assume i: "i < n"
    show "eok ?m' h (?m' t i)"
      using i other [of i] ok post by (cases "i = idx") (auto simp: table_ok_def tok_def entry_post_def Let_def)
    show "t \<notin> esub ?m' h (?m' t i)"
      using i other [of i] ok new by (cases "i = idx") (auto simp: table_ok_def tok_def)
    fix j assume j: "j < n" "i \<noteq> j"
    show "esub ?m' h (?m' t i) \<inter> esub ?m' h (?m' t j) = {}"
    proof (cases "i = idx \<or> j = idx")
      case True
      then show ?thesis using disj [of i] disj [of j] i j by auto
    next
      case False
      then show ?thesis using i j other [of i] other [of j] ok by (auto simp: table_ok_def tok_def)
    qed
  qed
  moreover have "eleaf Q ?m' h (?m' t i) (base + i * bsz h)" if "i < n" for i
    using that other [of i] ok post by (cases "i = idx") (auto simp: table_ok_def entry_post_def Let_def)
  moreover have "t \<notin> free_tables ctx'" using ok free by (auto simp: table_ok_def)
  moreover have "tsub ?m' h t n \<subseteq> set (xlat_tables ctx') - free_tables ctx'"
  proof
    fix x assume "x \<in> tsub ?m' h t n"
    then have "x \<in> tsub ?m h t n \<union> (free_tables ctx - free_tables ctx')" using sub by blast
    then show "x \<in> set (xlat_tables ctx') - free_tables ctx'"
      using ok free free_tables_subset [of ctx] by (auto simp: table_ok_def tabs)
  qed
  ultimately show "table_ok Q ctx' h t n base" by (simp add: table_ok_def)
qed

section \<open>The loop over the entries of a table\<close>

definition limit_ok :: "mmap_region_t \<Rightarrow> uintptr_t \<Rightarrow> nat \<Rightarrow> nat \<Rightarrow> nat \<Rightarrow> xlat_ctx_t \<Rightarrow> bool" where
  "limit_ok mm r lim start stop ctx \<longleftrightarrow>
     start \<le> lim \<and>
     (lim = min (rend mm) stop \<and> unat r + 1 = lim
      \<or> 4096 dvd lim \<and> lim < min (rend mm) stop \<and> unat r = lim \<and> free_tables ctx = {})"

definition map_pre ::
  "xlat_env \<Rightarrow> mmap_region_t \<Rightarrow> uint64_t \<Rightarrow> (nat \<Rightarrow> nat \<Rightarrow> bool) \<Rightarrow> nat \<Rightarrow> uint64_t \<Rightarrow> nat \<Rightarrow> nat \<Rightarrow> nat \<Rightarrow> uintptr_t \<Rightarrow> xlat_ctx_t \<Rightarrow> bool" where
  "map_pre e mm a Q h t n base idx w ctx \<longleftrightarrow>
     pool_ok ctx \<and> table_ok Q ctx h t n base \<and> bsz h dvd base \<and> idx < n \<and> base + n * bsz h \<le> 2 ^ 48
     \<and> unat w = base + idx * bsz h \<and> unat w < rend mm \<and> rbase mm < unat w + bsz h
     \<and> attr_word e (xlat_regime ctx) (mm_attr mm) = Some a \<and> regime_ok ctx"

definition map_spec :: "xlat_env \<Rightarrow> mmap_region_t \<Rightarrow> uint64_t \<Rightarrow> (nat \<Rightarrow> nat \<Rightarrow> bool) \<Rightarrow> nat \<Rightarrow> bool" where
  "map_spec e mm a Q h \<longleftrightarrow>
     (\<forall>t n base idx w ctx. map_pre e mm a Q h t n base idx w ctx \<longrightarrow>
        (\<exists>r ctx' lim. map_region_loop e mm (3 - h) t n idx w ctx = (Returned r, ctx')
           \<and> table_post mm a Q h t n base idx lim (unat r + 1 = lim) ctx ctx' \<and> limit_ok mm r lim (unat w) (base + n * bsz h) ctx'))"

text \<open>One turn of the loop: the entry is mapped and the loop goes on, or it ends within the entry.\<close>

definition entry_spec :: "xlat_env \<Rightarrow> mmap_region_t \<Rightarrow> uint64_t \<Rightarrow> (nat \<Rightarrow> nat \<Rightarrow> bool) \<Rightarrow> nat \<Rightarrow> bool" where
  "entry_spec e mm a Q h \<longleftrightarrow>
     (\<forall>t n base idx w ctx. map_pre e mm a Q h t n base idx w ctx \<longrightarrow>
        (\<exists>ctx'. entry_post mm a Q h t idx (unat w) (unat w + bsz h) True ctx ctx' \<and> unat w + bsz h \<le> rend mm
           \<and> map_region_loop e mm (3 - h) t n idx w ctx
              = (if region_end_va mm \<le> w + XLAT_BLOCK_SIZE (3 - h)
                 then (Returned (w + XLAT_BLOCK_SIZE (3 - h) - 1), ctx')
                 else map_region_loop e mm (3 - h) t n (Suc idx) (w + XLAT_BLOCK_SIZE (3 - h)) ctx'))
        \<or> (\<exists>r ctx' lim. map_region_loop e mm (3 - h) t n idx w ctx = (Returned r, ctx')
             \<and> entry_post mm a Q h t idx (unat w) lim (unat r + 1 = lim) ctx ctx'
             \<and> limit_ok mm r lim (unat w) (unat w + bsz h) ctx' \<and> lim < unat w + bsz h))"

lemma table_post_entry:
  assumes pre: "map_pre e mm a Q h t n base idx w ctx"
    and post: "entry_post mm a Q h t idx (unat w) lim ok ctx ctx'" and lim: "lim \<le> unat w + bsz h"
  shows "table_post mm a Q h t n base idx lim ok ctx ctx'"
proof -
  have p: "table_ok Q ctx h t n base" "pool_ok ctx" "idx < n" "unat w = base + idx * bsz h"
    using pre by (simp_all add: map_pre_def)
  note et = entry_to_table [OF p(1,2) post [unfolded p(4)] p(3)]
  have "ttrans (xlat_mem ctx') h t n off
      = (if idx * bsz h \<le> off then fill mm a lim (base + off) (ttrans (xlat_mem ctx) h t n off)
         else ttrans (xlat_mem ctx) h t n off)" if "off < n * bsz h" for off
  proof (cases "off div bsz h = idx")
    case True
    then show ?thesis using et(5) [OF that] div_times_less_eq_dividend [of off "bsz h"] by auto
  next
    case False
    have "off < idx * bsz h \<or> Suc idx * bsz h \<le> off"
      using False by (metis bsz_pos div_less_iff_less_mult leI less_Suc_eq_le mult.commute nat_less_le)
    then show ?thesis using et(5) [OF that] False lim p(4) by (auto simp: fill_beyond)
  qed
  moreover have "ecnt x (\<lambda>b s. K b s + (if idx \<le> i then ovl mm lim b s else 0)) (cnt ctx') (xlat_mem ctx') h
      (xlat_mem ctx' t i) (base + i * bsz h)"
    if K: "counting K" "i < n" "x \<longrightarrow> ok" "ecnt x K (cnt ctx) (xlat_mem ctx) h (xlat_mem ctx t i) (base + i * bsz h)" for x K i
  proof (rule ecnt_cong [OF et(7) [OF K]])
    fix b s assume b: "base + i * bsz h \<le> b"
    have "ovl mm lim b s = 0" if "idx < i"
    proof -
      have "Suc idx * bsz h \<le> i * bsz h" using that by (intro mult_le_mono1) simp
      then show ?thesis using b lim p(4) by (intro ovl_beyond) simp
    qed
    then show "K b s + (if idx \<le> i then ovl mm lim b s else 0) = K b s + (if i = idx then ovl mm lim b s else 0)"
      by auto
  qed
  ultimately show ?thesis using et by (simp add: table_post_def Let_def)
qed

lemma table_post_trans:
  assumes one: "table_post mm a Q h t n base idx (base + Suc idx * bsz h) True ctx ctx1"
    and two: "table_post mm a Q h t n base (Suc idx) lim ok ctx1 ctx2" and lim: "base + Suc idx * bsz h \<le> lim"
  shows "table_post mm a Q h t n base idx lim ok ctx ctx2"
proof -
  let ?m = "xlat_mem ctx" and ?m1 = "xlat_mem ctx1" and ?m2 = "xlat_mem ctx2"
  have s1: "tsub ?m1 h t n \<subseteq> tsub ?m h t n \<union> (free_tables ctx - free_tables ctx1)"
    and s2: "tsub ?m2 h t n \<subseteq> tsub ?m1 h t n \<union> (free_tables ctx1 - free_tables ctx2)"
    and f1: "alloc_frame (insert t (tsub ?m h t n)) ctx ctx1"
    and f2: "alloc_frame (insert t (tsub ?m1 h t n)) ctx1 ctx2"
    using one two by (simp_all add: table_post_def Let_def)
  have f: "free_tables ctx1 \<subseteq> free_tables ctx" "free_tables ctx2 \<subseteq> free_tables ctx1"
    using f1 f2 by (simp_all add: alloc_frame_def)
  have "alloc_frame (insert t (tsub ?m h t n)) ctx ctx2"
    by (rule alloc_frame_trans [OF f1 f2]) (use s1 in auto)
  moreover have "tsub ?m2 h t n \<subseteq> tsub ?m h t n \<union> (free_tables ctx - free_tables ctx2)"
    using s1 s2 f by blast
  moreover have "ttrans ?m2 h t n off
      = (if idx * bsz h \<le> off then fill mm a lim (base + off) (ttrans ?m h t n off) else ttrans ?m h t n off)"
    if off: "off < n * bsz h" for off
  proof -
    have t1: "ttrans ?m1 h t n off = (if idx * bsz h \<le> off
        then fill mm a (base + Suc idx * bsz h) (base + off) (ttrans ?m h t n off) else ttrans ?m h t n off)"
      using one off by (simp add: table_post_def Let_def)
    have t2: "ttrans ?m2 h t n off = (if Suc idx * bsz h \<le> off
        then fill mm a lim (base + off) (ttrans ?m1 h t n off) else ttrans ?m1 h t n off)"
      using two off by (simp add: table_post_def Let_def)
    show ?thesis
    proof (cases "Suc idx * bsz h \<le> off")
      case True
      then have "ttrans ?m1 h t n off = ttrans ?m h t n off" using t1 by (simp add: fill_beyond)
      then show ?thesis using t2 True by simp
    next
      case False
      then have "fill mm a (base + Suc idx * bsz h) (base + off) x = fill mm a lim (base + off) x" for x
        using lim by (intro fill_below) auto
      then show ?thesis using t1 t2 False by simp
    qed
  qed
  moreover have "cnt_same (tsub ?m h t n) ctx ctx2"
  proof (rule cnt_same_trans [OF _ _ f order.refl])
    show "cnt_same (tsub ?m h t n) ctx ctx1" using one by (simp add: table_post_def Let_def)
    show "cnt_same (tsub ?m1 h t n) ctx1 ctx2" using two by (simp add: table_post_def Let_def)
  qed (rule s1)
  moreover have "ecnt x (\<lambda>b s. K b s + (if idx \<le> i then ovl mm lim b s else 0)) (cnt ctx2) ?m2 h (?m2 t i) (base + i * bsz h)"
    if K: "counting K" "i < n" "x \<longrightarrow> ok" "ecnt x K (cnt ctx) ?m h (?m t i) (base + i * bsz h)" for x K i
  proof -
    let ?K1 = "\<lambda>b s. K b s + (if idx \<le> i then ovl mm (base + Suc idx * bsz h) b s else 0)"
    have 1: "ecnt x ?K1 (cnt ctx1) ?m1 h (?m1 t i) (base + i * bsz h)"
      using one K unfolding table_post_def Let_def by blast
    have "counting ?K1" by (cases "idx \<le> i") (simp_all add: K(1) counting_ovl [OF K(1)] del: mult_Suc)
    then have "ecnt x (\<lambda>b s. ?K1 b s + (if Suc idx \<le> i then ovl mm lim b s else 0)) (cnt ctx2) ?m2 h (?m2 t i) (base + i * bsz h)"
      using two K(2,3) 1 unfolding table_post_def Let_def by blast
    then show ?thesis
    proof (rule ecnt_cong)
      fix b s assume b: "base + i * bsz h \<le> b" "b + s \<le> base + i * bsz h + bsz h"
      have "ovl mm (base + Suc idx * bsz h) b s = 0" if "idx < i"
        using b mult_le_mono1 [of "Suc idx" i "bsz h"] that by (intro ovl_beyond) simp
      moreover have "ovl mm (base + Suc idx * bsz h) b s = ovl mm lim b s" if "i = idx"
        using b lim that by (intro ovl_limits) auto
      ultimately show "K b s + (if idx \<le> i then ovl mm lim b s else 0)
          = ?K1 b s + (if Suc idx \<le> i then ovl mm lim b s else 0)"
        by (cases "i = idx") auto
    qed
  qed
  ultimately show ?thesis using two by (simp add: table_post_def Let_def)
qed

lemma loop_from_entry:
  assumes mm: "region_ok mm" and h: "h \<le> 3" and entry: "entry_spec e mm a Q h"
  shows "map_spec e mm a Q h"
  unfolding map_spec_def
proof (intro allI impI)
  fix t n base idx w ctx
  assume "map_pre e mm a Q h t n base idx w ctx"
  then show "\<exists>r ctx' lim. map_region_loop e mm (3 - h) t n idx w ctx = (Returned r, ctx')
      \<and> table_post mm a Q h t n base idx lim (unat r + 1 = lim) ctx ctx' \<and> limit_ok mm r lim (unat w) (base + n * bsz h) ctx'"
  proof (induction "n - idx" arbitrary: idx w ctx rule: less_induct)
    case less
    note pre = less.prems
    have w: "unat w = base + idx * bsz h" "idx < n" "unat w < rend mm" "base + n * bsz h \<le> 2 ^ 48" "bsz h dvd base"
      using pre by (simp_all add: map_pre_def)
    have top: "unat w + bsz h \<le> base + n * bsz h"
      using w mult_le_mono1 [of "Suc idx" n "bsz h"] by simp
    consider (more) ctx1 where "entry_post mm a Q h t idx (unat w) (unat w + bsz h) True ctx ctx1" "unat w + bsz h \<le> rend mm"
        "map_region_loop e mm (3 - h) t n idx w ctx
          = (if region_end_va mm \<le> w + XLAT_BLOCK_SIZE (3 - h)
             then (Returned (w + XLAT_BLOCK_SIZE (3 - h) - 1), ctx1)
             else map_region_loop e mm (3 - h) t n (Suc idx) (w + XLAT_BLOCK_SIZE (3 - h)) ctx1)"
      | (stop) r ctx1 lim where "map_region_loop e mm (3 - h) t n idx w ctx = (Returned r, ctx1)"
        "entry_post mm a Q h t idx (unat w) lim (unat r + 1 = lim) ctx ctx1"
        "limit_ok mm r lim (unat w) (unat w + bsz h) ctx1" "lim < unat w + bsz h"
      using entry pre unfolding entry_spec_def by blast
    then show ?case
    proof cases
      case more
      note tp = table_post_entry [OF pre more(1) order.refl]
      have next_va: "unat (w + XLAT_BLOCK_SIZE (3 - h)) = unat w + bsz h"
        using top w h by (intro unat_add_block) auto
      have last: "unat (w + XLAT_BLOCK_SIZE (3 - h) - 1) = unat w + bsz h - 1"
        using top w h by (intro unat_entry_end) auto
      have stop_iff: "region_end_va mm \<le> w + XLAT_BLOCK_SIZE (3 - h) \<longleftrightarrow> rend mm = unat w + bsz h"
      proof -
        have "4096 dvd rend mm" using mm by (simp add: region_ok_def rend_def)
        moreover have "4096 dvd unat w + bsz h"
          using w dvd_trans [OF bsz_page [of h]] bsz_page [of h] by (simp add: dvd_mult)
        ultimately have "rend mm \<le> unat w + bsz h + 1 \<longleftrightarrow> rend mm = unat w + bsz h"
          using more(2) by (elim dvdE) auto
        then show ?thesis by (auto simp: word_le_nat_alt region_end_unat [OF mm] next_va)
      qed
      show ?thesis
      proof (cases "rend mm = unat w + bsz h \<or> Suc idx = n")
        case True
        then have "map_region_loop e mm (3 - h) t n idx w ctx = (Returned (w + XLAT_BLOCK_SIZE (3 - h) - 1), ctx1)"
          using more(3) stop_iff map_region_loop.simps [of e mm "3 - h" t n n] by auto
        moreover have "limit_ok mm (w + XLAT_BLOCK_SIZE (3 - h) - 1) (unat w + bsz h) (unat w) (base + n * bsz h) ctx1"
          using True top more(2) last w(1) by (auto simp: limit_ok_def)
        moreover have one: "unat (w + XLAT_BLOCK_SIZE (3 - h) - 1) + 1 = unat w + bsz h"
          unfolding last using bsz_pos [of h] by linarith
        have "table_post mm a Q h t n base idx (unat w + bsz h)
            (unat (w + XLAT_BLOCK_SIZE (3 - h) - 1) + 1 = unat w + bsz h) ctx ctx1"
          using tp by (simp only: one simp_thms)
        ultimately show ?thesis by blast
      next
        case False
        have p: "table_ok Q ctx h t n base" "pool_ok ctx" "idx < n"
          using pre by (simp_all add: map_pre_def)
        note et = entry_to_table [OF p(1,2) more(1) [unfolded w(1)] p(3)]
        have "same_fields ctx ctx1" using et(2) by (simp add: alloc_frame_def)
        then have "map_pre e mm a Q h t n base (Suc idx) (w + XLAT_BLOCK_SIZE (3 - h)) ctx1"
          using pre et False more(2) w by (auto simp: map_pre_def next_va same_fields_simps)
        then obtain r ctx' lim where r: "map_region_loop e mm (3 - h) t n (Suc idx) (w + XLAT_BLOCK_SIZE (3 - h)) ctx1 = (Returned r, ctx')"
            "table_post mm a Q h t n base (Suc idx) lim (unat r + 1 = lim) ctx1 ctx'"
            "limit_ok mm r lim (unat (w + XLAT_BLOCK_SIZE (3 - h))) (base + n * bsz h) ctx'"
          using less.hyps [of "Suc idx"] w(2) by (metis diff_less_mono2 lessI)
        have "table_post mm a Q h t n base idx (base + Suc idx * bsz h) True ctx ctx1"
          using tp w(1) by (simp add: add.assoc add.commute [of "bsz h"])
        moreover have "base + Suc idx * bsz h \<le> lim" using r(3) w(1) by (simp add: limit_ok_def next_va)
        ultimately have "table_post mm a Q h t n base idx lim (unat r + 1 = lim) ctx ctx'" using r(2) by (blast intro: table_post_trans)
        moreover have "limit_ok mm r lim (unat w) (base + n * bsz h) ctx'" using r(3) by (auto simp: limit_ok_def next_va)
        moreover have "map_region_loop e mm (3 - h) t n idx w ctx = (Returned r, ctx')"
          using more(3) stop_iff False r(1) by simp
        ultimately show ?thesis by blast
      qed
    next
      case stop
      have "table_post mm a Q h t n base idx lim (unat r + 1 = lim) ctx ctx1" using table_post_entry [OF pre stop(2)] stop(4) by simp
      moreover have "limit_ok mm r lim (unat w) (base + n * bsz h) ctx1"
        using stop(3,4) top by (auto simp: limit_ok_def)
      ultimately show ?thesis using stop(1) by blast
    qed
  qed
qed

end
