(* ===== verification/Xlat_Entry.thy ===== *)
theory Xlat_Entry
  imports Xlat_Map
begin

text \<open>
  One turn of the mapping loop: the action chosen for an entry, the effect of writing a block or page,
  of taking a new table and of going into a table that is there.
\<close>

section \<open>One turn, by action\<close>

definition map_continue ::
  "xlat_env \<Rightarrow> mmap_region_t \<Rightarrow> nat \<Rightarrow> uint64_t \<Rightarrow> nat \<Rightarrow> nat \<Rightarrow> uintptr_t \<Rightarrow> xlat_ctx_t \<Rightarrow> uintptr_t outcome \<times> xlat_ctx_t" where
  "map_continue e mm h t n idx w ctx =
     (if region_end_va mm \<le> w + XLAT_BLOCK_SIZE (3 - h) then (Returned (w + XLAT_BLOCK_SIZE (3 - h) - 1), ctx)
      else map_region_loop e mm (3 - h) t n (Suc idx) (w + XLAT_BLOCK_SIZE (3 - h)) ctx)"

abbreviation (input) entry_action :: "mmap_region_t \<Rightarrow> nat \<Rightarrow> uint64_t \<Rightarrow> nat \<Rightarrow> uintptr_t \<Rightarrow> xlat_ctx_t \<Rightarrow> action_t outcome" where
  "entry_action mm h t idx w ctx \<equiv>
     xlat_tables_map_region_action mm (xlat_mem ctx t idx AND DESC_MASK) (base_pa mm + w - base_va mm) w (3 - h)"

lemma turn_none:
  "idx < n \<Longrightarrow> entry_action mm h t idx w ctx = Returned ACTION_NONE \<Longrightarrow>
     map_region_loop e mm (3 - h) t n idx w ctx = map_continue e mm h t n idx w ctx"
  by (subst map_region_loop.simps) (simp add: map_continue_def)

lemma turn_write:
  "idx < n \<Longrightarrow> entry_action mm h t idx w ctx = Returned ACTION_WRITE_BLOCK_ENTRY \<Longrightarrow>
     xlat_desc e ctx (mm_attr mm) (base_pa mm + w - base_va mm) (3 - h) = Returned d \<Longrightarrow>
     map_region_loop e mm (3 - h) t n idx w ctx = map_continue e mm h t n idx w (write_entry t idx d ctx)"
  by (subst map_region_loop.simps) (simp add: map_continue_def)

lemma turn_no_table:
  "idx < n \<Longrightarrow> entry_action mm h t idx w ctx = Returned ACTION_CREATE_NEW_TABLE \<Longrightarrow> xlat_table_get_empty ctx = None \<Longrightarrow>
     map_region_loop e mm (3 - h) t n idx w ctx = (Returned w, ctx)"
  by (subst map_region_loop.simps) simp

text \<open>The context and the table in which a turn that goes down one level continues.\<close>

definition turn_down :: "mmap_region_t \<Rightarrow> nat \<Rightarrow> uint64_t \<Rightarrow> nat \<Rightarrow> uintptr_t \<Rightarrow> xlat_ctx_t \<Rightarrow> uint64_t \<Rightarrow> xlat_ctx_t \<Rightarrow> bool" where
  "turn_down mm h t idx w ctx s ctx2 \<longleftrightarrow>
     entry_action mm h t idx w ctx = Returned ACTION_CREATE_NEW_TABLE \<and> xlat_table_get_empty ctx = Some s
       \<and> xlat_table_inc_regions_count s (write_entry t idx (TABLE_DESC OR s) ctx) = Some ctx2
     \<or> entry_action mm h t idx w ctx = Returned ACTION_RECURSE_INTO_TABLE \<and> s = sub_of (xlat_mem ctx t idx)
       \<and> xlat_table_inc_regions_count s ctx = Some ctx2"

lemma turn_sub:
  assumes "idx < n" "turn_down mm (Suc h) t idx w ctx s ctx2" "h < 3" "map_subtable_start mm w (3 - h) = (i, v)"
    "map_region_loop e mm (3 - h) s 512 i v ctx2 = (r, ctx3)"
  shows "map_region_loop e mm (3 - Suc h) t n idx w ctx
    = (if r = Returned (w + XLAT_BLOCK_SIZE (3 - Suc h) - 1) then map_continue e mm (Suc h) t n idx w ctx3 else (r, ctx3))"
proof -
  have level: "3 - Suc h < 3" "Suc (3 - Suc h) = 3 - h" using assms(3) by simp_all
  show ?thesis
    using assms level unfolding turn_down_def
    by (subst map_region_loop.simps) (elim disjE conjE; simp add: map_continue_def)
qed

section \<open>The action\<close>

lemma entry_covered:
  assumes "region_ok mm" "h \<le> 3" "unat w + bsz h \<le> 2 ^ 48"
  shows "base_va mm \<le> w \<and> region_end_va mm \<ge> w + XLAT_BLOCK_SIZE (3 - h) - 1
    \<longleftrightarrow> rbase mm \<le> unat w \<and> unat w + bsz h \<le> rend mm"
proof -
  have "0 < rend mm" using assms(1) by (simp add: region_ok_def rend_def)
  then show ?thesis
    using region_end_unat [OF assms(1)] unat_entry_end [OF assms(2,3)] bsz_pos [of h]
    by (auto simp: word_le_nat_alt)
qed

lemma entry_touched:
  assumes "region_ok mm" "h \<le> 3" "unat w + bsz h \<le> 2 ^ 48" "rbase mm < unat w + bsz h"
  shows "base_va mm \<le> w + XLAT_BLOCK_SIZE (3 - h) - 1"
  using assms unat_entry_end [OF assms(2,3)] by (simp add: word_le_nat_alt)

lemma action_full:
  assumes "region_ok mm" "h \<le> 3" "unat w + bsz h \<le> 2 ^ 48" "rbase mm \<le> unat w" "unat w + bsz h \<le> rend mm"
  shows "h = 0 \<Longrightarrow> xlat_tables_map_region_action mm PAGE_DESC pa w (3 - h) = Returned ACTION_NONE"
    "h = 0 \<Longrightarrow> xlat_tables_map_region_action mm INVALID_DESC pa w (3 - h) = Returned ACTION_WRITE_BLOCK_ENTRY"
    "0 < h \<Longrightarrow> xlat_tables_map_region_action mm TABLE_DESC pa w (3 - h) = Returned ACTION_RECURSE_INTO_TABLE"
    "0 < h \<Longrightarrow> xlat_tables_map_region_action mm BLOCK_DESC pa w (3 - h) = Returned ACTION_NONE"
    "0 < h \<Longrightarrow> xlat_tables_map_region_action mm INVALID_DESC pa w (3 - h) =
       Returned (if bsz h dvd unat pa \<and> h < 3 \<and> XLAT_BLOCK_SIZE (3 - h) \<le> granularity mm
                 then ACTION_WRITE_BLOCK_ENTRY else ACTION_CREATE_NEW_TABLE)"
proof -
  have cov: "base_va mm \<le> w \<and> region_end_va mm \<ge> w + XLAT_BLOCK_SIZE (3 - h) - 1"
    using entry_covered [OF assms(1-3)] assms(4,5) by simp
  have zero: "3 - h = 3 \<longleftrightarrow> h = 0" and low: "3 - h < 1 \<longleftrightarrow> \<not> h < 3" using assms(2) by auto
  show "h = 0 \<Longrightarrow> xlat_tables_map_region_action mm PAGE_DESC pa w (3 - h) = Returned ACTION_NONE"
    "h = 0 \<Longrightarrow> xlat_tables_map_region_action mm INVALID_DESC pa w (3 - h) = Returned ACTION_WRITE_BLOCK_ENTRY"
    "0 < h \<Longrightarrow> xlat_tables_map_region_action mm TABLE_DESC pa w (3 - h) = Returned ACTION_RECURSE_INTO_TABLE"
    "0 < h \<Longrightarrow> xlat_tables_map_region_action mm BLOCK_DESC pa w (3 - h) = Returned ACTION_NONE"
    using cov zero by (simp_all add: xlat_tables_map_region_action_def)
  show "0 < h \<Longrightarrow> xlat_tables_map_region_action mm INVALID_DESC pa w (3 - h) =
       Returned (if bsz h dvd unat pa \<and> h < 3 \<and> XLAT_BLOCK_SIZE (3 - h) \<le> granularity mm
                 then ACTION_WRITE_BLOCK_ENTRY else ACTION_CREATE_NEW_TABLE)"
    using cov zero low and_block_mask [OF assms(2), of pa]
    by (simp add: xlat_tables_map_region_action_def Let_def not_le flip: not_less)
qed

lemma action_partial:
  assumes "region_ok mm" "0 < h" "h \<le> 3" "unat w + bsz h \<le> 2 ^ 48" "rbase mm < unat w + bsz h"
    "\<not> (rbase mm \<le> unat w \<and> unat w + bsz h \<le> rend mm)"
  shows "xlat_tables_map_region_action mm INVALID_DESC pa w (3 - h) = Returned ACTION_CREATE_NEW_TABLE"
    "xlat_tables_map_region_action mm TABLE_DESC pa w (3 - h) = Returned ACTION_RECURSE_INTO_TABLE"
proof -
  have "\<not> (base_va mm \<le> w \<and> region_end_va mm \<ge> w + XLAT_BLOCK_SIZE (3 - h) - 1)"
    using entry_covered [OF assms(1,3,4)] assms(6) by simp
  moreover have "base_va mm \<le> w + XLAT_BLOCK_SIZE (3 - h) - 1" using assms by (intro entry_touched)
  moreover have "3 - h < 3" using assms by simp
  ultimately show "xlat_tables_map_region_action mm INVALID_DESC pa w (3 - h) = Returned ACTION_CREATE_NEW_TABLE"
    "xlat_tables_map_region_action mm TABLE_DESC pa w (3 - h) = Returned ACTION_RECURSE_INTO_TABLE"
    by (simp_all add: xlat_tables_map_region_action_def Let_def)
qed

section \<open>Leaf entries\<close>

definition leaf :: "nat \<Rightarrow> uint64_t \<Rightarrow> bool" where
  "leaf h d \<longleftrightarrow> d AND DESC_MASK = (if h = 0 then PAGE_DESC else BLOCK_DESC)"

lemma etrans_leaf: "leaf h d \<Longrightarrow> etrans m h d off = Some (sub_of d + of_nat off, attr_bits d)"
  by (cases h) (simp_all add: leaf_def)

lemma esub_leaf: "leaf h d \<Longrightarrow> esub m h d = {} \<and> eok m h d"
  by (cases h) (simp_all add: leaf_def)

lemma eleaf_leaf: "leaf h d \<Longrightarrow> h < 3 \<Longrightarrow> eleaf Q m h d base \<longleftrightarrow> Q base (bsz h)"
  by (cases h) (auto simp: leaf_def)

lemma ecnt_of_leaf: "leaf h d \<Longrightarrow> ecnt x K k m h d base"
  by (simp add: leaf_def)

lemma entry_post_leaf:
  assumes "leaf h (xlat_mem ctx t idx)" "eleaf Q (xlat_mem ctx) h (xlat_mem ctx t idx) va"
  shows "entry_post mm a Q h t idx va lim ok ctx ctx"
  using assms by (simp add: entry_post_def Let_def alloc_frame_refl etrans_leaf esub_leaf ecnt_of_leaf)

lemma entry_post_write:
  assumes mm: "region_ok mm" and h: "h < 3" and "xlat_mem ctx t idx AND DESC_MASK = INVALID_DESC"
    and cov: "rbase mm \<le> unat w" "unat w + bsz h \<le> rend mm" and Q: "Q (unat w) (bsz h)"
    and desc: "xlat_desc e ctx (mm_attr mm) (base_pa mm + w - base_va mm) (3 - h) = Returned d"
    and a: "attr_word e (xlat_regime ctx) (mm_attr mm) = Some a"
    and w: "4096 dvd unat w"
  shows "entry_post mm a Q h t idx (unat w) (unat w + bsz h) ok ctx (write_entry t idx d ctx)"
proof -
  have lt: "unat w < rend mm" by (rule less_le_trans [OF _ cov(2)]) simp
  have pa: "unat (base_pa mm + w - base_va mm) = unat (base_pa mm) + (unat w - rbase mm)"
    by (rule entry_pa [OF mm cov(1) lt])
  have "sub_of (base_pa mm + w - base_va mm) = base_pa mm + w - base_va mm"
    by (rule page_aligned_mask) (use mm w cov(1) lt pa in \<open>auto simp: region_ok_def rend_def\<close>)
  note d = mapped_desc [OF desc this]
  have lf: "leaf h d" using d(1) h by (simp add: leaf_def split: if_splits)
  have "base_pa mm + w - base_va mm + of_nat off = base_pa mm + of_nat (unat w + off - rbase mm)" for off
    using cov(1) by (simp add: of_nat_diff algebra_simps)
  then have "etrans m h d off = fill mm a (unat w + bsz h) (unat w + off) None" if "off < bsz h" for m off
    using lf d a that cov by (simp add: etrans_leaf fill_def)
  then show ?thesis
    using assms(3) lf esub_leaf [OF lf] eleaf_leaf [OF lf h] Q
    by (auto simp: entry_post_def Let_def write_entry_frame cnt_same_def) (simp_all add: write_entry_def ecnt_of_leaf)
qed

section \<open>Going down one level\<close>

lemma entry_from_sub:
  fixes ctx :: xlat_ctx_t and h t idx :: _
  defines "m \<equiv> xlat_mem ctx" defines "S \<equiv> esub m (Suc h) (m t idx)"
  assumes fr: "alloc_frame (insert t S) ctx ctx2"
    and d: "xlat_mem ctx2 t idx AND DESC_MASK = TABLE_DESC" "sub_of (xlat_mem ctx2 t idx) = s"
    and other: "\<forall>i. i \<noteq> idx \<longrightarrow> xlat_mem ctx2 t i = m t i"
    and sub: "insert s (tsub (xlat_mem ctx2) h s 512) \<subseteq> S \<union> (free_tables ctx - free_tables ctx2)"
    and t: "t \<notin> insert s (tsub (xlat_mem ctx2) h s 512) \<union> free_tables ctx2"
    and old: "\<And>off. off < bsz (Suc h) \<Longrightarrow> ttrans (xlat_mem ctx2) h s 512 off = etrans m (Suc h) (m t idx) off"
    and s: "s \<notin> tsub (xlat_mem ctx2) h s 512 \<union> free_tables ctx2" and same: "cnt_same S ctx ctx2"
    and counts: "\<And>x K. counting K \<Longrightarrow> ecnt x K (cnt ctx) m (Suc h) (m t idx) va \<Longrightarrow>
       K va (bsz (Suc h)) < cnt ctx2 s \<and> (x \<longrightarrow> K va (bsz (Suc h)) + 1 = cnt ctx2 s)
       \<and> (\<forall>i < 512. ecnt x K (cnt ctx2) (xlat_mem ctx2) h (xlat_mem ctx2 s i) (va + i * bsz h))"
    and met: "ok \<Longrightarrow> ovl mm lim va (bsz (Suc h)) = 1"
    and post: "table_post mm a Q h s 512 va 0 lim ok ctx2 ctx3"
  shows "entry_post mm a Q (Suc h) t idx va lim ok ctx ctx3"
proof -
  let ?m2 = "xlat_mem ctx2" and ?m3 = "xlat_mem ctx3"
  have fr3: "alloc_frame (insert s (tsub ?m2 h s 512)) ctx2 ctx3" and ok3: "table_ok Q ctx3 h s 512 va"
    and sub3: "tsub ?m3 h s 512 \<subseteq> tsub ?m2 h s 512 \<union> (free_tables ctx2 - free_tables ctx3)"
    and tr3: "\<And>off. off < 512 * bsz h \<Longrightarrow> ttrans ?m3 h s 512 off = fill mm a lim (va + off) (ttrans ?m2 h s 512 off)"
    using post by (simp_all add: table_post_def Let_def)
  have f: "free_tables ctx2 \<subseteq> free_tables ctx" "free_tables ctx3 \<subseteq> free_tables ctx2"
    using fr fr3 by (simp_all add: alloc_frame_def)
  have t3: "?m3 t = ?m2 t" using fr3 t by (auto simp: alloc_frame_def)
  have "alloc_frame (insert t S) ctx ctx3"
    by (rule alloc_frame_trans [OF fr fr3]) (use sub in auto)
  moreover have "eok ?m3 (Suc h) (?m3 t idx)" using ok3 d t3 by (simp add: eok_Suc table_ok_def del: eok.simps)
  moreover have "esub ?m3 (Suc h) (?m3 t idx) = insert s (tsub ?m3 h s 512)" using d t3 by (simp only: esub_Suc refl if_True)
  then have "esub ?m3 (Suc h) (?m3 t idx) \<subseteq> S \<union> (free_tables ctx - free_tables ctx3)" using sub sub3 f by auto
  moreover have "eleaf Q ?m3 (Suc h) (?m3 t idx) va" using ok3 d t3 by (simp add: table_ok_def)
  moreover have "etrans ?m3 (Suc h) (?m3 t idx) off = fill mm a lim (va + off) (etrans m (Suc h) (m t idx) off)"
    if "off < bsz (Suc h)" for off
    using that d t3 old [OF that] tr3 [of off] by (simp only: etrans_table bsz_Suc)
  moreover have same3: "cnt_same (tsub ?m2 h s 512) ctx2 ctx3" using post by (simp add: table_post_def Let_def)
  have "cnt_same S ctx ctx3" by (rule cnt_same_trans [OF same same3 f order.refl]) (use sub in auto)
  moreover have "ecnt x (\<lambda>b s. K b s + ovl mm lim b s) (cnt ctx3) ?m3 (Suc h) (?m3 t idx) va"
    if K: "counting K" "x \<longrightarrow> ok" "ecnt x K (cnt ctx) m (Suc h) (m t idx) va" for x K
  proof -
    note c = counts [OF K(1,3)]
    have "ovl mm lim va (bsz (Suc h)) \<le> 1" by (simp add: ovl_def)
    moreover have "cnt ctx3 s = cnt ctx2 s" using same3 s by (auto simp: cnt_same_def)
    ultimately have "K va (bsz (Suc h)) + ovl mm lim va (bsz (Suc h)) \<le> cnt ctx3 s"
        "x \<longrightarrow> K va (bsz (Suc h)) + ovl mm lim va (bsz (Suc h)) = cnt ctx3 s"
      using c K(2) met by auto
    moreover have "ecnt x (\<lambda>b s. K b s + ovl mm lim b s) (cnt ctx3) ?m3 h (?m3 s i) (va + i * bsz h)" if "i < 512" for i
      using post c that K(1,2) by (simp add: table_post_def Let_def)
    ultimately show ?thesis using d t3 by simp
  qed
  ultimately show ?thesis
    using other t3 by (simp add: entry_post_def Let_def m_def S_def del: esub.simps eok.simps etrans.simps eleaf.simps ecnt.simps)
qed

text \<open>The first address and entry of the region in a table.\<close>

lemma subtable_start:
  assumes h: "h \<le> 3" and w: "bsz h dvd unat w" and top: "unat w + n * bsz h \<le> 2 ^ 48" "n \<le> 512" "0 < n"
    and ov: "unat w < rend mm" "rbase mm < unat w + n * bsz h" "region_ok mm"
  obtains i v where "map_subtable_start mm w (3 - h) = (i, v)" "i < n" "unat v = unat w + i * bsz h" "unat v < rend mm"
    "rbase mm < unat v + bsz h" "\<And>x. x < unat w + i * bsz h \<Longrightarrow> i = 0 \<or> x < rbase mm"
proof (cases "base_va mm > w")
  case False
  then have "map_subtable_start mm w (3 - h) = (0, w)"
    by (simp add: map_subtable_start_def xlat_tables_find_start_va_def xlat_tables_va_to_index_def)
  moreover have "rbase mm \<le> unat w" using False by (simp add: word_le_nat_alt not_less)
  then have "rbase mm < unat w + bsz h" by (rule le_less_trans) simp
  ultimately show ?thesis using top ov by (intro that) auto
next
  case True
  then have gt: "unat w < rbase mm" by (simp add: word_less_nat_alt)
  define v where "v = base_va mm AND NOT (XLAT_BLOCK_MASK (3 - h))"
  define i where "i = (rbase mm - unat w) div bsz h"
  obtain q where q: "unat w = bsz h * q" using w by (rule dvdE)
  have v: "unat v = unat w + i * bsz h"
  proof -
    have "(bsz h * q + (rbase mm - unat w)) div bsz h = q + i" by (simp add: i_def)
    moreover have "bsz h * q + (rbase mm - unat w) = rbase mm" using gt q by simp
    ultimately have "rbase mm div bsz h = q + i" by simp
    then show ?thesis using unat_clear_block [OF h, of "base_va mm"] q by (simp add: v_def minus_mod_eq_div_mult algebra_simps)
  qed
  have i: "i < n" using ov(2) gt by (simp add: i_def less_mult_imp_div_less)
  have idx: "xlat_tables_va_to_index w v (3 - h) = i"
  proof -
    have "unat (v - w) = i * bsz h" using v by (simp add: unat_sub word_le_nat_alt)
    then have "unat (drop_bit (XLAT_ADDR_SHIFT (3 - h)) (v - w)) = i"
      by (simp only: unsigned_drop_bit_eq) (use h unat_bound [of "v - w"] in \<open>simp add: take_bit_nat_eq_self drop_bit_eq_div shift_height bsz_def\<close>)
    then show ?thesis using i top(2) by (simp add: xlat_tables_va_to_index_def unsigned_ucast_eq take_bit_nat_eq_self)
  qed
  have "i * bsz h \<le> rbase mm - unat w" by (simp add: i_def)
  moreover have "rbase mm - unat w < i * bsz h + bsz h"
    using dividend_less_div_times [OF bsz_pos, of "rbase mm - unat w" h] by (simp add: i_def add.commute)
  ultimately have le: "unat v \<le> rbase mm" "rbase mm < unat v + bsz h" using v gt by linarith+
  have "rbase mm < rend mm" using ov(3) by (simp add: region_ok_def rend_def)
  then show ?thesis
    using True idx i v le by (intro that [of i v]) (auto simp: map_subtable_start_def xlat_tables_find_start_va_def v_def)
qed

lemma sub_map:
  assumes mm: "region_ok mm" and h: "h < 3" and spec: "map_spec e mm a Q h"
    and s: "pool_ok ctx2" "table_ok Q ctx2 h s 512 (unat w)"
    and w: "bsz (Suc h) dvd unat w" "unat w + bsz (Suc h) \<le> 2 ^ 48" "unat w < rend mm" "rbase mm < unat w + bsz (Suc h)"
    and a: "attr_word e (xlat_regime ctx2) (mm_attr mm) = Some a" "regime_ok ctx2"
  obtains i v r ctx3 lim where "map_subtable_start mm w (3 - h) = (i, v)"
    "map_region_loop e mm (3 - h) s 512 i v ctx2 = (Returned r, ctx3)"
    "table_post mm a Q h s 512 (unat w) 0 lim (unat r + 1 = lim) ctx2 ctx3" "limit_ok mm r lim (unat w) (unat w + bsz (Suc h)) ctx3"
proof -
  have wh: "bsz h dvd unat w" using w(1) bsz_mult [of h "Suc h"] dvd_trans by auto
  obtain i v where i: "map_subtable_start mm w (3 - h) = (i, v)" "i < 512" "unat v = unat w + i * bsz h" "unat v < rend mm"
      "rbase mm < unat v + bsz h" "\<And>x. x < unat w + i * bsz h \<Longrightarrow> i = 0 \<or> x < rbase mm"
    by (rule subtable_start [of h w 512 mm]) (use h wh w mm in \<open>auto simp: bsz_Suc\<close>)
  have "map_pre e mm a Q h s 512 (unat w) i v ctx2"
    using s wh i w a by (simp add: map_pre_def bsz_Suc)
  then obtain r ctx3 lim where r: "map_region_loop e mm (3 - h) s 512 i v ctx2 = (Returned r, ctx3)"
      "table_post mm a Q h s 512 (unat w) i lim (unat r + 1 = lim) ctx2 ctx3" "limit_ok mm r lim (unat v) (unat w + 512 * bsz h) ctx3"
    using spec unfolding map_spec_def by blast
  have below: "fill mm a lim (unat w + off) x = x" if "\<not> i * bsz h \<le> off" for off x
    using that i(6) [of "unat w + off"] by (auto simp: fill_def split: option.splits)
  have below_cnt: "ovl mm lim b z = 0" if "j < i" "b + z \<le> unat w + j * bsz h + bsz h" for j b z
  proof -
    have "Suc j * bsz h \<le> i * bsz h" using that(1) by (intro mult_le_mono1) simp
    then have "b + z \<le> unat w + i * bsz h" "0 < i" using that by auto
    then have "b + z \<le> rbase mm \<or> b + z = 0" using i(6) [of "b + z - 1"] by linarith
    then show ?thesis by (auto simp: ovl_def)
  qed
  have "ecnt x (\<lambda>b s. K b s + ovl mm lim b s) (cnt ctx3) (xlat_mem ctx3) h (xlat_mem ctx3 s j) (unat w + j * bsz h)"
    if K: "counting K" "j < 512" "x \<longrightarrow> unat r + 1 = lim" "ecnt x K (cnt ctx2) (xlat_mem ctx2) h (xlat_mem ctx2 s j) (unat w + j * bsz h)" for x K j
  proof (rule ecnt_cong)
    show "ecnt x (\<lambda>b s. K b s + (if i \<le> j then ovl mm lim b s else 0)) (cnt ctx3) (xlat_mem ctx3) h (xlat_mem ctx3 s j) (unat w + j * bsz h)"
      using r(2) K unfolding table_post_def Let_def by blast
  qed (use below_cnt [of j] in \<open>auto simp: not_le\<close>)
  then have "table_post mm a Q h s 512 (unat w) 0 lim (unat r + 1 = lim) ctx2 ctx3"
    using r(2) unfolding table_post_def Let_def by (auto simp: below)
  moreover have "limit_ok mm r lim (unat w) (unat w + bsz (Suc h)) ctx3"
    using r(3) i(3) by (auto simp: limit_ok_def bsz_Suc)
  ultimately show ?thesis using that i(1) r(1) by blast
qed

text \<open>A turn that goes down one level satisfies what is required of an entry.\<close>

definition turn_ok :: "xlat_env \<Rightarrow> mmap_region_t \<Rightarrow> uint64_t \<Rightarrow> (nat \<Rightarrow> nat \<Rightarrow> bool) \<Rightarrow> nat \<Rightarrow> uint64_t \<Rightarrow> nat \<Rightarrow> nat \<Rightarrow> uintptr_t \<Rightarrow> xlat_ctx_t \<Rightarrow> bool" where
  "turn_ok e mm a Q h t n idx w ctx \<longleftrightarrow>
     (\<exists>ctx'. entry_post mm a Q h t idx (unat w) (unat w + bsz h) True ctx ctx' \<and> unat w + bsz h \<le> rend mm
        \<and> map_region_loop e mm (3 - h) t n idx w ctx = map_continue e mm h t n idx w ctx')
     \<or> (\<exists>r ctx' lim. map_region_loop e mm (3 - h) t n idx w ctx = (Returned r, ctx')
          \<and> entry_post mm a Q h t idx (unat w) lim (unat r + 1 = lim) ctx ctx'
          \<and> limit_ok mm r lim (unat w) (unat w + bsz h) ctx' \<and> lim < unat w + bsz h)"

lemma entry_spec_turn:
  "entry_spec e mm a Q h \<longleftrightarrow>
     (\<forall>t n base idx w ctx. map_pre e mm a Q h t n base idx w ctx \<longrightarrow> turn_ok e mm a Q h t n idx w ctx)"
  by (simp add: entry_spec_def turn_ok_def map_continue_def)

lemma page_pred: "4096 dvd x \<Longrightarrow> 0 < x \<Longrightarrow> \<not> 4096 dvd x - 1" for x :: nat
proof
  assume "4096 dvd x" "0 < x" "4096 dvd x - 1"
  then have "4096 dvd x - (x - 1)" using dvd_diff_nat by blast
  then show False using \<open>0 < x\<close> by simp
qed

lemma turn_ok_sub:
  assumes idx: "idx < n" and h: "h < 3" and down: "turn_down mm (Suc h) t idx w ctx s ctx2"
    and start: "map_subtable_start mm w (3 - h) = (i, v)"
    and loop: "map_region_loop e mm (3 - h) s 512 i v ctx2 = (Returned r, ctx3)"
    and post: "entry_post mm a Q (Suc h) t idx (unat w) lim (unat r + 1 = lim) ctx ctx3"
    and lim: "limit_ok mm r lim (unat w) (unat w + bsz (Suc h)) ctx3"
    and top: "unat w + bsz (Suc h) \<le> 2 ^ 48" and w: "4096 dvd unat w"
  shows "turn_ok e mm a Q (Suc h) t n idx w ctx"
proof -
  have last: "unat (w + XLAT_BLOCK_SIZE (3 - Suc h) - 1) = unat w + bsz (Suc h) - 1"
    by (rule unat_entry_end) (use h top in auto)
  have "\<not> 4096 dvd unat w + bsz (Suc h) - 1" by (rule page_pred) (use w bsz_page [of "Suc h"] in simp_all)
  then have "unat r = unat w + bsz (Suc h) - 1 \<longleftrightarrow> lim = unat w + bsz (Suc h)"
    using lim bsz_pos [of "Suc h"] unfolding limit_ok_def by auto
  then have eq: "r = w + XLAT_BLOCK_SIZE (3 - Suc h) - 1 \<longleftrightarrow> lim = unat w + bsz (Suc h)"
    by (simp only: word_unat_eq_iff last)
  have turn: "map_region_loop e mm (3 - Suc h) t n idx w ctx
    = (if r = w + XLAT_BLOCK_SIZE (3 - Suc h) - 1 then map_continue e mm (Suc h) t n idx w ctx3 else (Returned r, ctx3))"
    using turn_sub [OF idx down h start loop] by simp
  show ?thesis
  proof (cases "lim = unat w + bsz (Suc h)")
    case True
    then have le: "unat w + bsz (Suc h) \<le> rend mm" and one: "unat r + 1 = lim" using lim by (auto simp: limit_ok_def)
    have "entry_post mm a Q (Suc h) t idx (unat w) lim True ctx ctx3" using post by (simp only: one simp_thms)
    then show ?thesis using turn eq True le by (auto simp: turn_ok_def)
  next
    case False
    then have "lim < unat w + bsz (Suc h)" using lim by (auto simp: limit_ok_def)
    then show ?thesis using turn eq False post lim by (auto simp: turn_ok_def)
  qed
qed

lemma down_create:
  assumes pre: "map_pre e mm a Q (Suc h) t n base idx w ctx" and h: "h < 3"
    and inv: "xlat_mem ctx t idx AND DESC_MASK = INVALID_DESC"
    and act: "entry_action mm (Suc h) t idx w ctx = Returned ACTION_CREATE_NEW_TABLE"
    and s: "xlat_table_get_empty ctx = Some s"
  obtains ctx2 where "turn_down mm (Suc h) t idx w ctx s ctx2" "pool_ok ctx2" "table_ok Q ctx2 h s 512 (unat w)"
    "same_fields ctx ctx2"
    "\<And>lim ok ctx3. table_post mm a Q h s 512 (unat w) 0 lim ok ctx2 ctx3 \<Longrightarrow> (ok \<Longrightarrow> ovl mm lim (unat w) (bsz (Suc h)) = 1) \<Longrightarrow>
       entry_post mm a Q (Suc h) t idx (unat w) lim ok ctx ctx3"
proof -
  let ?ctx1 = "write_entry t idx (TABLE_DESC OR s) ctx"
  have p: "pool_ok ctx" "table_ok Q ctx (Suc h) t n base" "idx < n" using pre by (simp_all add: map_pre_def)
  have free: "s \<in> free_tables ctx" using s by (rule get_empty_Some)
  then have tab: "s \<in> set (xlat_tables ctx)" "sub_of s = s" "t \<noteq> s"
    using p free_tables_subset [of ctx] by (auto simp: pool_ok_def pool_base_def table_ok_def)
  have fr1: "alloc_frame {t} ctx ?ctx1" by (rule write_entry_frame) simp
  have f1: "free_tables ?ctx1 = free_tables ctx" by (simp add: free_tables_def write_entry_def)
  have pool1: "pool_ok ?ctx1" by (rule pool_ok_frame [OF fr1 p(1)]) (use p(2) in \<open>simp add: table_ok_def\<close>)
  have "s \<in> set (xlat_tables ?ctx1)" using tab(1) by (simp add: write_entry_def)
  then obtain ctx2 where c2: "xlat_table_inc_regions_count s ?ctx1 = Some ctx2" "alloc_frame {t} ?ctx1 ctx2"
      "xlat_mem ctx2 = xlat_mem ?ctx1" "free_tables ctx2 = free_tables ?ctx1 - {s}" "cnt ctx2 s = cnt ?ctx1 s + 1"
      "\<And>x. x \<noteq> s \<Longrightarrow> cnt ctx2 x = cnt ?ctx1 x"
    using inc_regions [OF pool1, of s "{t}"] by blast
  have fr2: "alloc_frame {t} ctx ctx2" by (rule alloc_frame_trans [OF fr1 c2(2)]) auto
  have pool2: "pool_ok ctx2" by (rule pool_ok_frame [OF fr2 p(1)]) (use p(2) in \<open>simp add: table_ok_def\<close>)
  have blank: "xlat_mem ctx2 s i AND DESC_MASK = INVALID_DESC" if "i < 512" for i
    using that p(1) free tab(3) by (simp add: c2(3) write_entry_def pool_ok_def pool_base_def)
  then have esub0: "tsub (xlat_mem ctx2) h s 512 = {}" by (auto simp: tsub_def)
  have desc: "xlat_mem ctx2 t idx AND DESC_MASK = TABLE_DESC" "sub_of (xlat_mem ctx2 t idx) = s"
  proof -
    have "s AND DESC_MASK = (sub_of s) AND DESC_MASK" using tab(2) by simp
    then have "s AND DESC_MASK = 0" by (simp only: and.assoc) simp
    then show "xlat_mem ctx2 t idx AND DESC_MASK = TABLE_DESC" "sub_of (xlat_mem ctx2 t idx) = s"
      using tab(2) by (simp_all add: c2(3) write_entry_def bit.conj_disj_distrib2)
  qed
  have "turn_down mm (Suc h) t idx w ctx s ctx2" using act s c2(1) by (simp add: turn_down_def)
  moreover have "table_ok Q ctx2 h s 512 (unat w)"
    using blank esub0 c2(4) by (simp add: table_ok_def tok_def)
  moreover have "entry_post mm a Q (Suc h) t idx (unat w) lim ok ctx ctx3"
    if that: "table_post mm a Q h s 512 (unat w) 0 lim ok ctx2 ctx3" "ok \<Longrightarrow> ovl mm lim (unat w) (bsz (Suc h)) = 1" for lim ok ctx3
  proof (rule entry_from_sub [OF _ desc _ _ _ _ _ _ _ that(2,1)])
    show "alloc_frame (insert t (esub (xlat_mem ctx) (Suc h) (xlat_mem ctx t idx))) ctx ctx2"
      using fr2 inv by simp
    show "\<forall>i. i \<noteq> idx \<longrightarrow> xlat_mem ctx2 t i = xlat_mem ctx t i" by (simp add: c2(3) write_entry_def)
    show "insert s (tsub (xlat_mem ctx2) h s 512)
        \<subseteq> esub (xlat_mem ctx) (Suc h) (xlat_mem ctx t idx) \<union> (free_tables ctx - free_tables ctx2)"
      using esub0 free c2(4) f1 by simp
    show "t \<notin> insert s (tsub (xlat_mem ctx2) h s 512) \<union> free_tables ctx2"
      using esub0 tab(3) p(2) c2(4) f1 by (simp add: table_ok_def)
    show "ttrans (xlat_mem ctx2) h s 512 off = etrans (xlat_mem ctx) (Suc h) (xlat_mem ctx t idx) off" for off
      using blank inv by (simp add: ttrans_def)
    show "s \<notin> tsub (xlat_mem ctx2) h s 512 \<union> free_tables ctx2" using esub0 c2(4) by simp
    show "cnt_same (esub (xlat_mem ctx) (Suc h) (xlat_mem ctx t idx)) ctx ctx2"
    proof -
      have "free_tables ctx - free_tables ctx2 = {s}" using c2(4) f1 free by auto
      then show ?thesis using c2(6) by (simp add: cnt_same_def)
    qed
    fix x K assume K: "counting K" "ecnt x K (cnt ctx) (xlat_mem ctx) (Suc h) (xlat_mem ctx t idx) (unat w)"
    have zero: "K (unat w) (bsz (Suc h)) = 0" using K(2) inv by simp
    have "K (unat w + i * bsz h) (bsz h) = 0" if "i < 512" for i
    proof -
      have "0 \<le> K (unat w + i * bsz h) (bsz h)" "K (unat w + i * bsz h) (bsz h) \<le> K (unat w) (bsz (Suc h))"
        using K(1) sub_range [OF that, of "unat w" h] unfolding counting_def by auto
      then show ?thesis using zero by simp
    qed
    moreover have "cnt ?ctx1 s = 0" using free_cnt [OF pool_ok_base [OF pool1]] free f1 by auto
    ultimately show "K (unat w) (bsz (Suc h)) < cnt ctx2 s \<and> (x \<longrightarrow> K (unat w) (bsz (Suc h)) + 1 = cnt ctx2 s)
        \<and> (\<forall>i < 512. ecnt x K (cnt ctx2) (xlat_mem ctx2) h (xlat_mem ctx2 s i) (unat w + i * bsz h))"
      using zero c2(5) blank by (simp add: ecnt_invalid)
  qed
  moreover have "same_fields ctx ctx2" using fr2 by (simp add: alloc_frame_def)
  ultimately show ?thesis using pool2 that by blast
qed

lemma down_recurse:
  assumes pre: "map_pre e mm a Q (Suc h) t n base idx w ctx" and h: "h < 3"
    and table: "xlat_mem ctx t idx AND DESC_MASK = TABLE_DESC"
    and act: "entry_action mm (Suc h) t idx w ctx = Returned ACTION_RECURSE_INTO_TABLE"
  defines "s \<equiv> sub_of (xlat_mem ctx t idx)"
  obtains ctx2 where "turn_down mm (Suc h) t idx w ctx s ctx2" "pool_ok ctx2" "table_ok Q ctx2 h s 512 (unat w)"
    "same_fields ctx ctx2"
    "\<And>lim ok ctx3. table_post mm a Q h s 512 (unat w) 0 lim ok ctx2 ctx3 \<Longrightarrow> (ok \<Longrightarrow> ovl mm lim (unat w) (bsz (Suc h)) = 1) \<Longrightarrow>
       entry_post mm a Q (Suc h) t idx (unat w) lim ok ctx ctx3"
proof -
  let ?m = "xlat_mem ctx"
  have p: "pool_ok ctx" "table_ok Q ctx (Suc h) t n base" "idx < n" and w: "unat w = base + idx * bsz (Suc h)"
    using pre by (simp_all add: map_pre_def)
  have sub: "esub ?m (Suc h) (?m t idx) = insert s (tsub ?m h s 512)" using table by (simp add: esub_Suc s_def del: esub.simps)
  have in_tab: "insert s (tsub ?m h s 512) \<subseteq> set (xlat_tables ctx) - free_tables ctx"
    using p(2) tsub_mem [OF p(3), of ?m "Suc h" t] unfolding sub by (auto simp: table_ok_def)
  have t: "t \<notin> insert s (tsub ?m h s 512)" "t \<notin> free_tables ctx"
    using p(2,3) sub unfolding table_ok_def tok_def by auto
  have tok_s: "tok ?m h s 512"
    using p(2,3) table unfolding table_ok_def tok_def [of _ "Suc h"] eok_Suc s_def by blast
  have leaf_s: "eleaf Q ?m h (?m s i) (unat w + i * bsz h)" if "i < 512" for i
    using p(2,3) table that unfolding table_ok_def s_def w by auto
  obtain ctx2 where c2: "xlat_table_inc_regions_count s ctx = Some ctx2" "alloc_frame {t} ctx ctx2"
      "xlat_mem ctx2 = xlat_mem ctx" "free_tables ctx2 = free_tables ctx - {s}" "cnt ctx2 s = cnt ctx s + 1"
      "\<And>x. x \<noteq> s \<Longrightarrow> cnt ctx2 x = cnt ctx x"
    using inc_regions [OF p(1), of s "{t}"] in_tab by blast
  have pool2: "pool_ok ctx2" by (rule pool_ok_frame [OF c2(2) p(1)]) (use t in simp)
  have same: "same_fields ctx ctx2" using c2(2) by (simp add: alloc_frame_def)
  have "turn_down mm (Suc h) t idx w ctx s ctx2" using act c2(1) by (simp add: turn_down_def s_def)
  moreover have "table_ok Q ctx2 h s 512 (unat w)"
    using in_tab tok_s leaf_s by (auto simp: table_ok_def c2 same_fields_simps [OF same])
  moreover have "entry_post mm a Q (Suc h) t idx (unat w) lim ok ctx ctx3"
    if that: "table_post mm a Q h s 512 (unat w) 0 lim ok ctx2 ctx3" "ok \<Longrightarrow> ovl mm lim (unat w) (bsz (Suc h)) = 1" for lim ok ctx3
  proof (rule entry_from_sub [OF _ _ _ _ _ _ _ _ _ _ that(2,1)])
    show "alloc_frame (insert t (esub ?m (Suc h) (?m t idx))) ctx ctx2"
      by (rule alloc_frame_mono [OF c2(2)]) simp
    show "xlat_mem ctx2 t idx AND DESC_MASK = TABLE_DESC" "sub_of (xlat_mem ctx2 t idx) = s"
      using table by (simp_all add: c2(3) s_def)
    show "\<forall>i. i \<noteq> idx \<longrightarrow> xlat_mem ctx2 t i = xlat_mem ctx t i" by (simp add: c2(3))
    show "insert s (tsub (xlat_mem ctx2) h s 512)
        \<subseteq> esub ?m (Suc h) (?m t idx) \<union> (free_tables ctx - free_tables ctx2)"
      unfolding c2(3) sub by blast
    show "t \<notin> insert s (tsub (xlat_mem ctx2) h s 512) \<union> free_tables ctx2"
      using t by (simp add: c2)
    show "ttrans (xlat_mem ctx2) h s 512 off = etrans (xlat_mem ctx) (Suc h) (xlat_mem ctx t idx) off"
      if "off < bsz (Suc h)" for off
      using that table by (simp only: etrans_table c2(3) s_def)
    show s_out: "s \<notin> tsub (xlat_mem ctx2) h s 512 \<union> free_tables ctx2"
      using tok_s in_tab by (auto simp: tok_def tsub_def c2)
    show "cnt_same (esub ?m (Suc h) (?m t idx)) ctx ctx2"
      using c2(6) unfolding cnt_same_def sub by auto
    fix x K assume K: "counting K" "ecnt x K (cnt ctx) ?m (Suc h) (?m t idx) (unat w)"
    have "ecnt x K (cnt ctx2) ?m h (?m s i) (unat w + i * bsz h)" if i: "i < 512" for i
    proof (rule ecnt_frame [where k = "cnt ctx" and m = ?m])
      show "ecnt x K (cnt ctx) ?m h (?m s i) (unat w + i * bsz h)" using K(2) table i by (simp add: s_def)
      fix y assume "y \<in> esub ?m h (?m s i)"
      then have "y \<noteq> s" using s_out i by (auto simp: tsub_def c2)
      then show "?m y = ?m y \<and> cnt ctx2 y = cnt ctx y" using c2(6) by simp
    qed
    then show "K (unat w) (bsz (Suc h)) < cnt ctx2 s \<and> (x \<longrightarrow> K (unat w) (bsz (Suc h)) + 1 = cnt ctx2 s)
        \<and> (\<forall>i < 512. ecnt x K (cnt ctx2) (xlat_mem ctx2) h (xlat_mem ctx2 s i) (unat w + i * bsz h))"
      using K(2) table c2(5) unfolding c2(3) by (simp add: s_def)
  qed
  ultimately show ?thesis using pool2 same that by blast
qed

section \<open>Every turn\<close>

text \<open>
  A leaf that overlaps the region lies within it, and a block or page of the region may be written.
\<close>

definition leaves_fit :: "mmap_region_t \<Rightarrow> (nat \<Rightarrow> nat \<Rightarrow> bool) \<Rightarrow> bool" where
  "leaves_fit mm Q \<longleftrightarrow>
     (\<forall>b s. Q b s \<and> b < rend mm \<and> rbase mm < b + s \<longrightarrow> rbase mm \<le> b \<and> b + s \<le> rend mm)
     \<and> (\<forall>b s. 0 < s \<and> rbase mm \<le> b \<and> b + s \<le> rend mm \<longrightarrow> Q b s)"

lemma leaves_fit_within: "leaves_fit mm Q \<Longrightarrow> 0 < s \<Longrightarrow> rbase mm \<le> b \<Longrightarrow> b + s \<le> rend mm \<Longrightarrow> Q b s"
  unfolding leaves_fit_def by blast

lemma leaves_fit_overlap:
  "leaves_fit mm Q \<Longrightarrow> Q b s \<Longrightarrow> b < rend mm \<Longrightarrow> rbase mm < b + s \<Longrightarrow> rbase mm \<le> b \<and> b + s \<le> rend mm"
  unfolding leaves_fit_def by blast

lemma turn_ok_write:
  assumes mm: "region_ok mm" and fit: "leaves_fit mm Q" and pre: "map_pre e mm a Q h t n base idx w ctx" and h: "h < 3"
    and inv: "xlat_mem ctx t idx AND DESC_MASK = INVALID_DESC"
    and cov: "rbase mm \<le> unat w" "unat w + bsz h \<le> rend mm"
    and act: "entry_action mm h t idx w ctx = Returned ACTION_WRITE_BLOCK_ENTRY"
    and al: "bsz h dvd unat (base_pa mm + w - base_va mm)"
  shows "turn_ok e mm a Q h t n idx w ctx"
proof -
  have p: "idx < n" "attr_word e (xlat_regime ctx) (mm_attr mm) = Some a" "regime_ok ctx"
    and w: "4096 dvd unat w"
    using pre dvd_trans [OF bsz_page [of h]] bsz_page [of h] by (auto simp: map_pre_def)
  have "(base_pa mm + w - base_va mm) AND XLAT_BLOCK_MASK (3 - h) = 0" using and_block_mask [of h] al h by simp
  then obtain d where d: "xlat_desc e ctx (mm_attr mm) (base_pa mm + w - base_va mm) (3 - h) = Returned d"
    using p by (simp only: xlat_desc_fields simp_thms option.inject)
  have "Q (unat w) (bsz h)" by (rule leaves_fit_within [OF fit bsz_pos cov])
  then have "entry_post mm a Q h t idx (unat w) (unat w + bsz h) True ctx (write_entry t idx d ctx)"
    by (rule entry_post_write [OF mm h inv cov _ d p(2) w])
  moreover have "map_region_loop e mm (3 - h) t n idx w ctx = map_continue e mm h t n idx w (write_entry t idx d ctx)"
    by (rule turn_write [OF p(1) act d])
  ultimately show ?thesis using cov by (auto simp: turn_ok_def)
qed

lemma turn_ok_leaf:
  assumes pre: "map_pre e mm a Q h t n base idx w ctx" and lf: "leaf h (xlat_mem ctx t idx)"
    and act: "entry_action mm h t idx w ctx = Returned ACTION_NONE" and cov: "unat w + bsz h \<le> rend mm"
  shows "turn_ok e mm a Q h t n idx w ctx"
proof -
  have "idx < n" "eleaf Q (xlat_mem ctx) h (xlat_mem ctx t idx) (unat w)"
    using pre by (auto simp: map_pre_def table_ok_def)
  then show ?thesis
    using entry_post_leaf [OF lf] turn_none [OF _ act] cov unfolding turn_ok_def by blast
qed

lemma turn_ok_no_table:
  assumes pre: "map_pre e mm a Q h t n base idx w ctx"
    and act: "entry_action mm h t idx w ctx = Returned ACTION_CREATE_NEW_TABLE"
    and none: "xlat_table_get_empty ctx = None"
  shows "turn_ok e mm a Q h t n idx w ctx"
proof -
  have p: "idx < n" "table_ok Q ctx h t n base" "unat w < rend mm" and al: "4096 dvd unat w"
    and w: "unat w = base + idx * bsz h"
    using pre dvd_trans [OF bsz_page [of h]] bsz_page [of h] by (auto simp: map_pre_def)
  have "ecnt x (\<lambda>b s. K b s + ovl mm (unat w) b s) (cnt ctx) (xlat_mem ctx) h (xlat_mem ctx t idx) (unat w)"
    if "ecnt x K (cnt ctx) (xlat_mem ctx) h (xlat_mem ctx t idx) (unat w)" for x K
    by (rule ecnt_cong [OF that]) (simp add: ovl_beyond)
  then have "entry_post mm a Q h t idx (unat w) (unat w) (unat w + 1 = unat w) ctx ctx"
    using p(1,2) unfolding table_ok_def tok_def w
    by (auto simp: entry_post_def Let_def alloc_frame_refl fill_beyond)
  moreover have "limit_ok mm w (unat w) (unat w) (unat w + bsz h) ctx"
    using none al p(3) by (auto simp: limit_ok_def get_empty_None)
  moreover have "map_region_loop e mm (3 - h) t n idx w ctx = (Returned w, ctx)"
    by (rule turn_no_table [OF p(1) act none])
  moreover have "unat w < unat w + bsz h" by simp
  ultimately show ?thesis unfolding turn_ok_def by blast
qed

lemma turn_ok_down:
  assumes mm: "region_ok mm" and h: "h < 3" and spec: "map_spec e mm a Q h"
    and pre: "map_pre e mm a Q (Suc h) t n base idx w ctx"
    and down: "turn_down mm (Suc h) t idx w ctx s ctx2" "pool_ok ctx2" "table_ok Q ctx2 h s 512 (unat w)" "same_fields ctx ctx2"
    and post: "\<And>lim ok ctx3. table_post mm a Q h s 512 (unat w) 0 lim ok ctx2 ctx3 \<Longrightarrow> (ok \<Longrightarrow> ovl mm lim (unat w) (bsz (Suc h)) = 1) \<Longrightarrow>
       entry_post mm a Q (Suc h) t idx (unat w) lim ok ctx ctx3"
  shows "turn_ok e mm a Q (Suc h) t n idx w ctx"
proof -
  have p: "idx < n" "unat w < rend mm" "rbase mm < unat w + bsz (Suc h)"
      "attr_word e (xlat_regime ctx2) (mm_attr mm) = Some a" "regime_ok ctx2"
    and al: "bsz (Suc h) dvd unat w" and w: "unat w = base + idx * bsz (Suc h)" and top: "base + n * bsz (Suc h) \<le> 2 ^ 48"
    using pre by (simp_all add: map_pre_def same_fields_simps [OF down(4)])
  have "Suc idx * bsz (Suc h) \<le> n * bsz (Suc h)" using p(1) by (intro mult_le_mono1) simp
  then have top': "unat w + bsz (Suc h) \<le> 2 ^ 48" using w top by simp
  obtain i v r ctx3 lim where sub: "map_subtable_start mm w (3 - h) = (i, v)"
      "map_region_loop e mm (3 - h) s 512 i v ctx2 = (Returned r, ctx3)"
      "table_post mm a Q h s 512 (unat w) 0 lim (unat r + 1 = lim) ctx2 ctx3" "limit_ok mm r lim (unat w) (unat w + bsz (Suc h)) ctx3"
    by (rule sub_map [OF mm h spec down(2,3) al top' p(2-5)])
  have met: "ovl mm lim (unat w) (bsz (Suc h)) = 1" if "unat r + 1 = lim"
    using that sub(4) p(2,3) mm bsz_pos [of "Suc h"] unfolding limit_ok_def ovl_def region_ok_def by (auto simp: rend_def)
  show ?thesis
    by (rule turn_ok_sub [OF p(1) h down(1) sub(1,2) post [OF sub(3) met] sub(4) top' dvd_trans [OF bsz_page al]])
qed

text \<open>The type of an entry the region reaches, and what the region covers of it.\<close>

lemma entry_kind:
  assumes fit: "leaves_fit mm Q" and pre: "map_pre e mm a Q h t n base idx w ctx"
  defines "d \<equiv> xlat_mem ctx t idx"
  obtains (invalid) "d AND DESC_MASK = INVALID_DESC"
    | (leaf) "leaf h d" "rbase mm \<le> unat w" "unat w + bsz h \<le> rend mm"
    | (table) "0 < h" "d AND DESC_MASK = TABLE_DESC"
proof -
  have el: "eleaf Q (xlat_mem ctx) h d (unat w)" and ov: "unat w < rend mm" "rbase mm < unat w + bsz h"
    using pre by (auto simp: map_pre_def table_ok_def d_def)
  have Q: "Q (unat w) (bsz h) \<Longrightarrow> rbase mm \<le> unat w \<and> unat w + bsz h \<le> rend mm"
    using leaves_fit_overlap [OF fit _ ov] by blast
  show ?thesis
  proof (cases h)
    case 0
    then show ?thesis using el Q invalid leaf by (auto simp: leaf_def)
  next
    case (Suc k)
    then show ?thesis using el Q invalid leaf table by (auto simp: leaf_def)
  qed
qed

lemma entry_page:
  assumes mm: "region_ok mm" and fit: "leaves_fit mm Q"
  shows "entry_spec e mm a Q 0"
  unfolding entry_spec_turn
proof (intro allI impI)
  fix t n base idx w ctx
  assume pre: "map_pre e mm a Q 0 t n base idx w ctx"
  have ov: "unat w < rend mm" "rbase mm < unat w + bsz 0" and al: "4096 dvd unat w"
    and top: "idx < n" "base + n * bsz 0 \<le> 2 ^ 48" "unat w = base + idx * bsz 0"
    using pre by (auto simp: map_pre_def bsz_0)
  have r: "4096 dvd rbase mm" "4096 dvd rend mm" using mm by (simp_all add: region_ok_def rend_def)
  have cov: "rbase mm \<le> unat w" "unat w + bsz 0 \<le> rend mm"
    using ov al r by (auto simp: bsz_0 elim!: dvdE)
  have "Suc idx * bsz 0 \<le> n * bsz 0" using top(1) by (intro mult_le_mono1) simp
  then have le: "unat w + bsz 0 \<le> 2 ^ 48" using top by simp
  note act = action_full [OF mm _ le cov, simplified]
  from fit pre show "turn_ok e mm a Q 0 t n idx w ctx"
  proof (cases rule: entry_kind)
    case invalid
    show ?thesis
    proof (rule turn_ok_write [OF mm fit pre _ invalid cov])
      have "unat (base_pa mm + w - base_va mm) = unat (base_pa mm) + (unat w - rbase mm)"
        by (rule entry_pa [OF mm cov(1) ov(1)])
      then show "bsz 0 dvd unat (base_pa mm + w - base_va mm)"
        using mm al r(1) by (auto simp: bsz_0 region_ok_def intro: dvd_add dvd_diff_nat)
    qed (use act(2) invalid in simp_all)
  next
    case leaf
    show ?thesis
      by (rule turn_ok_leaf [OF pre leaf(1)]) (use act(1) leaf in \<open>simp_all add: leaf_def\<close>)
  next
    case table
    then show ?thesis by simp
  qed
qed

lemma entry_block:
  assumes mm: "region_ok mm" and fit: "leaves_fit mm Q" and h: "h < 3" and spec: "map_spec e mm a Q h"
  shows "entry_spec e mm a Q (Suc h)"
  unfolding entry_spec_turn
proof (intro allI impI)
  fix t n base idx w ctx
  assume pre: "map_pre e mm a Q (Suc h) t n base idx w ctx"
  have ov: "unat w < rend mm" "rbase mm < unat w + bsz (Suc h)"
    and top: "idx < n" "base + n * bsz (Suc h) \<le> 2 ^ 48" "unat w = base + idx * bsz (Suc h)"
    using pre by (auto simp: map_pre_def)
  have "Suc idx * bsz (Suc h) \<le> n * bsz (Suc h)" using top(1) by (intro mult_le_mono1) simp
  then have le: "unat w + bsz (Suc h) \<le> 2 ^ 48" using top by simp
  have h': "Suc h \<le> 3" "0 < Suc h" using h by simp_all
  let ?d = "xlat_mem ctx t idx" and ?pa = "base_pa mm + w - base_va mm"
  let ?full = "rbase mm \<le> unat w \<and> unat w + bsz (Suc h) \<le> rend mm"
  note full = action_full [OF mm h'(1) le]
  note partial = action_partial [OF mm h'(2,1) le ov(2)]
  have create: "turn_ok e mm a Q (Suc h) t n idx w ctx"
    if inv: "?d AND DESC_MASK = INVALID_DESC" and act: "entry_action mm (Suc h) t idx w ctx = Returned ACTION_CREATE_NEW_TABLE"
  proof (cases "xlat_table_get_empty ctx")
    case None
    show ?thesis by (rule turn_ok_no_table [OF pre act None])
  next
    case (Some s)
    obtain ctx2 where "turn_down mm (Suc h) t idx w ctx s ctx2" "pool_ok ctx2" "table_ok Q ctx2 h s 512 (unat w)"
      "same_fields ctx ctx2"
      "\<And>lim ok ctx3. table_post mm a Q h s 512 (unat w) 0 lim ok ctx2 ctx3 \<Longrightarrow> (ok \<Longrightarrow> ovl mm lim (unat w) (bsz (Suc h)) = 1) \<Longrightarrow>
       entry_post mm a Q (Suc h) t idx (unat w) lim ok ctx ctx3"
      by (rule down_create [OF pre h inv act Some]) blast
    then show ?thesis by (rule turn_ok_down [OF mm h spec pre])
  qed
  from fit pre show "turn_ok e mm a Q (Suc h) t n idx w ctx"
  proof (cases rule: entry_kind)
    case invalid
    show ?thesis
    proof (cases "?full \<and> bsz (Suc h) dvd unat ?pa \<and> Suc h < 3 \<and> XLAT_BLOCK_SIZE (3 - Suc h) \<le> granularity mm")
      case True
      then show ?thesis
        using full(5) [of ?pa] invalid by (intro turn_ok_write [OF mm fit pre _ invalid]) simp_all
    next
      case False
      have "entry_action mm (Suc h) t idx w ctx = Returned ACTION_CREATE_NEW_TABLE"
        using False full(5) [of ?pa] partial(1) [of ?pa] invalid by (cases ?full) auto
      then show ?thesis by (rule create [OF invalid])
    qed
  next
    case leaf
    then show ?thesis
      using full(4) [of ?pa] by (intro turn_ok_leaf [OF pre leaf(1)]) (simp_all add: leaf_def)
  next
    case table
    have act: "entry_action mm (Suc h) t idx w ctx = Returned ACTION_RECURSE_INTO_TABLE"
      using full(3) [of ?pa] partial(2) [of ?pa] table(2) by (cases ?full) auto
    obtain ctx2 where "turn_down mm (Suc h) t idx w ctx (sub_of ?d) ctx2" "pool_ok ctx2" "table_ok Q ctx2 h (sub_of ?d) 512 (unat w)"
      "same_fields ctx ctx2"
      "\<And>lim ok ctx3. table_post mm a Q h (sub_of ?d) 512 (unat w) 0 lim ok ctx2 ctx3 \<Longrightarrow> (ok \<Longrightarrow> ovl mm lim (unat w) (bsz (Suc h)) = 1) \<Longrightarrow>
       entry_post mm a Q (Suc h) t idx (unat w) lim ok ctx ctx3"
      by (rule down_recurse [OF pre h table(2) act]) blast
    then show ?thesis by (rule turn_ok_down [OF mm h spec pre])
  qed
qed

theorem map_all_levels:
  assumes "region_ok mm" "leaves_fit mm Q" "h \<le> 3"
  shows "map_spec e mm a Q h"
  using assms(3)
proof (induction h)
  case 0
  show ?case by (rule loop_from_entry [OF assms(1) _ entry_page [OF assms(1,2)]]) simp
next
  case (Suc h)
  show ?case
    by (rule loop_from_entry [OF assms(1) Suc.prems entry_block [OF assms(1,2) _ Suc.IH]]) (use Suc.prems in simp_all)
qed

end
