(* ===== verification/Xlat_Regions.thy ===== *)
theory Xlat_Regions
  imports Xlat_Entry
begin

text \<open>
  The list of regions: what the checks on a new region establish, and the order the insertion keeps.
\<close>

section \<open>Nested and separate regions\<close>

definition nested :: "mmap_region_t \<Rightarrow> mmap_region_t \<Rightarrow> bool" where
  "nested c d \<longleftrightarrow> rbase d \<le> rbase c \<and> rend c \<le> rend d"

definition separate :: "mmap_region_t \<Rightarrow> mmap_region_t \<Rightarrow> bool" where
  "separate c d \<longleftrightarrow> rend c \<le> rbase d \<or> rend d \<le> rbase c"

definition separate_pa :: "mmap_region_t \<Rightarrow> mmap_region_t \<Rightarrow> bool" where
  "separate_pa c d \<longleftrightarrow>
     unat (base_pa c) + unat (mm_size c) \<le> unat (base_pa d) \<or> unat (base_pa d) + unat (mm_size d) \<le> unat (base_pa c)"

abbreviation (input) static :: "mmap_region_t \<Rightarrow> bool" where
  "static mm \<equiv> mm_attr mm AND MT_DYNAMIC = 0"

text \<open>Two regions may both be in the list: static ones nested at the same offset, or apart.\<close>

definition compatible :: "mmap_region_t \<Rightarrow> mmap_region_t \<Rightarrow> bool" where
  "compatible c d \<longleftrightarrow>
     (nested c d \<or> nested d c) \<and> base_va c - base_pa c = base_va d - base_pa d \<and> static c \<and> static d
     \<or> separate c d \<and> separate_pa c d"

text \<open>The order of the list: lower end first, then smaller size.\<close>

definition before :: "mmap_region_t \<Rightarrow> mmap_region_t \<Rightarrow> bool" where
  "before c d \<longleftrightarrow> rend c < rend d \<or> rend c = rend d \<and> unat (mm_size c) < unat (mm_size d)"

definition regions_ok :: "mmap_region_t list \<Rightarrow> bool" where
  "regions_ok ms \<longleftrightarrow>
     (\<forall>c \<in> set ms. region_ok c) \<and> sorted_wrt before ms
     \<and> (\<forall>c \<in> set ms. \<forall>d \<in> set ms. c \<noteq> d \<longrightarrow> compatible c d)"

lemma before_trans: "before c d \<Longrightarrow> before d x \<Longrightarrow> before c x"
  by (auto simp: before_def)

lemma nested_before: "region_ok c \<Longrightarrow> region_ok d \<Longrightarrow> before c d \<Longrightarrow> nested d c \<Longrightarrow> False"
  by (auto simp: before_def nested_def region_ok_def rend_def)

lemma compatible_sym: "compatible c d \<Longrightarrow> compatible d c"
  by (auto simp: compatible_def separate_def separate_pa_def)

text \<open>The comparisons of the checks, on regions that do not wrap.\<close>

lemma region_end_pa_unat: "region_ok mm \<Longrightarrow> unat (region_end_pa mm) = unat (base_pa mm) + unat (mm_size mm) - 1"
proof -
  assume r: "region_ok mm"
  have "unat (base_pa mm + mm_size mm) = unat (base_pa mm) + unat (mm_size mm)"
    using r by (simp add: unat_word_ariths(1) region_ok_def)
  moreover have "unat (x - 1) = unat x - 1" if "0 < unat x" for x :: uint64_t
    using that by (simp add: unat_minus_one unat_gt_0)
  ultimately show ?thesis using r by (simp add: region_end_pa_def region_ok_def)
qed

lemma region_size_pos: "region_ok c \<Longrightarrow> 0 < unat (mm_size c) \<and> 0 < rend c"
  by (auto simp: region_ok_def rend_def)

lemma base_le: "base_va c \<le> base_va d \<longleftrightarrow> rbase c \<le> rbase d"
  by (simp add: word_le_nat_alt)

lemma end_le: "region_ok c \<Longrightarrow> region_ok d \<Longrightarrow> region_end_va c \<le> region_end_va d \<longleftrightarrow> rend c \<le> rend d"
  using region_end_unat [of c] region_end_unat [of d] region_size_pos [of c] region_size_pos [of d]
  by (auto simp: word_le_nat_alt)

lemma end_eq: "region_ok c \<Longrightarrow> region_ok d \<Longrightarrow> region_end_va c = region_end_va d \<longleftrightarrow> rend c = rend d"
  using end_le [of c d] end_le [of d c] by (metis order.antisym order.refl)

lemma end_less_base: "region_ok c \<Longrightarrow> region_end_va c < base_va d \<longleftrightarrow> rend c \<le> rbase d"
  using region_end_unat [of c] region_size_pos [of c] by (auto simp: word_less_nat_alt)

lemma end_less_base_pa:
  "region_ok c \<Longrightarrow> region_end_pa c < base_pa d \<longleftrightarrow> unat (base_pa c) + unat (mm_size c) \<le> unat (base_pa d)"
  using region_end_pa_unat [of c] region_size_pos [of c] by (auto simp: word_less_nat_alt)

lemma overlap_check_one:
  assumes "overlap_check_loop mm (c # cs) = 0" "region_ok mm" "region_ok c"
  shows "overlap_check_loop mm cs = 0" "compatible mm c" "\<not> (base_va mm = base_va c \<and> mm_size mm = mm_size c)"
proof -
  let ?full = "(rbase c \<le> rbase mm \<and> rend mm \<le> rend c) \<or> (rbase mm \<le> rbase c \<and> rend c \<le> rend mm)"
  have *: "overlap_check_loop mm (c # cs) =
     (if ?full then
        if \<not> static mm \<or> \<not> static c then - XLAT_EPERM
        else if base_va c - base_pa c \<noteq> base_va mm - base_pa mm then - XLAT_EPERM
        else if base_va mm = base_va c \<and> mm_size mm = mm_size c then - XLAT_EPERM
        else overlap_check_loop mm cs
      else if \<not> separate mm c \<or> \<not> separate_pa mm c then - XLAT_EPERM else overlap_check_loop mm cs)"
    unfolding separate_def separate_pa_def
    using assms(2,3) by (simp add: Let_def end_le end_less_base end_less_base_pa base_le)
  show "overlap_check_loop mm cs = 0"
    using assms(1) unfolding * by (simp split: if_splits)
  show "compatible mm c"
    using assms(1) unfolding * compatible_def nested_def by (auto split: if_splits)
  show "\<not> (base_va mm = base_va c \<and> mm_size mm = mm_size c)"
    using assms(1) unfolding * by (auto simp: rend_def split: if_splits)
qed

lemma overlap_check:
  "overlap_check_loop mm cs = 0 \<Longrightarrow> region_ok mm \<Longrightarrow> \<forall>c \<in> set cs. region_ok c \<Longrightarrow> c \<in> set cs \<Longrightarrow>
     compatible mm c \<and> \<not> (base_va mm = base_va c \<and> mm_size mm = mm_size c)"
proof (induction cs)
  case Nil
  then show ?case by simp
next
  case (Cons x xs)
  note one = overlap_check_one [OF Cons.prems(1,2)]
  show ?case
  proof (cases "c = x")
    case True
    then show ?thesis using one Cons.prems(3) by simp
  next
    case False
    then show ?thesis using one Cons.prems Cons.IH by simp
  qed
qed

section \<open>Insertion\<close>

lemma dropWhile_sorted:
  assumes "sorted_wrt R ms" "\<And>c d. c \<in> set ms \<Longrightarrow> d \<in> set ms \<Longrightarrow> R c d \<Longrightarrow> P d \<Longrightarrow> P c" "x \<in> set (dropWhile P ms)"
  shows "\<not> P x"
  using assms
proof (induction ms)
  case (Cons a ms)
  show ?case
  proof (cases "P a")
    case True
    then show ?thesis using Cons by auto
  next
    case False
    then show ?thesis using Cons.prems by auto
  qed
qed simp

lemma mmap_insert_set: "set (mmap_insert mm ms) = insert mm (set ms)"
proof -
  have "set ms = set (takeWhile P ms) \<union> set (takeWhile R (dropWhile P ms)) \<union> set (dropWhile R (dropWhile P ms))" for P R
    by (metis set_append takeWhile_dropWhile_id Un_assoc)
  then show ?thesis unfolding mmap_insert_def Let_def by auto
qed

lemma mmap_insert_regions:
  assumes ms: "regions_ok ms" and mm: "region_ok mm" and chk: "overlap_check_loop mm ms = 0"
  shows "regions_ok (mmap_insert mm ms)"
proof -
  let ?p = "\<lambda>c. region_end_va c < region_end_va mm"
  let ?q = "\<lambda>c. region_end_va c = region_end_va mm \<and> mm_size c < mm_size mm"
  define A where "A = takeWhile ?p ms"
  define D where "D = dropWhile ?p ms"
  define B where "B = takeWhile ?q D"
  define C where "C = dropWhile ?q D"
  have parts: "ms = A @ B @ C" "D = B @ C" by (simp_all add: A_def B_def C_def D_def)
  have ins: "mmap_insert mm ms = A @ B @ mm # C" by (simp add: mmap_insert_def Let_def A_def B_def C_def D_def)
  have ok: "region_ok c" if "c \<in> set ms" for c using ms that by (simp add: regions_ok_def)
  have p: "?p c \<longleftrightarrow> rend c < rend mm" if "c \<in> set ms" for c
    using end_le [OF mm ok [OF that]] by (simp flip: not_le)
  have q: "?q c \<longleftrightarrow> rend c = rend mm \<and> unat (mm_size c) < unat (mm_size mm)" if "c \<in> set ms" for c
    using end_eq [OF ok [OF that] mm] by (simp add: word_less_nat_alt)
  have srt: "sorted_wrt before ms" "sorted_wrt before D"
    using ms parts by (simp_all add: regions_ok_def sorted_wrt_append)
  have D: "rend mm \<le> rend x" if "x \<in> set D" for x
  proof -
    have "\<not> ?p x"
      by (rule dropWhile_sorted [where P = ?p, OF srt(1)]) (use that in \<open>auto simp: p before_def D_def\<close>)
    then show ?thesis using p [of x] that parts by (auto simp: not_less)
  qed
  have "before mm x" if "x \<in> set C" for x
  proof -
    have x: "x \<in> set ms" "x \<in> set D" using that parts by auto
    have "\<not> ?q x"
    proof (rule dropWhile_sorted [where P = ?q, OF srt(2)])
      fix c d assume "c \<in> set D" "d \<in> set D" "before c d" "?q d"
      then show "?q c" using D [of c] q [of c] q [of d] parts by (auto simp: before_def)
    qed (use that in \<open>simp add: C_def\<close>)
    moreover have "\<not> (base_va mm = base_va x \<and> mm_size mm = mm_size x)"
      using overlap_check [OF chk mm _ x(1)] ok by simp
    ultimately have "rend mm \<noteq> rend x \<or> unat (mm_size mm) < unat (mm_size x)"
      using q [OF x(1)] by (auto simp: rend_def word_unat_eq_iff not_less)
    then show ?thesis using D [OF x(2)] by (auto simp: before_def)
  qed
  moreover have "before x mm" if "x \<in> set A" for x
  proof -
    have "?p x" using that unfolding A_def by (rule set_takeWhileD [THEN conjunct2])
    then show ?thesis using p [of x] that parts by (simp add: before_def)
  qed
  moreover have "before x mm" if "x \<in> set B" for x
  proof -
    have "?q x" using that unfolding B_def by (rule set_takeWhileD [THEN conjunct2])
    then show ?thesis using q [of x] that parts by (simp add: before_def)
  qed
  ultimately have "sorted_wrt before (A @ B @ mm # C)"
    using srt(1) unfolding parts(1) sorted_wrt_append by auto
  moreover have "compatible c d" if "c \<in> insert mm (set ms)" "d \<in> insert mm (set ms)" "c \<noteq> d" for c d
    using that overlap_check [OF chk mm] ok compatible_sym ms by (auto simp: regions_ok_def)
  ultimately show ?thesis
    using mm ok mmap_insert_set [of mm ms] ins by (simp add: regions_ok_def)
qed

end
