(* ===== verification/Xlat_Api.thy ===== *)
theory Xlat_Api
  imports Xlat_Regions
begin

text \<open>
  What the loops over the tables leave alone: every field of the context but the contents of the
  tables and their region counts.
\<close>

section \<open>What the loops over the tables leave alone\<close>

lemma same_fields_refl [simp]: "same_fields ctx ctx"
  by (simp add: same_fields_def)

lemma same_fields_write [simp]: "same_fields ctx (write_entry t i d ctx)"
  by (simp add: same_fields_def write_entry_def)

lemma same_fields_count: "xlat_table_add_regions_count n t ctx = Some ctx' \<Longrightarrow> same_fields ctx ctx'"
  by (auto simp: same_fields_def xlat_table_add_regions_count_def)

lemma inc_fields: "xlat_table_inc_regions_count t ctx = Some ctx' \<Longrightarrow> same_fields ctx ctx'"
  by (simp add: xlat_table_inc_regions_count_def same_fields_count)

lemma turn_down_fields: "turn_down mm h t idx w ctx s ctx2 \<Longrightarrow> same_fields ctx ctx2"
  unfolding turn_down_def using inc_fields same_fields_trans same_fields_write by blast

lemma map_turn_fields:
  assumes idx: "idx < n"
    and cont: "\<And>w ctx1. same_fields ctx1 (snd (map_region_loop e mm (3 - h) t n (Suc idx) w ctx1))"
    and down: "\<And>k s i v ctx1. h = Suc k \<Longrightarrow> same_fields ctx1 (snd (map_region_loop e mm (3 - k) s 512 i v ctx1))"
    and h: "h \<le> 3"
  shows "same_fields ctx (snd (map_region_loop e mm (3 - h) t n idx w ctx))"
proof -
  have c: "same_fields ctx1 (snd (map_continue e mm h t n idx w ctx1))" for ctx1
    using cont by (simp add: map_continue_def)
  have sub: ?thesis if td: "turn_down mm h t idx w ctx s ctx2" and k: "h = Suc k" for s ctx2 k
  proof -
    obtain i v where start: "map_subtable_start mm w (3 - k) = (i, v)" by (cases "map_subtable_start mm w (3 - k)")
    obtain r ctx3 where loop: "map_region_loop e mm (3 - k) s 512 i v ctx2 = (r, ctx3)"
      by (cases "map_region_loop e mm (3 - k) s 512 i v ctx2")
    have "same_fields ctx2 ctx3" using down [OF k, of ctx2 s i v] loop by simp
    then have "same_fields ctx ctx3" using turn_down_fields [OF td] same_fields_trans by blast
    then show ?thesis
      using turn_sub [OF idx td [unfolded k] _ start loop] h k same_fields_trans [OF _ c [of ctx3]] by auto
  qed
  note unfold = map_region_loop.simps [of e mm "3 - h" t n idx w ctx]
  show ?thesis
  proof (cases "entry_action mm h t idx w ctx")
    case (Returned act)
    note outer = this
    show ?thesis
    proof (cases act)
      case ACTION_NONE
      then show ?thesis using turn_none [OF idx] outer c by simp
    next
      case ACTION_WRITE_BLOCK_ENTRY
      show ?thesis
      proof (cases "xlat_desc e ctx (mm_attr mm) (base_pa mm + w - base_va mm) (3 - h)")
        case (Returned d)
        then show ?thesis
          using turn_write [OF idx] outer ACTION_WRITE_BLOCK_ENTRY same_fields_trans [OF same_fields_write c] by simp
      qed (simp_all add: unfold idx outer ACTION_WRITE_BLOCK_ENTRY)
    next
      case ACTION_CREATE_NEW_TABLE
      show ?thesis
      proof (cases "xlat_table_get_empty ctx")
        case None
        then show ?thesis using turn_no_table [OF idx] outer ACTION_CREATE_NEW_TABLE by simp
      next
        case (Some s)
        note some = this
        show ?thesis
        proof (cases "h = 0 \<or> xlat_table_inc_regions_count s (write_entry t idx (TABLE_DESC OR s) ctx) = None")
          case True
          then show ?thesis by (auto simp: unfold Let_def idx outer ACTION_CREATE_NEW_TABLE Some)
        next
          case False
          then obtain k ctx2 where "h = Suc k" "turn_down mm h t idx w ctx s ctx2"
            using outer ACTION_CREATE_NEW_TABLE some by (cases h) (auto simp: turn_down_def)
          then show ?thesis using sub by blast
        qed
      qed
    next
      case ACTION_RECURSE_INTO_TABLE
      show ?thesis
      proof (cases "h = 0 \<or> xlat_table_inc_regions_count (sub_of (xlat_mem ctx t idx)) ctx = None")
        case True
        then show ?thesis by (auto simp: unfold Let_def idx outer ACTION_RECURSE_INTO_TABLE)
      next
        case False
        then obtain k ctx2 where "h = Suc k" "turn_down mm h t idx w ctx (sub_of (xlat_mem ctx t idx)) ctx2"
          using outer ACTION_RECURSE_INTO_TABLE by (cases h) (auto simp: turn_down_def)
        then show ?thesis using sub by blast
      qed
    qed
  qed (simp_all add: unfold idx)
qed

lemma map_loop_fields: "h \<le> 3 \<Longrightarrow> same_fields ctx (snd (map_region_loop e mm (3 - h) t n idx w ctx))"
proof (induction h arbitrary: t n idx w ctx)
  case 0
  show ?case
  proof (induction "n - idx" arbitrary: idx w ctx rule: less_induct)
    case less
    show ?case
    proof (cases "idx < n")
      case True
      show ?thesis by (rule map_turn_fields [OF True]) (use less.hyps True in simp_all)
    next
      case False
      then show ?thesis by (subst map_region_loop.simps) simp
    qed
  qed
next
  case (Suc h)
  show ?case
  proof (induction "n - idx" arbitrary: idx w ctx rule: less_induct)
    case less
    show ?case
    proof (cases "idx < n")
      case True
      show ?thesis by (rule map_turn_fields [OF True]) (use less.hyps True Suc in simp_all)
    next
      case False
      then show ?thesis by (subst map_region_loop.simps) simp
    qed
  qed
qed

end
