(* ===== verification/Xlat_Unmap.thy ===== *)
theory Xlat_Unmap
  imports Xlat_Api
begin

text \<open>
  Unmapping a region that is mapped: no assertion of \<open>xlat_tables_unmap_region\<close> fails, the addresses of
  the region lose their translation and no other address does, and the tables that are given back to
  the pool are blank when the counts were exact.
\<close>

section \<open>What is left of a region\<close>

definition meets :: "mmap_region_t \<Rightarrow> nat \<Rightarrow> nat \<Rightarrow> bool" where
  "meets mm b s \<longleftrightarrow> b < rend mm \<and> rbase mm < b + s"

definition cut :: "mmap_region_t \<Rightarrow> nat \<Rightarrow> (uint64_t \<times> uint64_t) option \<Rightarrow> (uint64_t \<times> uint64_t) option" where
  "cut mm v x = (if rbase mm \<le> v \<and> v < rend mm then None else x)"

definition rest :: "mmap_region_t \<Rightarrow> (nat \<Rightarrow> nat \<Rightarrow> bool) \<Rightarrow> nat \<Rightarrow> nat \<Rightarrow> bool" where
  "rest mm Q b s \<longleftrightarrow> Q b s \<and> \<not> meets mm b s"

definition fewer :: "mmap_region_t \<Rightarrow> (nat \<Rightarrow> nat \<Rightarrow> int) \<Rightarrow> nat \<Rightarrow> nat \<Rightarrow> int" where
  "fewer mm K b s = K b s - ovl mm (rend mm) b s"

text \<open>
  The leaves and the counts of the tables fit the region: a leaf that meets it is within it, a leaf is
  within some region, the region is one of those counted, and no other meets its addresses.
\<close>

definition unmap_fits :: "mmap_region_t \<Rightarrow> (nat \<Rightarrow> nat \<Rightarrow> bool) \<Rightarrow> (nat \<Rightarrow> nat \<Rightarrow> int) \<Rightarrow> bool" where
  "unmap_fits mm Q K \<longleftrightarrow>
     counting K \<and> counting (fewer mm K) \<and> (\<forall>b s. Q b s \<longrightarrow> 0 < K b s)
     \<and> (\<forall>b s. Q b s \<and> meets mm b s \<longrightarrow> rbase mm \<le> b \<and> b + s \<le> rend mm)
     \<and> (\<forall>b s. rbase mm \<le> b \<and> b + s \<le> rend mm \<longrightarrow> K b s \<le> 1)"

lemma ovl_meets: "region_ok mm \<Longrightarrow> 0 < s \<Longrightarrow> ovl mm (rend mm) b s = (if meets mm b s then 1 else 0)"
  by (auto simp: ovl_def meets_def region_ok_def rend_def)

lemma not_meets_ovl: "\<not> meets mm b s \<Longrightarrow> ovl mm (rend mm) b s = 0"
  by (auto simp: ovl_def meets_def)

lemma rest_counted: "unmap_fits mm Q K \<Longrightarrow> rest mm Q b s \<Longrightarrow> 0 < fewer mm K b s"
  by (auto simp: unmap_fits_def rest_def fewer_def not_meets_ovl)

lemma cut_same: "rend mm \<le> v \<or> v < rbase mm \<Longrightarrow> cut mm v x = x"
  by (auto simp: cut_def)

section \<open>Leaves\<close>

text \<open>Where no leaf may be, there is no translation.\<close>

lemma eleaf_none:
  "eleaf Q m h d base \<Longrightarrow> (\<And>b s. base \<le> b \<Longrightarrow> b + s \<le> base + bsz h \<Longrightarrow> \<not> Q b s) \<Longrightarrow> off < bsz h \<Longrightarrow> etrans m h d off = None"
proof (induction h arbitrary: d base off)
  case 0
  then show ?case by auto
next
  case (Suc h)
  show ?case
  proof (cases "d AND DESC_MASK = TABLE_DESC")
    case True
    have i: "off div bsz h < 512" using Suc.prems(3) by (simp add: bsz_Suc less_mult_imp_div_less mult.commute)
    have "etrans m h (m (sub_of d) (off div bsz h)) (off mod bsz h) = None"
    proof (rule Suc.IH)
      show "eleaf Q m h (m (sub_of d) (off div bsz h)) (base + off div bsz h * bsz h)"
        using Suc.prems(1) True i by simp
      show "\<not> Q b s" if "base + off div bsz h * bsz h \<le> b" "b + s \<le> base + off div bsz h * bsz h + bsz h" for b s
        using that sub_range [OF i, of base h] by (intro Suc.prems(2)) auto
    qed simp
    then show ?thesis using True by simp
  next
    case False
    then show ?thesis using Suc.prems by auto
  qed
qed

lemma eleaf_cong:
  "eleaf Q m h d base \<Longrightarrow> (\<And>b s. base \<le> b \<Longrightarrow> b + s \<le> base + bsz h \<Longrightarrow> Q b s \<Longrightarrow> Q' b s) \<Longrightarrow> eleaf Q' m h d base"
proof (induction h arbitrary: d base)
  case 0
  then show ?case by auto
next
  case (Suc h)
  have "eleaf Q' m h (m (sub_of d) i) (base + i * bsz h)"
    if i: "i < 512" and d: "d AND DESC_MASK = TABLE_DESC" for i
  proof (rule Suc.IH)
    show "eleaf Q m h (m (sub_of d) i) (base + i * bsz h)" using Suc.prems(1) i d by auto
    show "Q' b s" if "base + i * bsz h \<le> b" "b + s \<le> base + i * bsz h + bsz h" "Q b s" for b s
      using that sub_range [OF i, of base h] by (intro Suc.prems(2)) auto
  qed
  moreover have "Q base (bsz (Suc h)) \<Longrightarrow> Q' base (bsz (Suc h))" using Suc.prems(2) by simp
  ultimately show ?case using Suc.prems(1) by auto
qed

lemma ecnt_weaken: "ecnt True K k m h d base \<Longrightarrow> ecnt x K k m h d base"
  by (induction h arbitrary: d base) auto

section \<open>What an entry and a table satisfy afterwards\<close>

definition blank :: "tables \<Rightarrow> uint64_t \<Rightarrow> bool" where
  "blank m t \<longleftrightarrow> (\<forall>i < 512. m t i AND DESC_MASK = INVALID_DESC)"

text \<open>Only the tables of a set, and the table that holds the entries, are written or given back.\<close>

definition release_frame :: "uint64_t \<Rightarrow> uint64_t set \<Rightarrow> xlat_ctx_t \<Rightarrow> xlat_ctx_t \<Rightarrow> bool" where
  "release_frame t S ctx ctx' \<longleftrightarrow>
     same_fields ctx ctx' \<and> pool_base ctx' \<and> free_tables ctx \<subseteq> free_tables ctx' \<and> free_tables ctx' \<subseteq> free_tables ctx \<union> S
     \<and> (\<forall>x. x \<notin> insert t S \<longrightarrow> xlat_mem ctx' x = xlat_mem ctx x) \<and> (\<forall>x. x \<notin> S \<longrightarrow> cnt ctx' x = cnt ctx x)"

definition entry_unpost ::
  "mmap_region_t \<Rightarrow> (nat \<Rightarrow> nat \<Rightarrow> bool) \<Rightarrow> (nat \<Rightarrow> nat \<Rightarrow> int) \<Rightarrow> nat \<Rightarrow> uint64_t \<Rightarrow> nat \<Rightarrow> nat \<Rightarrow> xlat_ctx_t \<Rightarrow> xlat_ctx_t \<Rightarrow> bool" where
  "entry_unpost mm Q K h t idx va ctx ctx' \<longleftrightarrow>
     (let m = xlat_mem ctx; m' = xlat_mem ctx'; d = m t idx; d' = m' t idx
      in release_frame t (esub m h d) ctx ctx' \<and> (\<forall>i. i \<noteq> idx \<longrightarrow> m' t i = m t i)
         \<and> eok m' h d' \<and> esub m' h d' \<subseteq> esub m h d - free_tables ctx' \<and> eleaf (rest mm Q) m' h d' va
         \<and> (\<forall>off < bsz h. etrans m' h d' off = cut mm (va + off) (etrans m h d off))
         \<and> (\<forall>x. ecnt x K (cnt ctx) m h d va \<longrightarrow> ecnt x (fewer mm K) (cnt ctx') m' h d' va)
         \<and> (ecnt True K (cnt ctx) m h d va \<longrightarrow> (\<forall>s \<in> free_tables ctx' - free_tables ctx. blank m' s)))"

definition entry_same :: "nat \<Rightarrow> uint64_t \<Rightarrow> nat \<Rightarrow> xlat_ctx_t \<Rightarrow> xlat_ctx_t \<Rightarrow> bool" where
  "entry_same h t i ctx ctx' \<longleftrightarrow>
     xlat_mem ctx' t i = xlat_mem ctx t i
     \<and> (\<forall>x \<in> esub (xlat_mem ctx) h (xlat_mem ctx t i). xlat_mem ctx' x = xlat_mem ctx x \<and> cnt ctx' x = cnt ctx x)"

definition table_unpost ::
  "mmap_region_t \<Rightarrow> (nat \<Rightarrow> nat \<Rightarrow> bool) \<Rightarrow> (nat \<Rightarrow> nat \<Rightarrow> int) \<Rightarrow> nat \<Rightarrow> uint64_t \<Rightarrow> nat \<Rightarrow> nat \<Rightarrow> nat \<Rightarrow> xlat_ctx_t \<Rightarrow> xlat_ctx_t \<Rightarrow> bool" where
  "table_unpost mm Q K h t n base idx ctx ctx' \<longleftrightarrow>
     (let m = xlat_mem ctx; m' = xlat_mem ctx'
      in release_frame t (tsub m h t n) ctx ctx' \<and> table_ok Q ctx' h t n base
         \<and> tsub m' h t n \<subseteq> tsub m h t n - free_tables ctx'
         \<and> (\<forall>i < n. i < idx \<longrightarrow> entry_same h t i ctx ctx')
         \<and> (\<forall>i < n. idx \<le> i \<longrightarrow> eleaf (rest mm Q) m' h (m' t i) (base + i * bsz h))
         \<and> (\<forall>off < n * bsz h. idx * bsz h \<le> off \<longrightarrow> ttrans m' h t n off = cut mm (base + off) (ttrans m h t n off))
         \<and> (\<forall>x i. i < n \<longrightarrow> idx \<le> i \<longrightarrow> ecnt x K (cnt ctx) m h (m t i) (base + i * bsz h) \<longrightarrow>
              ecnt x (fewer mm K) (cnt ctx') m' h (m' t i) (base + i * bsz h))
         \<and> ((\<forall>i < n. idx \<le> i \<longrightarrow> ecnt True K (cnt ctx) m h (m t i) (base + i * bsz h)) \<longrightarrow>
              (\<forall>s \<in> free_tables ctx' - free_tables ctx. blank m' s)))"

lemma table_unpostI:
  assumes "release_frame t (tsub (xlat_mem ctx) h t n) ctx ctx'" "table_ok Q ctx' h t n base"
    "tsub (xlat_mem ctx') h t n \<subseteq> tsub (xlat_mem ctx) h t n - free_tables ctx'"
    "\<And>i. i < n \<Longrightarrow> i < idx \<Longrightarrow> entry_same h t i ctx ctx'"
    "\<And>i. i < n \<Longrightarrow> idx \<le> i \<Longrightarrow> eleaf (rest mm Q) (xlat_mem ctx') h (xlat_mem ctx' t i) (base + i * bsz h)"
    "\<And>off. off < n * bsz h \<Longrightarrow> idx * bsz h \<le> off \<Longrightarrow>
       ttrans (xlat_mem ctx') h t n off = cut mm (base + off) (ttrans (xlat_mem ctx) h t n off)"
    "\<And>x i. i < n \<Longrightarrow> idx \<le> i \<Longrightarrow> ecnt x K (cnt ctx) (xlat_mem ctx) h (xlat_mem ctx t i) (base + i * bsz h) \<Longrightarrow>
       ecnt x (fewer mm K) (cnt ctx') (xlat_mem ctx') h (xlat_mem ctx' t i) (base + i * bsz h)"
    "\<And>s. \<forall>i < n. idx \<le> i \<longrightarrow> ecnt True K (cnt ctx) (xlat_mem ctx) h (xlat_mem ctx t i) (base + i * bsz h) \<Longrightarrow>
       s \<in> free_tables ctx' - free_tables ctx \<Longrightarrow> blank (xlat_mem ctx') s"
  shows "table_unpost mm Q K h t n base idx ctx ctx'"
  unfolding table_unpost_def Let_def using assms by (intro conjI allI impI ballI) 

text \<open>The entries of a table other than the one unmapped keep their meaning.\<close>

lemma un_other:
  assumes ok: "table_ok Q ctx h t n base" and fr: "release_frame t (esub (xlat_mem ctx) h (xlat_mem ctx t idx)) ctx ctx'"
    and i: "i < n" "idx < n" "i \<noteq> idx" and x: "x \<in> esub (xlat_mem ctx) h (xlat_mem ctx t i)"
  shows "xlat_mem ctx' x = xlat_mem ctx x \<and> cnt ctx' x = cnt ctx x"
proof -
  let ?m = "xlat_mem ctx"
  have "x \<notin> esub ?m h (?m t idx)" "x \<noteq> t" using ok i x by (auto simp: table_ok_def tok_def)
  then show ?thesis using fr by (simp add: release_frame_def)
qed

lemma un_entry_to_table:
  assumes ok: "table_ok Q ctx h t n base" and post: "entry_unpost mm Q K h t idx (base + idx * bsz h) ctx ctx'"
    and idx: "idx < n"
  shows "release_frame t (tsub (xlat_mem ctx) h t n) ctx ctx'" "table_ok Q ctx' h t n base"
    "tsub (xlat_mem ctx') h t n \<subseteq> tsub (xlat_mem ctx) h t n - free_tables ctx'"
    "\<And>off. off < n * bsz h \<Longrightarrow> ttrans (xlat_mem ctx') h t n off
       = (if off div bsz h = idx then cut mm (base + off) (ttrans (xlat_mem ctx) h t n off) else ttrans (xlat_mem ctx) h t n off)"
proof -
  let ?m = "xlat_mem ctx" and ?m' = "xlat_mem ctx'"
  have fr: "release_frame t (esub ?m h (?m t idx)) ctx ctx'"
    and new: "esub ?m' h (?m' t idx) \<subseteq> esub ?m h (?m t idx) - free_tables ctx'"
    and same: "\<And>i. i \<noteq> idx \<Longrightarrow> ?m' t i = ?m t i"
    using post by (simp_all add: entry_unpost_def Let_def)
  have sub_idx: "esub ?m h (?m t idx) \<subseteq> tsub ?m h t n" by (rule tsub_mem [OF idx])
  show "release_frame t (tsub ?m h t n) ctx ctx'" using fr sub_idx unfolding release_frame_def by auto
  have other: "esub ?m' h (?m t i) = esub ?m h (?m t i)" "eok ?m' h (?m t i) = eok ?m h (?m t i)"
      "\<And>off. off < bsz h \<Longrightarrow> etrans ?m' h (?m t i) off = etrans ?m h (?m t i) off"
      "\<And>b. eleaf Q ?m' h (?m t i) b = eleaf Q ?m h (?m t i) b"
    if "i < n" "i \<noteq> idx" for i
  proof -
    note oe = un_other [OF ok fr that(1) idx that(2), THEN conjunct1]
    show "esub ?m' h (?m t i) = esub ?m h (?m t i)" by (rule esub_frame) (rule oe)
    show "eok ?m' h (?m t i) = eok ?m h (?m t i)" by (rule eok_frame) (rule oe)
    show "etrans ?m' h (?m t i) off = etrans ?m h (?m t i) off" if "off < bsz h" for off
      by (rule etrans_frame [OF _ that]) (rule oe)
    show "eleaf Q ?m' h (?m t i) b = eleaf Q ?m h (?m t i) b" for b by (rule eleaf_frame) (rule oe)
  qed
  have free: "free_tables ctx' \<subseteq> free_tables ctx \<union> esub ?m h (?m t idx)" and tabs: "xlat_tables ctx' = xlat_tables ctx"
    using fr same_fields_simps(1) by (auto simp: release_frame_def)
  have old: "esub ?m h (?m t i) \<inter> esub ?m h (?m t j) = {}" "t \<notin> esub ?m h (?m t i)" "esub ?m h (?m t i) \<inter> free_tables ctx = {}"
      "esub ?m h (?m t i) \<subseteq> set (xlat_tables ctx)"
    if "i < n" "j < n" "i \<noteq> j" for i j
    using that ok tsub_mem [OF that(1), of ?m h t] by (auto simp: table_ok_def tok_def)
  have in_tree: "esub ?m' h (?m' t i) \<subseteq> esub ?m h (?m t i) - free_tables ctx'" if "i < n" for i
  proof (cases "i = idx")
    case True
    then show ?thesis using new by simp
  next
    case False
    then show ?thesis using that same [OF False] other(1) [OF that False] old [OF that idx False] free by auto
  qed
  show tsub: "tsub ?m' h t n \<subseteq> tsub ?m h t n - free_tables ctx'" using in_tree by (fastforce simp: tsub_def)
  have "tok ?m' h t n"
    unfolding tok_def
  proof (intro conjI allI impI)
    fix i assume i: "i < n"
    show "eok ?m' h (?m' t i)"
      using i same [of i] other(2) [of i] ok post by (cases "i = idx") (auto simp: table_ok_def tok_def entry_unpost_def Let_def)
    show "t \<notin> esub ?m' h (?m' t i)" using in_tree [OF i] ok i by (auto simp: table_ok_def tok_def)
    fix j assume j: "j < n" "i \<noteq> j"
    show "esub ?m' h (?m' t i) \<inter> esub ?m' h (?m' t j) = {}"
      using in_tree [OF i] in_tree [OF j(1)] old(1) [OF i j] by blast
  qed
  moreover have "eleaf Q ?m' h (?m' t i) (base + i * bsz h)" if i: "i < n" for i
  proof (cases "i = idx")
    case True
    have "eleaf (rest mm Q) ?m' h (?m' t idx) (base + idx * bsz h)" using post by (simp add: entry_unpost_def Let_def)
    then show ?thesis unfolding True by (rule eleaf_mono) (simp add: rest_def)
  next
    case False
    then show ?thesis using i same [OF False] other(4) [OF i False] ok by (simp add: table_ok_def)
  qed
  moreover have "t \<notin> free_tables ctx'" using ok idx free by (auto simp: table_ok_def tok_def)
  moreover have "tsub ?m' h t n \<subseteq> set (xlat_tables ctx') - free_tables ctx'"
    using tsub ok tabs by (auto simp: table_ok_def)
  ultimately show "table_ok Q ctx' h t n base" by (simp add: table_ok_def)
  show "ttrans ?m' h t n off = (if off div bsz h = idx then cut mm (base + off) (ttrans ?m h t n off) else ttrans ?m h t n off)"
    if "off < n * bsz h" for off
  proof (cases "off div bsz h = idx")
    case True
    have eq: "base + idx * bsz h + off mod bsz h = base + off" using div_mult_mod_eq [of off "bsz h"] True by simp
    have "etrans ?m' h (?m' t idx) (off mod bsz h) = cut mm (base + idx * bsz h + off mod bsz h) (etrans ?m h (?m t idx) (off mod bsz h))"
      using post by (simp add: entry_unpost_def Let_def)
    then show ?thesis using True idx unfolding eq by (simp add: ttrans_def)
  next
    case False
    have "off div bsz h < n" using that by (simp add: less_mult_imp_div_less)
    then show ?thesis using False same [OF False] other(3) [OF _ False] by (simp add: ttrans_def)
  qed
qed

lemma fewer_same: "\<not> meets mm b s \<Longrightarrow> fewer mm K b s = K b s"
  by (simp add: fewer_def not_meets_ovl)

lemma release_trans:
  assumes one: "release_frame t S ctx ctx1" and two: "release_frame t S' ctx1 ctx2" and sub: "S' \<subseteq> S"
  shows "release_frame t S ctx ctx2"
proof -
  have "same_fields ctx ctx2" using one two same_fields_trans by (auto simp: release_frame_def)
  moreover have "xlat_mem ctx2 x = xlat_mem ctx x" if "x \<notin> insert t S" for x
    using that one two sub by (auto simp: release_frame_def)
  moreover have "cnt ctx2 x = cnt ctx x" if "x \<notin> S" for x
    using that one two sub by (auto simp: release_frame_def)
  ultimately show ?thesis using one two sub by (auto simp: release_frame_def)
qed

text \<open>The other entries after one entry has been unmapped.\<close>

lemma un_other_entries:
  assumes ok: "table_ok Q ctx h t n base" and post: "entry_unpost mm Q K h t idx (base + idx * bsz h) ctx ctx'"
    and i: "i < n" "idx < n" "i \<noteq> idx"
  shows "xlat_mem ctx' t i = xlat_mem ctx t i"
    "ecnt x C (cnt ctx) (xlat_mem ctx) h (xlat_mem ctx t i) b \<Longrightarrow> ecnt x C (cnt ctx') (xlat_mem ctx') h (xlat_mem ctx' t i) b"
    "esub (xlat_mem ctx') h (xlat_mem ctx t i) = esub (xlat_mem ctx) h (xlat_mem ctx t i)"
proof -
  show t: "xlat_mem ctx' t i = xlat_mem ctx t i" using post i(3) by (simp add: entry_unpost_def Let_def)
  have fr: "release_frame t (esub (xlat_mem ctx) h (xlat_mem ctx t idx)) ctx ctx'" using post by (simp add: entry_unpost_def Let_def)
  show "ecnt x C (cnt ctx) (xlat_mem ctx) h (xlat_mem ctx t i) b \<Longrightarrow> ecnt x C (cnt ctx') (xlat_mem ctx') h (xlat_mem ctx' t i) b"
    unfolding t by (erule ecnt_frame) (rule un_other [OF ok fr i])
  show "esub (xlat_mem ctx') h (xlat_mem ctx t i) = esub (xlat_mem ctx) h (xlat_mem ctx t i)"
    by (rule esub_frame) (rule un_other [OF ok fr i, THEN conjunct1])
qed

lemma later_entry: "idx < i \<Longrightarrow> base + Suc idx * bsz h \<le> base + i * bsz h"
  using mult_le_mono1 [of "Suc idx" i "bsz h"] by simp

lemma off_cases: "off < idx * bsz h \<or> off div bsz h = idx \<or> Suc idx * bsz h \<le> off"
  by (metis bsz_pos div_less_iff_less_mult leI less_Suc_eq_le mult.commute nat_less_le)

lemma table_unpost_last:
  assumes ok: "table_ok Q ctx h t n base" and post: "entry_unpost mm Q K h t idx (base + idx * bsz h) ctx ctx'"
    and idx: "idx < n" and last: "rend mm \<le> base + Suc idx * bsz h \<or> Suc idx = n"
  shows "table_unpost mm Q K h t n base idx ctx ctx'"
proof -
  let ?m = "xlat_mem ctx" and ?m' = "xlat_mem ctx'"
  note et = un_entry_to_table [OF ok post idx]
  have beyond: "\<not> meets mm b s" if "i < n" "idx < i" "base + i * bsz h \<le> b" for i b s
    using last that later_entry [of idx i base h] by (auto simp: meets_def)
  have "eleaf (rest mm Q) ?m' h (?m' t i) (base + i * bsz h)" if i: "i < n" "idx \<le> i" for i
  proof (cases "i = idx")
    case True
    then show ?thesis using post by (simp add: entry_unpost_def Let_def)
  next
    case False
    have "eleaf Q ?m' h (?m' t i) (base + i * bsz h)" using et(2) i by (simp add: table_ok_def)
    then show ?thesis by (rule eleaf_cong) (use beyond [OF i(1)] i False in \<open>auto simp: rest_def\<close>)
  qed
  moreover have "ttrans ?m' h t n off = cut mm (base + off) (ttrans ?m h t n off)"
    if off: "off < n * bsz h" "idx * bsz h \<le> off" for off
  proof (cases "off div bsz h = idx")
    case True
    then show ?thesis using et(4) [OF off(1)] by simp
  next
    case False
    then have "Suc idx * bsz h \<le> off" using off_cases [of off idx h] off(2) by auto
    then have "rend mm \<le> base + off" using last off(1) by auto
    then show ?thesis using et(4) [OF off(1)] False by (simp add: cut_same)
  qed
  moreover have "ecnt x (fewer mm K) (cnt ctx') ?m' h (?m' t i) (base + i * bsz h)"
    if i: "i < n" "idx \<le> i" and e: "ecnt x K (cnt ctx) ?m h (?m t i) (base + i * bsz h)" for x i
  proof (cases "i = idx")
    case True
    then show ?thesis using post e by (simp add: entry_unpost_def Let_def)
  next
    case False
    show ?thesis
      by (rule ecnt_cong [OF un_other_entries(2) [OF ok post i(1) idx False e]])
        (use beyond [OF i(1)] i False fewer_same in auto)
  qed
  moreover have "entry_same h t i ctx ctx'" if i: "i < n" "i < idx" for i
  proof -
    have fr: "release_frame t (esub ?m h (?m t idx)) ctx ctx'" using post by (simp add: entry_unpost_def Let_def)
    show ?thesis
      unfolding entry_same_def
      using un_other_entries(1) [OF ok post i(1) idx] un_other [OF ok fr i(1) idx] i(2) by blast
  qed
  moreover have "blank ?m' s" if "\<forall>i < n. idx \<le> i \<longrightarrow> ecnt True K (cnt ctx) ?m h (?m t i) (base + i * bsz h)"
      "s \<in> free_tables ctx' - free_tables ctx" for s
    using that post idx by (simp add: entry_unpost_def Let_def)
  ultimately show ?thesis using et unfolding table_unpost_def Let_def by blast
qed

lemma table_unpost_step:
  assumes ok: "table_ok Q ctx h t n base" and post: "entry_unpost mm Q K h t idx (base + idx * bsz h) ctx ctx1"
    and idx: "idx < n" and two: "table_unpost mm Q K h t n base (Suc idx) ctx1 ctx2"
  shows "table_unpost mm Q K h t n base idx ctx ctx2"
proof -
  let ?m = "xlat_mem ctx" and ?m1 = "xlat_mem ctx1" and ?m2 = "xlat_mem ctx2"
  note et = un_entry_to_table [OF ok post idx]
  have fr1: "release_frame t (esub ?m h (?m t idx)) ctx ctx1" using post by (simp add: entry_unpost_def Let_def)
  have fr2: "release_frame t (tsub ?m1 h t n) ctx1 ctx2" and ok2: "table_ok Q ctx2 h t n base"
    and sub2: "tsub ?m2 h t n \<subseteq> tsub ?m1 h t n - free_tables ctx2"
    and below: "\<And>i. i < n \<Longrightarrow> i < Suc idx \<Longrightarrow> entry_same h t i ctx1 ctx2"
    and leaf2: "\<And>i. i < n \<Longrightarrow> Suc idx \<le> i \<Longrightarrow> eleaf (rest mm Q) ?m2 h (?m2 t i) (base + i * bsz h)"
    and tr2: "\<And>off. off < n * bsz h \<Longrightarrow> Suc idx * bsz h \<le> off \<Longrightarrow> ttrans ?m2 h t n off = cut mm (base + off) (ttrans ?m1 h t n off)"
    and cnt2: "\<And>x i. i < n \<Longrightarrow> Suc idx \<le> i \<Longrightarrow> ecnt x K (cnt ctx1) ?m1 h (?m1 t i) (base + i * bsz h) \<Longrightarrow>
       ecnt x (fewer mm K) (cnt ctx2) ?m2 h (?m2 t i) (base + i * bsz h)"
    and blank2: "(\<forall>i < n. Suc idx \<le> i \<longrightarrow> ecnt True K (cnt ctx1) ?m1 h (?m1 t i) (base + i * bsz h)) \<Longrightarrow>
       (\<forall>s \<in> free_tables ctx2 - free_tables ctx1. blank ?m2 s)"
    using two unfolding table_unpost_def Let_def by blast+
  have at_idx: "?m2 t idx = ?m1 t idx" "\<And>x. x \<in> esub ?m1 h (?m1 t idx) \<Longrightarrow> ?m2 x = ?m1 x \<and> cnt ctx2 x = cnt ctx1 x"
    using below [OF idx] by (auto simp: entry_same_def)
  have c1: "release_frame t (tsub ?m h t n) ctx ctx2" by (rule release_trans [OF et(1) fr2]) (use et(3) in blast)
  have c3: "tsub ?m2 h t n \<subseteq> tsub ?m h t n - free_tables ctx2" using sub2 et(3) by blast
  have c4: "entry_same h t i ctx ctx2" if i: "i < n" "i < idx" for i
  proof -
    have ne: "i \<noteq> idx" using i(2) by simp
    have b: "?m2 t i = ?m1 t i" "\<And>x. x \<in> esub ?m1 h (?m1 t i) \<Longrightarrow> ?m2 x = ?m1 x \<and> cnt ctx2 x = cnt ctx1 x"
      using below [OF i(1)] i(2) by (auto simp: entry_same_def)
    show ?thesis
      unfolding entry_same_def
      using un_other_entries(1,3) [OF ok post i(1) idx ne] un_other [OF ok fr1 i(1) idx ne] b by auto
  qed
  have c5: "eleaf (rest mm Q) ?m2 h (?m2 t i) (base + i * bsz h)" if i: "i < n" "idx \<le> i" for i
  proof (cases "i = idx")
    case True
    have "eleaf (rest mm Q) ?m1 h (?m1 t idx) (base + idx * bsz h)" using post by (simp add: entry_unpost_def Let_def)
    moreover have "eleaf (rest mm Q) ?m2 h (?m1 t idx) b = eleaf (rest mm Q) ?m1 h (?m1 t idx) b" for b
      by (rule eleaf_frame) (use at_idx(2) in blast)
    ultimately show ?thesis using at_idx(1) True by simp
  next
    case False
    then show ?thesis using leaf2 i by simp
  qed
  have c6: "ttrans ?m2 h t n off = cut mm (base + off) (ttrans ?m h t n off)"
    if off: "off < n * bsz h" "idx * bsz h \<le> off" for off
  proof (cases "off div bsz h = idx")
    case True
    have "etrans ?m2 h (?m1 t idx) (off mod bsz h) = etrans ?m1 h (?m1 t idx) (off mod bsz h)"
      by (rule etrans_frame) (use at_idx(2) in auto)
    then have "ttrans ?m2 h t n off = ttrans ?m1 h t n off" using True at_idx(1) by (simp add: ttrans_def)
    then show ?thesis using et(4) [OF off(1)] True by simp
  next
    case False
    then have "Suc idx * bsz h \<le> off" using off_cases [of off idx h] off(2) by auto
    then show ?thesis using tr2 [OF off(1)] et(4) [OF off(1)] False by simp
  qed
  have c7: "ecnt x (fewer mm K) (cnt ctx2) ?m2 h (?m2 t i) (base + i * bsz h)"
    if i: "i < n" "idx \<le> i" and e: "ecnt x K (cnt ctx) ?m h (?m t i) (base + i * bsz h)" for x i
  proof (cases "i = idx")
    case True
    have "ecnt x (fewer mm K) (cnt ctx1) ?m1 h (?m1 t idx) (base + idx * bsz h)"
      using post e True by (simp add: entry_unpost_def Let_def)
    then have "ecnt x (fewer mm K) (cnt ctx2) ?m2 h (?m1 t idx) (base + idx * bsz h)"
      by (rule ecnt_frame) (use at_idx(2) in blast)
    then show ?thesis using at_idx(1) True by simp
  next
    case False
    then show ?thesis using cnt2 [OF i(1)] un_other_entries(2) [OF ok post i(1) idx False e] i(2) by simp
  qed
  have c8: "blank ?m2 s" if ex: "\<forall>i < n. idx \<le> i \<longrightarrow> ecnt True K (cnt ctx) ?m h (?m t i) (base + i * bsz h)"
      and s: "s \<in> free_tables ctx2 - free_tables ctx" for s
  proof (cases "s \<in> free_tables ctx1")
    case True
    have "blank ?m1 s" using post ex idx s True by (simp add: entry_unpost_def Let_def)
    moreover have "s \<notin> insert t (tsub ?m1 h t n)" using True et(2) by (auto simp: table_ok_def)
    then have "?m2 s = ?m1 s" using fr2 by (simp add: release_frame_def)
    ultimately show ?thesis by (simp add: blank_def)
  next
    case False
    have "ecnt True K (cnt ctx1) ?m1 h (?m1 t i) (base + i * bsz h)" if "i < n" "Suc idx \<le> i" for i
      using that ex by (intro un_other_entries(2) [OF ok post _ idx]) auto
    then show ?thesis using blank2 s False by blast
  qed
  show ?thesis by (rule table_unpostI [OF c1 ok2 c3 c4 c5 c6 c7 c8])
qed

section \<open>The loop\<close>

definition unmap_pre ::
  "mmap_region_t \<Rightarrow> (nat \<Rightarrow> nat \<Rightarrow> bool) \<Rightarrow> (nat \<Rightarrow> nat \<Rightarrow> int) \<Rightarrow> nat \<Rightarrow> uint64_t \<Rightarrow> nat \<Rightarrow> nat \<Rightarrow> nat \<Rightarrow> uintptr_t \<Rightarrow> xlat_ctx_t \<Rightarrow> bool" where
  "unmap_pre mm Q K h t n base idx w ctx \<longleftrightarrow>
     pool_base ctx \<and> table_ok Q ctx h t n base \<and> bsz h dvd base \<and> idx < n \<and> base + n * bsz h \<le> 2 ^ 48
     \<and> unat w = base + idx * bsz h \<and> unat w < rend mm \<and> rbase mm < unat w + bsz h
     \<and> (\<forall>i < n. idx \<le> i \<longrightarrow> ecnt False K (cnt ctx) (xlat_mem ctx) h (xlat_mem ctx t i) (base + i * bsz h))"

definition unmap_spec :: "mmap_region_t \<Rightarrow> (nat \<Rightarrow> nat \<Rightarrow> bool) \<Rightarrow> (nat \<Rightarrow> nat \<Rightarrow> int) \<Rightarrow> nat \<Rightarrow> bool" where
  "unmap_spec mm Q K h \<longleftrightarrow>
     (\<forall>t n base idx w ctx. unmap_pre mm Q K h t n base idx w ctx \<longrightarrow>
        (\<exists>ctx'. unmap_region_loop mm (3 - h) t n idx w ctx = (Returned (), ctx')
           \<and> table_unpost mm Q K h t n base idx ctx ctx'))"

definition unmap_continue ::
  "mmap_region_t \<Rightarrow> nat \<Rightarrow> uint64_t \<Rightarrow> nat \<Rightarrow> nat \<Rightarrow> uintptr_t \<Rightarrow> xlat_ctx_t \<Rightarrow> unit outcome \<times> xlat_ctx_t" where
  "unmap_continue mm h t n idx w ctx =
     (if region_end_va mm \<le> w + XLAT_BLOCK_SIZE (3 - h) then (Returned (), ctx)
      else unmap_region_loop mm (3 - h) t n (Suc idx) (w + XLAT_BLOCK_SIZE (3 - h)) ctx)"

definition un_entry_spec :: "mmap_region_t \<Rightarrow> (nat \<Rightarrow> nat \<Rightarrow> bool) \<Rightarrow> (nat \<Rightarrow> nat \<Rightarrow> int) \<Rightarrow> nat \<Rightarrow> bool" where
  "un_entry_spec mm Q K h \<longleftrightarrow>
     (\<forall>t n base idx w ctx. unmap_pre mm Q K h t n base idx w ctx \<longrightarrow>
        (\<exists>ctx'. unmap_region_loop mm (3 - h) t n idx w ctx = unmap_continue mm h t n idx w ctx'
           \<and> entry_unpost mm Q K h t idx (unat w) ctx ctx'))"

text \<open>Whether the loop stops, on page-aligned addresses.\<close>

lemma region_reaches:
  assumes mm: "region_ok mm" and w: "4096 dvd unat w + bsz h" "unat (w + XLAT_BLOCK_SIZE (3 - h)) = unat w + bsz h"
  shows "region_end_va mm \<le> w + XLAT_BLOCK_SIZE (3 - h) \<longleftrightarrow> rend mm \<le> unat w + bsz h"
proof -
  have "4096 dvd rend mm" using mm by (simp add: region_ok_def rend_def)
  then have "rend mm \<le> unat w + bsz h + 1 \<longleftrightarrow> rend mm \<le> unat w + bsz h"
    using w(1) by (elim dvdE) auto
  then show ?thesis by (auto simp: word_le_nat_alt region_end_unat [OF mm] w(2))
qed

lemma un_loop_from_entry:
  assumes mm: "region_ok mm" and h: "h \<le> 3" and entry: "un_entry_spec mm Q K h"
  shows "unmap_spec mm Q K h"
  unfolding unmap_spec_def
proof (intro allI impI)
  fix t n base idx w ctx
  assume "unmap_pre mm Q K h t n base idx w ctx"
  then show "\<exists>ctx'. unmap_region_loop mm (3 - h) t n idx w ctx = (Returned (), ctx')
      \<and> table_unpost mm Q K h t n base idx ctx ctx'"
  proof (induction "n - idx" arbitrary: idx w ctx rule: less_induct)
    case less
    note pre = less.prems
    have w: "unat w = base + idx * bsz h" "idx < n" "unat w < rend mm" "base + n * bsz h \<le> 2 ^ 48" "bsz h dvd base"
      and ok: "table_ok Q ctx h t n base" "pool_base ctx"
      using pre by (simp_all add: unmap_pre_def)
    have top: "unat w + bsz h \<le> base + n * bsz h" using w mult_le_mono1 [of "Suc idx" n "bsz h"] by simp
    obtain ctx1 where turn: "unmap_region_loop mm (3 - h) t n idx w ctx = unmap_continue mm h t n idx w ctx1"
      and post: "entry_unpost mm Q K h t idx (unat w) ctx ctx1"
      using entry pre unfolding un_entry_spec_def by blast
    note post' = post [unfolded w(1)]
    have next_va: "unat (w + XLAT_BLOCK_SIZE (3 - h)) = unat w + bsz h"
      using top w h by (intro unat_add_block) auto
    have "4096 dvd unat w + bsz h" using w dvd_trans [OF bsz_page [of h]] bsz_page [of h] by (simp add: dvd_mult)
    note stop = region_reaches [OF mm this next_va]
    show ?case
    proof (cases "rend mm \<le> unat w + bsz h \<or> Suc idx = n")
      case True
      then have "unmap_continue mm h t n idx w ctx1 = (Returned (), ctx1)"
        using stop by (auto simp: unmap_continue_def unmap_region_loop.simps [of mm "3 - h" t "Suc idx" "Suc idx"])
      moreover have "table_unpost mm Q K h t n base idx ctx ctx1"
        by (rule table_unpost_last [OF ok(1) post' w(2)]) (use True w(1) in auto)
      ultimately show ?thesis using turn by simp
    next
      case False
      note et = un_entry_to_table [OF ok(1) post' w(2)]
      have "unmap_pre mm Q K h t n base (Suc idx) (w + XLAT_BLOCK_SIZE (3 - h)) ctx1"
        unfolding unmap_pre_def
      proof (intro conjI allI impI)
        show "pool_base ctx1" using et(1) by (simp add: release_frame_def)
        have "rbase mm < unat w + bsz h" using pre by (simp add: unmap_pre_def)
        then show "rbase mm < unat (w + XLAT_BLOCK_SIZE (3 - h)) + bsz h" by (simp add: next_va)
        fix i assume i: "i < n" "Suc idx \<le> i"
        show "ecnt False K (cnt ctx1) (xlat_mem ctx1) h (xlat_mem ctx1 t i) (base + i * bsz h)"
          by (rule un_other_entries(2) [OF ok(1) post' i(1) w(2)]) (use pre i in \<open>auto simp: unmap_pre_def\<close>)
      qed (use False w et(2) next_va in auto)
      then obtain ctx2 where ctx2: "unmap_region_loop mm (3 - h) t n (Suc idx) (w + XLAT_BLOCK_SIZE (3 - h)) ctx1 = (Returned (), ctx2)"
          "table_unpost mm Q K h t n base (Suc idx) ctx1 ctx2"
        using less.hyps [of "Suc idx"] w(2) by (metis diff_less_mono2 lessI)
      then show ?thesis
        using turn stop False table_unpost_step [OF ok(1) post' w(2) ctx2(2)] by (auto simp: unmap_continue_def)
    qed
  qed
qed

end
