(* ===== verification/Xlat_Unmap_Entry.thy ===== *)
theory Xlat_Unmap_Entry
  imports Xlat_Unmap
begin

text \<open>
  One turn of the unmapping loop: a leaf of the region is invalidated, a table is entered, counts one
  region less, and is given back to the pool when it counts none.
\<close>

section \<open>One turn, by action\<close>

abbreviation (input) un_action :: "mmap_region_t \<Rightarrow> nat \<Rightarrow> uint64_t \<Rightarrow> nat \<Rightarrow> uintptr_t \<Rightarrow> xlat_ctx_t \<Rightarrow> action_t outcome" where
  "un_action mm h t idx w ctx \<equiv>
     xlat_tables_unmap_region_action mm w (w + XLAT_BLOCK_SIZE (3 - h) - 1) (3 - h) (xlat_mem ctx t idx AND DESC_MASK)"

lemma un_turn_write:
  "idx < n \<Longrightarrow> un_action mm h t idx w ctx = Returned ACTION_WRITE_BLOCK_ENTRY \<Longrightarrow>
     unmap_region_loop mm (3 - h) t n idx w ctx = unmap_continue mm h t n idx w (write_entry t idx INVALID_DESC ctx)"
  by (subst unmap_region_loop.simps) (simp add: unmap_continue_def)

lemma un_turn_sub:
  assumes "idx < n" "un_action mm (Suc h) t idx w ctx = Returned ACTION_RECURSE_INTO_TABLE" "h < 3"
    "map_subtable_start mm w (3 - h) = (i, v)" "s = sub_of (xlat_mem ctx t idx)"
    "unmap_region_loop mm (3 - h) s 512 i v ctx = (Returned (), ctx3)"
    "xlat_table_dec_regions_count s ctx3 = Some ctx4"
  shows "unmap_region_loop mm (3 - Suc h) t n idx w ctx
    = unmap_continue mm (Suc h) t n idx w
        (if xlat_table_is_empty s ctx4 = Some True then write_entry t idx INVALID_DESC ctx4 else ctx4)"
proof -
  have level: "3 - Suc h < 3" "Suc (3 - Suc h) = 3 - h" using assms(3) by simp_all
  show ?thesis
    using assms level by (subst unmap_region_loop.simps) (simp add: unmap_continue_def Let_def)
qed

lemma un_action_full:
  assumes "region_ok mm" "h \<le> 3" "unat w + bsz h \<le> 2 ^ 48" "rbase mm \<le> unat w" "unat w + bsz h \<le> rend mm"
  shows "h = 0 \<Longrightarrow> xlat_tables_unmap_region_action mm w (w + XLAT_BLOCK_SIZE (3 - h) - 1) (3 - h) PAGE_DESC = Returned ACTION_WRITE_BLOCK_ENTRY"
    "0 < h \<Longrightarrow> xlat_tables_unmap_region_action mm w (w + XLAT_BLOCK_SIZE (3 - h) - 1) (3 - h) TABLE_DESC = Returned ACTION_RECURSE_INTO_TABLE"
    "0 < h \<Longrightarrow> xlat_tables_unmap_region_action mm w (w + XLAT_BLOCK_SIZE (3 - h) - 1) (3 - h) BLOCK_DESC = Returned ACTION_WRITE_BLOCK_ENTRY"
proof -
  have cov: "base_va mm \<le> w \<and> region_end_va mm \<ge> w + XLAT_BLOCK_SIZE (3 - h) - 1"
    using entry_covered [OF assms(1-3)] assms(4,5) by simp
  have zero: "3 - h = 3 \<longleftrightarrow> h = 0" using assms(2) by auto
  show "h = 0 \<Longrightarrow> xlat_tables_unmap_region_action mm w (w + XLAT_BLOCK_SIZE (3 - h) - 1) (3 - h) PAGE_DESC = Returned ACTION_WRITE_BLOCK_ENTRY"
    "0 < h \<Longrightarrow> xlat_tables_unmap_region_action mm w (w + XLAT_BLOCK_SIZE (3 - h) - 1) (3 - h) TABLE_DESC = Returned ACTION_RECURSE_INTO_TABLE"
    "0 < h \<Longrightarrow> xlat_tables_unmap_region_action mm w (w + XLAT_BLOCK_SIZE (3 - h) - 1) (3 - h) BLOCK_DESC = Returned ACTION_WRITE_BLOCK_ENTRY"
    using cov zero by (simp_all add: xlat_tables_unmap_region_action_def)
qed

lemma un_action_table:
  assumes "region_ok mm" "0 < h" "h \<le> 3" "unat w + bsz h \<le> 2 ^ 48" "rbase mm < unat w + bsz h"
  shows "xlat_tables_unmap_region_action mm w (w + XLAT_BLOCK_SIZE (3 - h) - 1) (3 - h) TABLE_DESC = Returned ACTION_RECURSE_INTO_TABLE"
proof -
  have "base_va mm \<le> w + XLAT_BLOCK_SIZE (3 - h) - 1" using assms by (intro entry_touched)
  moreover have "3 - h < 3" using assms by simp
  ultimately show ?thesis by (simp add: xlat_tables_unmap_region_action_def Let_def)
qed

section \<open>Counting one region less\<close>

lemma write_entry_free [simp]: "free_tables (write_entry t i d ctx) = free_tables ctx"
  by (simp add: free_tables_def write_entry_def)

lemma dec_regions:
  assumes pool: "pool_base ctx" and s: "s \<in> set (xlat_tables ctx)" "0 < cnt ctx s"
  obtains ctx' where "xlat_table_dec_regions_count s ctx = Some ctx'" "same_fields ctx ctx'" "xlat_mem ctx' = xlat_mem ctx"
    "cnt ctx' s = cnt ctx s - 1" "\<And>x. x \<noteq> s \<Longrightarrow> cnt ctx' x = cnt ctx x" "pool_base ctx'"
    "free_tables ctx' = free_tables ctx \<union> (if cnt ctx s = 1 then {s} else {})"
    "xlat_table_is_empty s ctx' = Some (cnt ctx s = 1)"
proof -
  obtain k where k: "k < length (xlat_tables ctx)" "s = xlat_tables ctx ! k" using s(1) by (auto simp: in_set_conv_nth)
  have dist: "distinct (xlat_tables ctx)" using pool by (simp add: pool_base_def)
  have ck: "cnt ctx s = tables_mapped_regions ctx k" using k dist by (simp add: cnt_def index_of_nth)
  define ctx' where "ctx' = ctx\<lparr>tables_mapped_regions := (tables_mapped_regions ctx)(k := tables_mapped_regions ctx k - 1)\<rparr>"
  have 1: "xlat_table_dec_regions_count s ctx = Some ctx'"
    using k dist by (simp add: xlat_table_dec_regions_count_def xlat_table_add_regions_count_def xlat_table_get_index_def
      index_of_nth ctx'_def)
  have 2: "same_fields ctx ctx'" by (simp add: same_fields_def ctx'_def)
  have 3: "xlat_mem ctx' = xlat_mem ctx" by (simp add: ctx'_def)
  have 4: "cnt ctx' s = cnt ctx s - 1" using k dist by (simp add: cnt_def ctx'_def index_of_nth)
  have 5: "cnt ctx' x = cnt ctx x" if "x \<noteq> s" for x
    using that k by (auto simp: cnt_def ctx'_def dest: index_of_Some split: option.split)
  have 6: "pool_base ctx'" using pool s(2) ck by (auto simp: pool_base_def ctx'_def)
  have 7: "free_tables ctx' = free_tables ctx \<union> (if cnt ctx s = 1 then {s} else {})"
  proof (rule set_eqI)
    fix x
    have t: "xlat_tables ctx' = xlat_tables ctx" by (simp add: ctx'_def)
    show "x \<in> free_tables ctx' \<longleftrightarrow> x \<in> free_tables ctx \<union> (if cnt ctx s = 1 then {s} else {})"
      using free_cnt [OF 6, of x] free_cnt [OF pool, of x] 4 5 [of x] s t by (cases "x = s") auto
  qed
  have 8: "xlat_table_is_empty s ctx' = Some (cnt ctx s = 1)"
    using k dist ck by (auto simp: xlat_table_is_empty_def xlat_table_get_index_def index_of_nth ctx'_def)
  show ?thesis by (rule that [OF 1 2 3 4 5 6 7 8])
qed

section \<open>Leaf entries\<close>

lemma entry_unpost_leaf:
  assumes pool: "pool_base ctx" and mm: "region_ok mm" and fits: "unmap_fits mm Q K" and lf: "leaf h (xlat_mem ctx t idx)"
    and cov: "rbase mm \<le> va" "va + bsz h \<le> rend mm"
  shows "entry_unpost mm Q K h t idx va ctx (write_entry t idx INVALID_DESC ctx)"
proof -
  let ?ctx = "write_entry t idx INVALID_DESC ctx"
  have f: "free_tables ?ctx = free_tables ctx" by (simp add: free_tables_def write_entry_def)
  have p: "pool_base ?ctx" using pool by (simp add: pool_base_def write_entry_def)
  have m: "meets mm va (bsz h)"
    using cov bsz_pos [of h] unfolding meets_def by linarith
  have zero: "fewer mm K va (bsz h) = 0"
  proof -
    have "K va (bsz h) \<le> 1" "0 \<le> fewer mm K va (bsz h)" using fits cov unfolding unmap_fits_def counting_def by blast+
    then show ?thesis using ovl_meets [OF mm bsz_pos, of va h] m by (simp add: fewer_def)
  qed
  have "cut mm (va + off) x = None" if "off < bsz h" for off x using that cov by (simp add: cut_def)
  then show ?thesis
    using lf p f zero esub_leaf [OF lf, of "xlat_mem ctx"]
    unfolding entry_unpost_def Let_def release_frame_def
    by (auto simp: etrans_leaf ecnt_invalid) (simp_all add: write_entry_def ecnt_invalid)
qed

section \<open>Going down one level\<close>

lemma table_unpost_zero:
  assumes post: "table_unpost mm Q K h t n base idx ctx ctx'" and ok: "table_ok Q ctx h t n base"
    and below: "\<And>x. x < base + idx * bsz h \<Longrightarrow> idx = 0 \<or> x < rbase mm"
  shows "table_unpost mm Q K h t n base 0 ctx ctx'"
proof -
  let ?m = "xlat_mem ctx" and ?m' = "xlat_mem ctx'"
  have p: "release_frame t (tsub ?m h t n) ctx ctx'" "table_ok Q ctx' h t n base"
      "tsub ?m' h t n \<subseteq> tsub ?m h t n - free_tables ctx'"
    and same: "\<And>i. i < n \<Longrightarrow> i < idx \<Longrightarrow> entry_same h t i ctx ctx'"
    and leaf: "\<And>i. i < n \<Longrightarrow> idx \<le> i \<Longrightarrow> eleaf (rest mm Q) ?m' h (?m' t i) (base + i * bsz h)"
    and tr: "\<And>off. off < n * bsz h \<Longrightarrow> idx * bsz h \<le> off \<Longrightarrow> ttrans ?m' h t n off = cut mm (base + off) (ttrans ?m h t n off)"
    and c: "\<And>x i. i < n \<Longrightarrow> idx \<le> i \<Longrightarrow> ecnt x K (cnt ctx) ?m h (?m t i) (base + i * bsz h) \<Longrightarrow>
       ecnt x (fewer mm K) (cnt ctx') ?m' h (?m' t i) (base + i * bsz h)"
    and b: "(\<forall>i < n. idx \<le> i \<longrightarrow> ecnt True K (cnt ctx) ?m h (?m t i) (base + i * bsz h)) \<Longrightarrow>
       (\<forall>s \<in> free_tables ctx' - free_tables ctx. blank ?m' s)"
    using post unfolding table_unpost_def Let_def by blast+
  have out: "\<not> meets mm b s" if "i < idx" "b + s \<le> base + i * bsz h + bsz h" for i b s
  proof -
    have "b + s \<le> base + idx * bsz h" "0 < idx" using that later_entry [of i idx base h] by auto
    then have "b + s \<le> rbase mm \<or> b + s = 0" using below [of "b + s - 1"] by linarith
    then show ?thesis by (auto simp: meets_def)
  qed
  show ?thesis
  proof (rule table_unpostI [OF p])
    show "entry_same h t i ctx ctx'" if "i < 0" for i using that by simp
    fix i assume i: "i < n"
    show "eleaf (rest mm Q) ?m' h (?m' t i) (base + i * bsz h)"
    proof (cases "idx \<le> i")
      case True
      then show ?thesis using leaf i by simp
    next
      case False
      have "eleaf Q ?m' h (?m' t i) (base + i * bsz h)" using p(2) i by (simp add: table_ok_def)
      then show ?thesis by (rule eleaf_cong) (use out [of i] False in \<open>auto simp: rest_def\<close>)
    qed
    fix x assume e: "ecnt x K (cnt ctx) ?m h (?m t i) (base + i * bsz h)"
    show "ecnt x (fewer mm K) (cnt ctx') ?m' h (?m' t i) (base + i * bsz h)"
    proof (cases "idx \<le> i")
      case True
      then show ?thesis using c i e by simp
    next
      case False
      have es: "entry_same h t i ctx ctx'" using same i False by simp
      have "ecnt x K (cnt ctx') ?m' h (?m t i) (base + i * bsz h)"
        by (rule ecnt_frame [OF e]) (use es in \<open>auto simp: entry_same_def\<close>)
      then have "ecnt x K (cnt ctx') ?m' h (?m' t i) (base + i * bsz h)" using es by (simp add: entry_same_def)
      then show ?thesis by (rule ecnt_cong) (use out [of i] False fewer_same in auto)
    qed
  next
    fix off assume off: "off < n * bsz h"
    show "ttrans ?m' h t n off = cut mm (base + off) (ttrans ?m h t n off)"
    proof (cases "idx * bsz h \<le> off")
      case True
      then show ?thesis using tr off by simp
    next
      case False
      let ?i = "off div bsz h"
      have i: "?i < n" "?i < idx" using off False by (simp_all add: less_mult_imp_div_less)
      note es = same [OF i]
      have "etrans ?m' h (?m t ?i) (off mod bsz h) = etrans ?m h (?m t ?i) (off mod bsz h)"
        by (rule etrans_frame) (use es in \<open>auto simp: entry_same_def\<close>)
      then have "ttrans ?m' h t n off = ttrans ?m h t n off" using i(1) es by (simp add: ttrans_def entry_same_def)
      moreover have "base + off < rbase mm" using below [of "base + off"] False by auto
      ultimately show ?thesis by (simp add: cut_same)
    qed
  next
    fix s assume "\<forall>i < n. 0 \<le> i \<longrightarrow> ecnt True K (cnt ctx) ?m h (?m t i) (base + i * bsz h)" "s \<in> free_tables ctx' - free_tables ctx"
    then show "blank ?m' s" using b by blast
  qed
qed

lemma un_sub_map:
  assumes mm: "region_ok mm" and h: "h < 3" and spec: "unmap_spec mm Q K h"
    and s: "pool_base ctx" "table_ok Q ctx h s 512 (unat w)"
    and w: "bsz (Suc h) dvd unat w" "unat w + bsz (Suc h) \<le> 2 ^ 48" "unat w < rend mm" "rbase mm < unat w + bsz (Suc h)"
    and c: "\<And>i. i < 512 \<Longrightarrow> ecnt False K (cnt ctx) (xlat_mem ctx) h (xlat_mem ctx s i) (unat w + i * bsz h)"
  obtains i v ctx3 where "map_subtable_start mm w (3 - h) = (i, v)"
    "unmap_region_loop mm (3 - h) s 512 i v ctx = (Returned (), ctx3)" "table_unpost mm Q K h s 512 (unat w) 0 ctx ctx3"
proof -
  have wh: "bsz h dvd unat w" using w(1) bsz_mult [of h "Suc h"] dvd_trans by auto
  obtain i v where i: "map_subtable_start mm w (3 - h) = (i, v)" "i < 512" "unat v = unat w + i * bsz h" "unat v < rend mm"
      "rbase mm < unat v + bsz h" "\<And>x. x < unat w + i * bsz h \<Longrightarrow> i = 0 \<or> x < rbase mm"
    by (rule subtable_start [of h w 512 mm]) (use h wh w mm in \<open>auto simp: bsz_Suc\<close>)
  have "unmap_pre mm Q K h s 512 (unat w) i v ctx"
    using s wh i w c by (simp add: unmap_pre_def bsz_Suc)
  then obtain ctx3 where r: "unmap_region_loop mm (3 - h) s 512 i v ctx = (Returned (), ctx3)"
      "table_unpost mm Q K h s 512 (unat w) i ctx ctx3"
    using spec unfolding unmap_spec_def by blast
  have "table_unpost mm Q K h s 512 (unat w) 0 ctx ctx3"
    by (rule table_unpost_zero [OF r(2) s(2)]) (rule i(6))
  then show ?thesis using that i(1) r(1) by blast
qed

text \<open>The table entered, its count and its place in the tree.\<close>

lemma un_table_facts:
  assumes pre: "unmap_pre mm Q K (Suc h) t n base idx w ctx" and table: "xlat_mem ctx t idx AND DESC_MASK = TABLE_DESC"
  defines "s \<equiv> sub_of (xlat_mem ctx t idx)"
  shows "esub (xlat_mem ctx) (Suc h) (xlat_mem ctx t idx) = insert s (tsub (xlat_mem ctx) h s 512)"
    "table_ok Q ctx h s 512 (unat w)" "s \<in> set (xlat_tables ctx)" "s \<notin> tsub (xlat_mem ctx) h s 512"
    "t \<notin> insert s (tsub (xlat_mem ctx) h s 512)" "K (unat w) (bsz (Suc h)) \<le> cnt ctx s"
    "\<And>i. i < 512 \<Longrightarrow> ecnt False K (cnt ctx) (xlat_mem ctx) h (xlat_mem ctx s i) (unat w + i * bsz h)"
proof -
  let ?m = "xlat_mem ctx"
  have p: "table_ok Q ctx (Suc h) t n base" "idx < n" and w: "unat w = base + idx * bsz (Suc h)"
    and e: "ecnt False K (cnt ctx) ?m (Suc h) (?m t idx) (unat w)"
    using pre by (auto simp: unmap_pre_def)
  show sub: "esub ?m (Suc h) (?m t idx) = insert s (tsub ?m h s 512)" using table by (simp add: esub_Suc s_def del: esub.simps)
  have in_tab: "insert s (tsub ?m h s 512) \<subseteq> set (xlat_tables ctx) - free_tables ctx"
    using p(1) tsub_mem [OF p(2), of ?m "Suc h" t] unfolding sub by (auto simp: table_ok_def)
  then show "s \<in> set (xlat_tables ctx)" by simp
  show "t \<notin> insert s (tsub ?m h s 512)" using p sub unfolding table_ok_def tok_def by auto
  have tok_s: "tok ?m h s 512"
    using p table unfolding table_ok_def tok_def [of _ "Suc h"] eok_Suc s_def by blast
  then show "s \<notin> tsub ?m h s 512" by (auto simp: tok_def tsub_def)
  have "eleaf Q ?m h (?m s i) (unat w + i * bsz h)" if "i < 512" for i
    using p table that unfolding table_ok_def s_def w by auto
  then show "table_ok Q ctx h s 512 (unat w)" using tok_s in_tab by (auto simp: table_ok_def)
  show "K (unat w) (bsz (Suc h)) \<le> cnt ctx s" using e table by (simp add: s_def)
  show "ecnt False K (cnt ctx) ?m h (?m s i) (unat w + i * bsz h)" if "i < 512" for i
    using e table that by (simp add: s_def)
qed

lemma un_entry_keep:
  assumes pre: "unmap_pre mm Q K (Suc h) t n base idx w ctx" and table: "xlat_mem ctx t idx AND DESC_MASK = TABLE_DESC"
    and s: "s = sub_of (xlat_mem ctx t idx)" and post: "table_unpost mm Q K h s 512 (unat w) 0 ctx ctx3"
    and c4: "same_fields ctx3 ctx4" "xlat_mem ctx4 = xlat_mem ctx3" "cnt ctx4 s = cnt ctx s - 1" "\<And>x. x \<noteq> s \<Longrightarrow> cnt ctx4 x = cnt ctx3 x"
      "pool_base ctx4" "free_tables ctx4 = free_tables ctx3"
    and met: "ovl mm (rend mm) (unat w) (bsz (Suc h)) = 1"
  shows "entry_unpost mm Q K (Suc h) t idx (unat w) ctx ctx4"
proof -
  let ?m = "xlat_mem ctx" and ?m4 = "xlat_mem ctx4"
  note tf = un_table_facts [OF pre table, folded s]
  have fr: "release_frame s (tsub ?m h s 512) ctx ctx3" and ok3: "table_ok Q ctx3 h s 512 (unat w)"
    and sub3: "tsub ?m4 h s 512 \<subseteq> tsub ?m h s 512 - free_tables ctx4"
    and leaf3: "\<And>i. i < 512 \<Longrightarrow> eleaf (rest mm Q) ?m4 h (?m4 s i) (unat w + i * bsz h)"
    and tr3: "\<And>off. off < 512 * bsz h \<Longrightarrow> ttrans ?m4 h s 512 off = cut mm (unat w + off) (ttrans ?m h s 512 off)"
    and c3: "\<And>x i. i < 512 \<Longrightarrow> ecnt x K (cnt ctx) ?m h (?m s i) (unat w + i * bsz h) \<Longrightarrow>
       ecnt x (fewer mm K) (cnt ctx3) ?m4 h (?m4 s i) (unat w + i * bsz h)"
    and b3: "(\<forall>i < 512. ecnt True K (cnt ctx) ?m h (?m s i) (unat w + i * bsz h)) \<Longrightarrow> \<forall>s \<in> free_tables ctx4 - free_tables ctx. blank ?m4 s"
    using post unfolding table_unpost_def Let_def c4(2,6) by auto
  have t4: "?m4 t = ?m t" using fr tf(5) by (simp add: release_frame_def c4(2))
  have d4: "?m4 t idx AND DESC_MASK = TABLE_DESC" "sub_of (?m4 t idx) = s" using t4 table s by simp_all
  have "release_frame t (insert s (tsub ?m h s 512)) ctx ctx4"
    using fr c4 same_fields_trans unfolding release_frame_def by auto
  moreover have "eok ?m4 (Suc h) (?m4 t idx)" using ok3 d4 by (simp add: eok_Suc table_ok_def c4(2) del: eok.simps)
  moreover have "esub ?m4 (Suc h) (?m4 t idx) = insert s (tsub ?m4 h s 512)" using d4 by (simp only: esub_Suc refl if_True)
  then have "esub ?m4 (Suc h) (?m4 t idx) \<subseteq> insert s (tsub ?m h s 512) - free_tables ctx4"
    using sub3 ok3 by (auto simp: table_ok_def c4(6))
  moreover have "eleaf (rest mm Q) ?m4 (Suc h) (?m4 t idx) (unat w)" using leaf3 d4 by simp
  moreover have "etrans ?m4 (Suc h) (?m4 t idx) off = cut mm (unat w + off) (etrans ?m (Suc h) (?m t idx) off)"
    if "off < bsz (Suc h)" for off
    using that d4 table s tr3 [of off] by (simp only: etrans_table bsz_Suc)
  moreover have "ecnt x (fewer mm K) (cnt ctx4) ?m4 (Suc h) (?m4 t idx) (unat w)"
    if e: "ecnt x K (cnt ctx) ?m (Suc h) (?m t idx) (unat w)" for x
  proof -
    have "ecnt x (fewer mm K) (cnt ctx4) ?m4 h (?m4 s i) (unat w + i * bsz h)" if i: "i < 512" for i
    proof (rule ecnt_frame [OF c3 [OF i]])
      show "ecnt x K (cnt ctx) ?m h (?m s i) (unat w + i * bsz h)" using e table s i by simp
      fix y assume "y \<in> esub ?m4 h (?m4 s i)"
      then have "y \<noteq> s" using ok3 i by (auto simp: table_ok_def tok_def c4(2))
      then show "?m4 y = ?m4 y \<and> cnt ctx4 y = cnt ctx3 y" using c4(4) by simp
    qed
    moreover have "fewer mm K (unat w) (bsz (Suc h)) \<le> cnt ctx4 s \<and> (x \<longrightarrow> fewer mm K (unat w) (bsz (Suc h)) = cnt ctx4 s)"
      using e table s c4(3) met by (simp add: fewer_def)
    ultimately show ?thesis using d4 by simp
  qed
  moreover have "blank ?m4 x" if "ecnt True K (cnt ctx) ?m (Suc h) (?m t idx) (unat w)" "x \<in> free_tables ctx4 - free_tables ctx" for x
    using b3 that table s by simp
  ultimately show ?thesis
    unfolding entry_unpost_def Let_def tf(1) using t4 by (simp del: esub.simps eok.simps etrans.simps eleaf.simps ecnt.simps)
qed

text \<open>An entry that no region meets, in tables with exact counts.\<close>

lemma empty_entry:
  assumes "eleaf Q m h d b" "ecnt True K k m h d b" "\<not> Q b (bsz h)" "K b (bsz h) = 0" "\<And>u. u \<in> esub m h d \<Longrightarrow> k u \<noteq> 0"
  shows "d AND DESC_MASK = INVALID_DESC"
proof (cases h)
  case 0
  then show ?thesis using assms(1,3) by auto
next
  case (Suc j)
  show ?thesis
  proof (cases "d AND DESC_MASK = TABLE_DESC")
    case True
    then have "k (sub_of d) = 0" "sub_of d \<in> esub m h d" using assms(2,4) Suc by auto
    then show ?thesis using assms(5) by blast
  next
    case False
    then show ?thesis using assms(1,3) Suc by auto
  qed
qed

lemma un_entry_drop:
  assumes pre: "unmap_pre mm Q K (Suc h) t n base idx w ctx" and table: "xlat_mem ctx t idx AND DESC_MASK = TABLE_DESC"
    and s: "s = sub_of (xlat_mem ctx t idx)" and post: "table_unpost mm Q K h s 512 (unat w) 0 ctx ctx3"
    and c4: "same_fields ctx3 ctx4" "xlat_mem ctx4 = xlat_mem ctx3" "\<And>x. x \<noteq> s \<Longrightarrow> cnt ctx4 x = cnt ctx3 x"
      "pool_base ctx4" "free_tables ctx4 = insert s (free_tables ctx3)" "cnt ctx s = 1"
    and met: "ovl mm (rend mm) (unat w) (bsz (Suc h)) = 1" and fits: "unmap_fits mm Q K"
  shows "entry_unpost mm Q K (Suc h) t idx (unat w) ctx (write_entry t idx INVALID_DESC ctx4)"
proof -
  let ?m = "xlat_mem ctx" and ?m4 = "xlat_mem ctx4" and ?ctx5 = "write_entry t idx INVALID_DESC ctx4"
  let ?m5 = "xlat_mem ?ctx5"
  note tf = un_table_facts [OF pre table, folded s]
  have fr: "release_frame s (tsub ?m h s 512) ctx ctx3" and ok3: "table_ok Q ctx3 h s 512 (unat w)"
    and sub3: "tsub ?m4 h s 512 \<subseteq> tsub ?m h s 512 - free_tables ctx3"
    and leaf3: "\<And>i. i < 512 \<Longrightarrow> eleaf (rest mm Q) ?m4 h (?m4 s i) (unat w + i * bsz h)"
    and tr3: "\<And>off. off < 512 * bsz h \<Longrightarrow> ttrans ?m4 h s 512 off = cut mm (unat w + off) (ttrans ?m h s 512 off)"
    and c3: "\<And>x i. i < 512 \<Longrightarrow> ecnt x K (cnt ctx) ?m h (?m s i) (unat w + i * bsz h) \<Longrightarrow>
       ecnt x (fewer mm K) (cnt ctx3) ?m4 h (?m4 s i) (unat w + i * bsz h)"
    and b3: "(\<forall>i < 512. ecnt True K (cnt ctx) ?m h (?m s i) (unat w + i * bsz h)) \<Longrightarrow> \<forall>s \<in> free_tables ctx3 - free_tables ctx. blank ?m4 s"
    using post unfolding table_unpost_def Let_def c4(2) by auto
  have zero: "fewer mm K (unat w) (bsz (Suc h)) = 0"
  proof -
    have "0 \<le> fewer mm K (unat w) (bsz (Suc h))" using fits by (simp add: unmap_fits_def counting_def)
    then show ?thesis using tf(6) c4(6) met by (simp add: fewer_def)
  qed
  have none: "\<not> rest mm Q b z" and zero_sub: "fewer mm K b z = 0" if "unat w \<le> b" "b + z \<le> unat w + bsz (Suc h)" for b z
  proof -
    have "fewer mm K b z \<le> fewer mm K (unat w) (bsz (Suc h))" "0 \<le> fewer mm K b z"
      using fits that unfolding unmap_fits_def counting_def by blast+
    then show "fewer mm K b z = 0" using zero by simp
    then show "\<not> rest mm Q b z" using rest_counted [OF fits, of b z] by auto
  qed
  have in_range: "unat w \<le> unat w + i * bsz h" "unat w + i * bsz h + bsz h \<le> unat w + bsz (Suc h)" if "i < 512" for i
    using sub_range [OF that, of "unat w" h] by simp_all
  have gone: "ttrans ?m4 h s 512 off = None" for off
  proof (cases "off div bsz h < 512")
    case True
    have "etrans ?m4 h (?m4 s (off div bsz h)) (off mod bsz h) = None"
      by (rule eleaf_none [OF leaf3 [OF True]]) (use none in_range [OF True] in auto)
    then show ?thesis by (simp add: ttrans_def)
  qed (simp add: ttrans_def)
  have f5: "free_tables ?ctx5 = insert s (free_tables ctx3)" by (simp add: c4(5))
  have m5: "?m5 t idx = INVALID_DESC" "\<And>x. x \<noteq> t \<Longrightarrow> ?m5 x = ?m4 x" "\<And>i. i \<noteq> idx \<Longrightarrow> ?m5 t i = ?m t i"
    using fr tf(5) by (simp_all add: write_entry_def c4(2) release_frame_def)
  have "release_frame t (insert s (tsub ?m h s 512)) ctx ?ctx5"
  proof -
    have "same_fields ctx ctx3" using fr by (simp add: release_frame_def)
    then have sf: "same_fields ctx ?ctx5" by (rule same_fields_trans [OF same_fields_trans [OF _ c4(1)] same_fields_write])
    have pb: "pool_base ?ctx5" using c4(4) by (simp add: pool_base_def write_entry_def)
    show ?thesis
      using fr sf pb f5 c4(2,3) m5(2) unfolding release_frame_def by auto
  qed
  moreover have "etrans ?m5 (Suc h) (?m5 t idx) off = cut mm (unat w + off) (etrans ?m (Suc h) (?m t idx) off)"
    if "off < bsz (Suc h)" for off
  proof -
    have "cut mm (unat w + off) (ttrans ?m h s 512 off) = None" using tr3 [of off] gone [of off] that by (simp add: bsz_Suc)
    then show ?thesis using that table s m5(1) by (simp only: etrans_table) simp
  qed
  moreover have "blank ?m5 x" if e: "ecnt True K (cnt ctx) ?m (Suc h) (?m t idx) (unat w)" and x: "x \<in> free_tables ?ctx5 - free_tables ctx" for x
  proof -
    have ex: "\<forall>i < 512. ecnt True K (cnt ctx) ?m h (?m s i) (unat w + i * bsz h)" using e table s by simp
    have xt: "x \<noteq> t" using x f5 tf(5) fr by (auto simp: release_frame_def)
    show ?thesis
    proof (cases "x = s")
      case False
      then have "blank ?m4 x" using b3 [OF ex] x f5 by auto
      then show ?thesis using m5(2) [OF xt] by (simp add: blank_def)
    next
      case True
      have "?m4 s i AND DESC_MASK = INVALID_DESC" if i: "i < 512" for i
      proof (rule empty_entry [OF leaf3 [OF i] c3 [OF i]])
        show "ecnt True K (cnt ctx) ?m h (?m s i) (unat w + i * bsz h)" using ex i by simp
        show "\<not> rest mm Q (unat w + i * bsz h) (bsz h)" "fewer mm K (unat w + i * bsz h) (bsz h) = 0"
          using none zero_sub in_range [OF i] by blast+
        fix u assume "u \<in> esub ?m4 h (?m4 s i)"
        then have "u \<in> set (xlat_tables ctx3) - free_tables ctx3"
          using ok3 tsub_mem [OF i, of ?m4 h s] by (auto simp: table_ok_def c4(2))
        moreover have "pool_base ctx3" using fr by (simp add: release_frame_def)
        ultimately show "cnt ctx3 u \<noteq> 0" using free_cnt by blast
      qed
      then show ?thesis using True m5(2) xt by (simp add: blank_def)
    qed
  qed
  ultimately show ?thesis
    unfolding entry_unpost_def Let_def tf(1) using m5 zero
    by (simp add: ecnt_invalid del: esub.simps eok.simps etrans.simps eleaf.simps ecnt.simps)
qed

section \<open>Every turn\<close>

lemma un_entry_kind:
  assumes mm: "region_ok mm" and fits: "unmap_fits mm Q K" and pre: "unmap_pre mm Q K h t n base idx w ctx"
  defines "d \<equiv> xlat_mem ctx t idx"
  obtains (leaf) "leaf h d" "rbase mm \<le> unat w" "unat w + bsz h \<le> rend mm"
    | (table) "0 < h" "d AND DESC_MASK = TABLE_DESC"
proof -
  have el: "eleaf Q (xlat_mem ctx) h d (unat w)" and ec: "ecnt False K (cnt ctx) (xlat_mem ctx) h d (unat w)"
    and meets: "meets mm (unat w) (bsz h)"
    using pre by (auto simp: unmap_pre_def table_ok_def d_def meets_def)
  have "0 \<le> fewer mm K (unat w) (bsz h)" using fits by (simp add: unmap_fits_def counting_def)
  then have "0 < K (unat w) (bsz h)" using ovl_meets [OF mm bsz_pos, of "unat w" h] meets by (simp add: fewer_def)
  then have valid: "d AND DESC_MASK \<noteq> INVALID_DESC" using ec ecnt_invalid by fastforce
  have Q: "Q (unat w) (bsz h) \<Longrightarrow> rbase mm \<le> unat w \<and> unat w + bsz h \<le> rend mm"
    using fits meets unfolding unmap_fits_def by blast
  show ?thesis
  proof (cases h)
    case 0
    then show ?thesis using el Q valid leaf by (auto simp: leaf_def)
  next
    case (Suc k)
    then show ?thesis using el Q valid leaf table by (auto simp: leaf_def)
  qed
qed

lemma un_turn_leaf:
  assumes mm: "region_ok mm" and h: "h \<le> 3" and fits: "unmap_fits mm Q K" and pre: "unmap_pre mm Q K h t n base idx w ctx"
    and lf: "leaf h (xlat_mem ctx t idx)" "rbase mm \<le> unat w" "unat w + bsz h \<le> rend mm"
  shows "\<exists>ctx'. unmap_region_loop mm (3 - h) t n idx w ctx = unmap_continue mm h t n idx w ctx'
    \<and> entry_unpost mm Q K h t idx (unat w) ctx ctx'"
proof -
  have p: "idx < n" "pool_base ctx" using pre by (simp_all add: unmap_pre_def)
  have le: "unat w + bsz h \<le> 2 ^ 48" using lf(3) mm by (simp add: region_ok_def)
  note full = un_action_full [OF mm h le lf(2,3)]
  have "un_action mm h t idx w ctx = Returned ACTION_WRITE_BLOCK_ENTRY"
    using lf(1) full by (cases "h = 0") (simp_all add: leaf_def)
  then show ?thesis using un_turn_write [OF p(1)] entry_unpost_leaf [OF p(2) mm fits lf] by blast
qed

lemma un_turn_table:
  assumes mm: "region_ok mm" and h: "h < 3" and fits: "unmap_fits mm Q K" and spec: "unmap_spec mm Q K h"
    and pre: "unmap_pre mm Q K (Suc h) t n base idx w ctx" and table: "xlat_mem ctx t idx AND DESC_MASK = TABLE_DESC"
  shows "\<exists>ctx'. unmap_region_loop mm (3 - Suc h) t n idx w ctx = unmap_continue mm (Suc h) t n idx w ctx'
    \<and> entry_unpost mm Q K (Suc h) t idx (unat w) ctx ctx'"
proof -
  define s where "s = sub_of (xlat_mem ctx t idx)"
  note tf = un_table_facts [OF pre table, folded s_def]
  have p: "idx < n" "pool_base ctx" "unat w < rend mm" "rbase mm < unat w + bsz (Suc h)"
    and al: "bsz (Suc h) dvd unat w" and w: "unat w = base + idx * bsz (Suc h)" and top: "base + n * bsz (Suc h) \<le> 2 ^ 48"
    using pre by (simp_all add: unmap_pre_def)
  have "Suc idx * bsz (Suc h) \<le> n * bsz (Suc h)" using p(1) by (intro mult_le_mono1) simp
  then have top': "unat w + bsz (Suc h) \<le> 2 ^ 48" using w top by simp
  have act: "un_action mm (Suc h) t idx w ctx = Returned ACTION_RECURSE_INTO_TABLE"
    unfolding table by (rule un_action_table [OF mm _ _ top' p(4)]) (use h in simp_all)
  obtain i v ctx3 where sub: "map_subtable_start mm w (3 - h) = (i, v)"
      "unmap_region_loop mm (3 - h) s 512 i v ctx = (Returned (), ctx3)" "table_unpost mm Q K h s 512 (unat w) 0 ctx ctx3"
    by (rule un_sub_map [OF mm h spec p(2) tf(2) al top' p(3,4) tf(7)])
  have fr: "release_frame s (tsub (xlat_mem ctx) h s 512) ctx ctx3" using sub(3) by (simp add: table_unpost_def Let_def)
  have met: "ovl mm (rend mm) (unat w) (bsz (Suc h)) = 1"
    using ovl_meets [OF mm bsz_pos, of "unat w" "Suc h"] p(3,4) by (simp add: meets_def)
  have "0 \<le> fewer mm K (unat w) (bsz (Suc h))" using fits by (simp add: unmap_fits_def counting_def)
  then have pos: "0 < cnt ctx s" using tf(6) met by (simp add: fewer_def)
  have cs: "cnt ctx3 s = cnt ctx s" "pool_base ctx3" "s \<in> set (xlat_tables ctx3)"
    using fr tf(3,4) same_fields_simps(1) [of ctx ctx3] by (auto simp: release_frame_def)
  obtain ctx4 where c4: "xlat_table_dec_regions_count s ctx3 = Some ctx4" "same_fields ctx3 ctx4" "xlat_mem ctx4 = xlat_mem ctx3"
      "cnt ctx4 s = cnt ctx3 s - 1" "\<And>x. x \<noteq> s \<Longrightarrow> cnt ctx4 x = cnt ctx3 x" "pool_base ctx4"
      "free_tables ctx4 = free_tables ctx3 \<union> (if cnt ctx3 s = 1 then {s} else {})"
      "xlat_table_is_empty s ctx4 = Some (cnt ctx3 s = 1)"
    by (rule dec_regions [OF cs(2,3)]) (use cs(1) pos in simp_all)
  note turn = un_turn_sub [OF p(1) act h sub(1) s_def sub(2) c4(1)]
  show ?thesis
  proof (cases "cnt ctx s = 1")
    case True
    have "entry_unpost mm Q K (Suc h) t idx (unat w) ctx (write_entry t idx INVALID_DESC ctx4)"
      by (rule un_entry_drop [OF pre table s_def sub(3) c4(2,3,5,6) _ True met fits]) (use c4(7) cs(1) True in auto)
    then show ?thesis using turn c4(8) cs(1) True by auto
  next
    case False
    have "entry_unpost mm Q K (Suc h) t idx (unat w) ctx ctx4"
      by (rule un_entry_keep [OF pre table s_def sub(3) c4(2,3) _ c4(5,6) _ met]) (use c4(4,7) cs(1) False in auto)
    then show ?thesis using turn c4(8) cs(1) False by auto
  qed
qed

theorem unmap_all_levels:
  assumes "region_ok mm" "unmap_fits mm Q K" "h \<le> 3"
  shows "unmap_spec mm Q K h"
  using assms(3)
proof (induction h)
  case 0
  have "un_entry_spec mm Q K 0"
    unfolding un_entry_spec_def
  proof (intro allI impI)
    fix t n base idx w ctx assume pre: "unmap_pre mm Q K 0 t n base idx w ctx"
    from assms(1,2) pre show "\<exists>ctx'. unmap_region_loop mm (3 - 0) t n idx w ctx = unmap_continue mm 0 t n idx w ctx'
        \<and> entry_unpost mm Q K 0 t idx (unat w) ctx ctx'"
    proof (cases rule: un_entry_kind)
      case leaf
      show ?thesis by (rule un_turn_leaf [OF assms(1) _ assms(2) pre leaf]) simp
    next
      case table
      then show ?thesis by simp
    qed
  qed
  then show ?case by (rule un_loop_from_entry [OF assms(1), rotated]) simp
next
  case (Suc h)
  have spec: "unmap_spec mm Q K h" and h: "h < 3" using Suc by simp_all
  have "un_entry_spec mm Q K (Suc h)"
    unfolding un_entry_spec_def
  proof (intro allI impI)
    fix t n base idx w ctx assume pre: "unmap_pre mm Q K (Suc h) t n base idx w ctx"
    from assms(1,2) pre show "\<exists>ctx'. unmap_region_loop mm (3 - Suc h) t n idx w ctx = unmap_continue mm (Suc h) t n idx w ctx'
        \<and> entry_unpost mm Q K (Suc h) t idx (unat w) ctx ctx'"
    proof (cases rule: un_entry_kind)
      case leaf
      show ?thesis by (rule un_turn_leaf [OF assms(1) Suc.prems assms(2) pre leaf])
    next
      case table
      show ?thesis by (rule un_turn_table [OF assms(1) h assms(2) spec pre table(2)])
    qed
  qed
  then show ?case by (rule un_loop_from_entry [OF assms(1) Suc.prems])
qed

end
