(* ===== verification/Xlat_Top.thy ===== *)
theory Xlat_Top
  imports Xlat_Unmap_Entry
begin

text \<open>
  A context whose tables implement a list of regions, and the operations of the library on whole
  regions: mapping one more, giving one back, and undoing a mapping for which the pool was too small.
\<close>

section \<open>What a list of regions means\<close>

definition lookup :: "xlat_env \<Rightarrow> int \<Rightarrow> mmap_region_t list \<Rightarrow> nat \<Rightarrow> (uint64_t \<times> uint64_t) option" where
  "lookup e regime ms v =
     (case List.find (\<lambda>c. rbase c \<le> v \<and> v < rend c) ms of
        None \<Rightarrow> None
      | Some c \<Rightarrow> map_option (\<lambda>a. (base_pa c + of_nat (v - rbase c), a)) (attr_word e regime (mm_attr c)))"

definition covered :: "mmap_region_t list \<Rightarrow> nat \<Rightarrow> nat \<Rightarrow> bool" where
  "covered ms b s \<longleftrightarrow> 0 < s \<and> (\<exists>c \<in> set ms. rbase c \<le> b \<and> b + s \<le> rend c)"

definition rcount :: "mmap_region_t list \<Rightarrow> nat \<Rightarrow> nat \<Rightarrow> int" where
  "rcount ms b s = (\<Sum>c \<leftarrow> ms. ovl c (rend c) b s)"

definition attr_ok :: "mmap_region_t \<Rightarrow> bool" where
  "attr_ok mm \<longleftrightarrow> mm_attr mm AND MT_TYPE_MASK \<in> {MT_DEVICE, MT_NON_CACHEABLE, MT_MEMORY}"

lemma attr_ok_word: "attr_ok mm \<Longrightarrow> \<exists>a. attr_word e regime (mm_attr mm) = Some a"
  by (auto simp: attr_ok_def attr_word_def Let_def)

lemma counting_rcount: "counting (rcount ms)"
proof (induction ms)
  case Nil
  show ?case by (simp add: counting_def rcount_def)
next
  case (Cons c ms)
  have "rcount (c # ms) = (\<lambda>b s. rcount ms b s + ovl c (rend c) b s)" by (simp add: rcount_def fun_eq_iff)
  then show ?case using counting_ovl [OF Cons] by simp
qed

lemma rcount_append: "rcount (ms @ ms') b s = rcount ms b s + rcount ms' b s"
  by (simp add: rcount_def)

lemma rcount_single [simp]: "rcount [mm] = ovl mm (rend mm)" "rcount [] = (\<lambda>b s. 0)"
  by (simp_all add: rcount_def fun_eq_iff)

lemma rcount_nonneg: "0 \<le> rcount ms b s"
  using counting_rcount by (simp add: counting_def)

lemma rcount_zero: "\<forall>c \<in> set ms. ovl c (rend c) b s = 0 \<Longrightarrow> rcount ms b s = 0"
  unfolding rcount_def by (induction ms) auto

lemma covered_counted: "covered ms b s \<Longrightarrow> 0 < rcount ms b s"
proof -
  assume "covered ms b s"
  then obtain c where c: "c \<in> set ms" "rbase c \<le> b" "b + s \<le> rend c" "0 < s" by (auto simp: covered_def)
  then obtain xs ys where ms: "ms = xs @ c # ys" by (meson split_list)
  have "ovl c (rend c) b s = 1" using c by (auto simp: ovl_def)
  then show ?thesis
    using rcount_nonneg [of xs b s] rcount_nonneg [of ys b s] unfolding ms rcount_def by simp
qed

lemma find_append: "List.find P (xs @ ys) = (case List.find P xs of Some x \<Rightarrow> Some x | None \<Rightarrow> List.find P ys)"
  by (induction xs) auto

lemma lookup_snoc:
  assumes "attr_word e regime (mm_attr mm) = Some a" "\<forall>c \<in> set ms. attr_ok c"
  shows "lookup e regime (ms @ [mm]) v = fill mm a (rend mm) v (lookup e regime ms v)"
proof (cases "List.find (\<lambda>c. rbase c \<le> v \<and> v < rend c) ms")
  case None
  then show ?thesis using assms(1) by (simp add: lookup_def find_append fill_def)
next
  case (Some c)
  then have "c \<in> set ms" by (auto simp: find_Some_iff)
  then obtain x where "attr_word e regime (mm_attr c) = Some x" using assms(2) attr_ok_word by blast
  then show ?thesis using Some by (simp add: lookup_def find_append)
qed

section \<open>Tables that implement a list\<close>

abbreviation (input) base_height :: "xlat_ctx_t \<Rightarrow> nat" where
  "base_height ctx \<equiv> 3 - base_level ctx"

definition geometry_ok :: "xlat_ctx_t \<Rightarrow> bool" where
  "geometry_ok ctx \<longleftrightarrow>
     base_level ctx \<le> 3 \<and> GET_XLAT_TABLE_LEVEL_BASE (va_max_address ctx + 1) = base_level ctx
     \<and> 0 < base_table_entries ctx \<and> base_table_entries ctx \<le> 512
     \<and> base_table_entries ctx * bsz (base_height ctx) = unat (va_max_address ctx) + 1
     \<and> unat (va_max_address ctx) < 2 ^ 48"

definition table_trans :: "xlat_ctx_t \<Rightarrow> nat \<Rightarrow> (uint64_t \<times> uint64_t) option" where
  "table_trans ctx v = ttrans (xlat_mem ctx) (base_height ctx) (base_table ctx) (base_table_entries ctx) v"

definition implements :: "xlat_env \<Rightarrow> bool \<Rightarrow> mmap_region_t list \<Rightarrow> xlat_ctx_t \<Rightarrow> bool" where
  "implements e exact ms ctx \<longleftrightarrow>
     geometry_ok ctx \<and> regime_ok ctx \<and> pool_base ctx
     \<and> table_ok (covered ms) ctx (base_height ctx) (base_table ctx) (base_table_entries ctx) 0
     \<and> (\<forall>i < base_table_entries ctx. ecnt exact (rcount ms) (cnt ctx) (xlat_mem ctx) (base_height ctx)
          (xlat_mem ctx (base_table ctx) i) (i * bsz (base_height ctx)))
     \<and> (\<forall>v \<le> unat (va_max_address ctx). table_trans ctx v = lookup e (xlat_regime ctx) ms v)"

text \<open>The translation that the walk of the library finds.\<close>

lemma translate_table_trans:
  assumes "geometry_ok ctx" "va \<le> va_max_address ctx"
  shows "xlat_translate ctx va = table_trans ctx (unat va)"
proof -
  let ?h = "base_height ctx"
  have lvl: "GET_XLAT_TABLE_LEVEL_BASE (va_max_address ctx + 1) = 3 - ?h" using assms(1) by (simp add: geometry_ok_def)
  have "unat va < base_table_entries ctx * bsz ?h" using assms by (simp add: geometry_ok_def word_le_nat_alt)
  also have "\<dots> \<le> 512 * bsz ?h" using assms(1) by (intro mult_le_mono1) (simp add: geometry_ok_def)
  finally have "unat va mod bsz (Suc ?h) = unat va" by (simp add: bsz_Suc)
  then show ?thesis
    unfolding xlat_translate_def find_xlat_table_entry_def table_trans_def lvl
    using walk_ttrans [of ?h ctx va "base_table ctx" "base_table_entries ctx"] by simp
qed

section \<open>Mapping one more region\<close>

lemma geometry_fields: "same_fields ctx ctx' \<Longrightarrow> geometry_ok ctx' = geometry_ok ctx"
  by (simp add: geometry_ok_def same_fields_simps)

text \<open>What the mapping needs of the regions that are mapped already.\<close>

definition may_map :: "mmap_region_t \<Rightarrow> mmap_region_t list \<Rightarrow> bool" where
  "may_map mm ms \<longleftrightarrow> (\<forall>c \<in> set ms. nested c mm \<or> separate c mm)"

lemma leaves_fit_covered:
  assumes "may_map mm ms"
  shows "leaves_fit mm (covered (ms @ [mm]))"
  unfolding leaves_fit_def
proof (intro conjI allI impI)
  fix b s assume a: "covered (ms @ [mm]) b s \<and> b < rend mm \<and> rbase mm < b + s"
  then obtain c where c: "c \<in> set ms \<or> c = mm" "rbase c \<le> b" "b + s \<le> rend c" by (auto simp: covered_def)
  have "rbase mm \<le> rbase c \<and> rend c \<le> rend mm"
    using c a assms unfolding may_map_def nested_def separate_def by fastforce
  then show "rbase mm \<le> b" "b + s \<le> rend mm" using c by auto
qed (auto simp: covered_def)

text \<open>The result of the mapping, up to an address that is the end of the region when the pool suffices.\<close>

definition mapped_to :: "mmap_region_t \<Rightarrow> uintptr_t \<Rightarrow> nat \<Rightarrow> xlat_ctx_t \<Rightarrow> bool" where
  "mapped_to mm r lim ctx \<longleftrightarrow>
     lim = rend mm \<and> r = region_end_va mm
     \<or> 4096 dvd lim \<and> lim < rend mm \<and> unat r = lim \<and> r \<noteq> region_end_va mm \<and> free_tables ctx = {}"

lemma map_region_top:
  assumes imp: "implements e x ms ctx" and pool: "pool_ok ctx" and mm: "region_ok mm" "rend mm \<le> unat (va_max_address ctx) + 1"
    and fit: "may_map mm ms" and a: "attr_word e (xlat_regime ctx) (mm_attr mm) = Some a"
  obtains r ctx' lim where
    "xlat_tables_map_region e mm 0 (base_table ctx) (base_table_entries ctx) (base_level ctx) ctx = (Returned r, ctx')"
    "same_fields ctx ctx'" "pool_ok ctx'" "mapped_to mm r lim ctx'"
    "table_ok (covered (ms @ [mm])) ctx' (base_height ctx) (base_table ctx) (base_table_entries ctx) 0"
    "\<And>v. v \<le> unat (va_max_address ctx) \<Longrightarrow> table_trans ctx' v = fill mm a lim v (table_trans ctx v)"
    "\<And>i. i < base_table_entries ctx \<Longrightarrow>
       ecnt (x \<and> lim = rend mm) (\<lambda>b s. rcount ms b s + ovl mm lim b s) (cnt ctx') (xlat_mem ctx') (base_height ctx)
         (xlat_mem ctx' (base_table ctx) i) (i * bsz (base_height ctx))"
proof -
  let ?h = "base_height ctx" and ?t = "base_table ctx" and ?n = "base_table_entries ctx" and ?Q = "covered (ms @ [mm])"
  have g: "base_level ctx \<le> 3" "0 < ?n" "?n \<le> 512" "?n * bsz ?h = unat (va_max_address ctx) + 1" "unat (va_max_address ctx) < 2 ^ 48"
    and reg: "regime_ok ctx" and tok: "table_ok (covered ms) ctx ?h ?t ?n 0"
    and ec: "\<And>i. i < ?n \<Longrightarrow> ecnt x (rcount ms) (cnt ctx) (xlat_mem ctx) ?h (xlat_mem ctx ?t i) (i * bsz ?h)"
    using imp by (simp_all add: implements_def geometry_ok_def)
  have lvl: "3 - ?h = base_level ctx" using g(1) by simp
  have Qtok: "table_ok ?Q ctx ?h ?t ?n 0"
    using tok eleaf_mono [of "covered ms" "xlat_mem ctx" ?h _ _ ?Q] by (auto simp: table_ok_def covered_def)
  have pos: "rbase mm < rend mm" using mm(1) by (simp add: region_ok_def rend_def)
  obtain i v where st: "map_subtable_start mm 0 (3 - ?h) = (i, v)" "i < ?n" "unat v = unat (0 :: uintptr_t) + i * bsz ?h" "unat v < rend mm"
      "rbase mm < unat v + bsz ?h" "\<And>y. y < unat (0 :: uintptr_t) + i * bsz ?h \<Longrightarrow> i = 0 \<or> y < rbase mm"
    by (rule subtable_start [of ?h 0 ?n mm]) (use g mm pos in auto)
  have "map_pre e mm a ?Q ?h ?t ?n 0 i v ctx"
    using pool Qtok st g a reg by (simp add: map_pre_def)
  moreover have "map_spec e mm a ?Q ?h" by (rule map_all_levels [OF mm(1) leaves_fit_covered [OF fit]]) simp
  ultimately obtain r ctx' lim where r: "map_region_loop e mm (3 - ?h) ?t ?n i v ctx = (Returned r, ctx')"
      "table_post mm a ?Q ?h ?t ?n 0 i lim (unat r + 1 = lim) ctx ctx'" "limit_ok mm r lim (unat v) (0 + ?n * bsz ?h) ctx'"
    unfolding map_spec_def by blast
  have run: "xlat_tables_map_region e mm 0 ?t ?n (base_level ctx) ctx = (Returned r, ctx')"
    using r(1) st(1) g(1) by (simp add: xlat_tables_map_region_def lvl)
  have fr: "alloc_frame (insert ?t (tsub (xlat_mem ctx) ?h ?t ?n)) ctx ctx'" and tok': "table_ok ?Q ctx' ?h ?t ?n 0"
    using r(2) by (simp_all add: table_post_def Let_def)
  have sf: "same_fields ctx ctx'" using fr by (simp add: alloc_frame_def)
  have pool': "pool_ok ctx'" by (rule pool_ok_frame [OF fr pool]) (use tok in \<open>auto simp: table_ok_def\<close>)
  have end_val: "unat (region_end_va mm) = rend mm - 1" by (rule region_end_unat [OF mm(1)])
  have lim: "mapped_to mm r lim ctx'" and okiff: "unat r + 1 = lim \<longleftrightarrow> lim = rend mm"
  proof -
    have "min (rend mm) (0 + ?n * bsz ?h) = rend mm" using mm(2) g(4) by simp
    then consider (finished) "lim = rend mm" "unat r + 1 = lim" | (full) "4096 dvd lim" "lim < rend mm" "unat r = lim" "free_tables ctx' = {}"
      using r(3) by (auto simp: limit_ok_def)
    then have "mapped_to mm r lim ctx' \<and> (unat r + 1 = lim \<longleftrightarrow> lim = rend mm)"
    proof cases
      case finished
      then have "unat r = unat (region_end_va mm)" using end_val by simp
      then show ?thesis using finished by (simp add: mapped_to_def word_unat_eq_iff)
    next
      case full
      have "4096 dvd rend mm" using mm(1) by (simp add: region_ok_def rend_def)
      then have "\<not> 4096 dvd rend mm - 1" using pos by (intro page_pred) auto
      then have "r \<noteq> region_end_va mm" using full end_val by auto
      then show ?thesis using full by (simp add: mapped_to_def)
    qed
    then show "mapped_to mm r lim ctx'" "unat r + 1 = lim \<longleftrightarrow> lim = rend mm" by simp_all
  qed
  have tr: "table_trans ctx' v = fill mm a lim v (table_trans ctx v)" if "v \<le> unat (va_max_address ctx)" for v
  proof -
    have "v < ?n * bsz ?h" using that g(4) by simp
    then have "ttrans (xlat_mem ctx') ?h ?t ?n v = (if i * bsz ?h \<le> v then fill mm a lim (0 + v) (ttrans (xlat_mem ctx) ?h ?t ?n v)
        else ttrans (xlat_mem ctx) ?h ?t ?n v)"
      using r(2) by (simp add: table_post_def Let_def)
    moreover have "fill mm a lim v y = y" if "v < i * bsz ?h" for y
    proof -
      have "v < rbase mm" using that st(6) [of v] by auto
      then show ?thesis by (auto simp: fill_def split: option.split)
    qed
    ultimately show ?thesis by (simp add: table_trans_def same_fields_simps [OF sf])
  qed
  have cn: "ecnt (x \<and> lim = rend mm) (\<lambda>b s. rcount ms b s + ovl mm lim b s) (cnt ctx') (xlat_mem ctx') ?h (xlat_mem ctx' ?t j) (j * bsz ?h)"
    if j: "j < ?n" for j
  proof (rule ecnt_cong)
    have "ecnt (x \<and> lim = rend mm) (rcount ms) (cnt ctx) (xlat_mem ctx) ?h (xlat_mem ctx ?t j) (j * bsz ?h)"
      using ec [OF j] ecnt_weaken by (cases x) auto
    then show "ecnt (x \<and> lim = rend mm) (\<lambda>b s. rcount ms b s + (if i \<le> j then ovl mm lim b s else 0)) (cnt ctx') (xlat_mem ctx') ?h
        (xlat_mem ctx' ?t j) (j * bsz ?h)"
      using r(2) j counting_rcount [of ms] okiff by (simp add: table_post_def Let_def)
    fix b s assume b: "j * bsz ?h \<le> b" "b + s \<le> j * bsz ?h + bsz ?h"
    have "ovl mm lim b s = 0" if "j < i"
    proof -
      have "b + s \<le> i * bsz ?h" "0 < i" using that b later_entry [of j i 0 ?h] by auto
      then have "b + s \<le> rbase mm \<or> b + s = 0" using st(6) [of "b + s - 1"] by simp linarith
      then show ?thesis by (auto simp: ovl_def)
    qed
    then show "rcount ms b s + ovl mm lim b s = rcount ms b s + (if i \<le> j then ovl mm lim b s else 0)" by auto
  qed
  show ?thesis by (rule that [OF run sf pool' lim tok' tr cn])
qed

lemma map_region_implements:
  assumes imp: "implements e x ms ctx" and pool: "pool_ok ctx" and mm: "region_ok mm" "rend mm \<le> unat (va_max_address ctx) + 1"
    and fit: "may_map mm ms" and ok: "attr_ok mm" "\<forall>c \<in> set ms. attr_ok c"
  obtains r ctx' where
    "xlat_tables_map_region e mm 0 (base_table ctx) (base_table_entries ctx) (base_level ctx) ctx = (Returned r, ctx')"
    "same_fields ctx ctx'" "pool_ok ctx'"
    "r = region_end_va mm \<Longrightarrow> implements e x (ms @ [mm]) ctx'" "r \<noteq> region_end_va mm \<Longrightarrow> free_tables ctx' = {}"
proof -
  obtain a where a: "attr_word e (xlat_regime ctx) (mm_attr mm) = Some a" using attr_ok_word [OF ok(1)] by blast
  obtain r ctx' lim where top: "xlat_tables_map_region e mm 0 (base_table ctx) (base_table_entries ctx) (base_level ctx) ctx = (Returned r, ctx')"
    "same_fields ctx ctx'" "pool_ok ctx'" "mapped_to mm r lim ctx'"
    "table_ok (covered (ms @ [mm])) ctx' (base_height ctx) (base_table ctx) (base_table_entries ctx) 0"
    "\<And>v. v \<le> unat (va_max_address ctx) \<Longrightarrow> table_trans ctx' v = fill mm a lim v (table_trans ctx v)"
    "\<And>i. i < base_table_entries ctx \<Longrightarrow>
       ecnt (x \<and> lim = rend mm) (\<lambda>b s. rcount ms b s + ovl mm lim b s) (cnt ctx') (xlat_mem ctx') (base_height ctx)
         (xlat_mem ctx' (base_table ctx) i) (i * bsz (base_height ctx))"
    using map_region_top [OF imp pool mm fit a] by blast
  note sf = same_fields_simps [OF top(2)]
  have "implements e x (ms @ [mm]) ctx'" if "r = region_end_va mm"
  proof -
    have lim: "lim = rend mm" using top(4) that by (auto simp: mapped_to_def)
    have "table_trans ctx' v = lookup e (xlat_regime ctx) (ms @ [mm]) v" if "v \<le> unat (va_max_address ctx)" for v
      using top(6) [OF that] imp that lookup_snoc [OF a ok(2)] lim by (simp add: implements_def)
    moreover have "(\<lambda>b s. rcount ms b s + ovl mm (rend mm) b s) = rcount (ms @ [mm])"
      by (simp add: rcount_append fun_eq_iff)
    ultimately show ?thesis
      using imp top(3,5,7) lim geometry_fields [OF top(2)] by (simp add: implements_def sf pool_ok_base)
  qed
  moreover have "free_tables ctx' = {}" if "r \<noteq> region_end_va mm" using top(4) that by (auto simp: mapped_to_def)
  ultimately show ?thesis using that top(1-3) by blast
qed

section \<open>Giving a region back\<close>

text \<open>The region is apart from all others of the list.\<close>

lemma unmap_fits_covered:
  assumes mm: "region_ok mm" "rbase mm = rbase um" "rend mm = rend um" and sep: "\<forall>c \<in> set (A @ C). separate c mm"
  shows "unmap_fits um (covered (A @ mm # C)) (rcount (A @ mm # C))"
proof -
  have few: "fewer um (rcount (A @ mm # C)) = rcount (A @ C)"
    using mm by (simp add: fewer_def rcount_def ovl_def fun_eq_iff)
  have "counting (rcount (A @ C))" by (rule counting_rcount)
  moreover have "rbase um \<le> b \<and> b + s \<le> rend um" if c: "covered (A @ mm # C) b s" and m: "meets um b s" for b s
  proof -
    obtain c where c: "c \<in> set (A @ C) \<or> c = mm" "rbase c \<le> b" "b + s \<le> rend c" "0 < s" using c by (auto simp: covered_def)
    have "\<not> separate c mm" using c m mm(2,3) by (auto simp: separate_def meets_def)
    then have "c = mm" using c(1) sep by blast
    then show ?thesis using c mm by simp
  qed
  moreover have "rcount (A @ mm # C) b s \<le> 1" if w: "rbase um \<le> b" "b + s \<le> rend um" for b s
  proof -
    have "ovl c (rend c) b s = 0" if "c \<in> set (A @ C)" for c
      using sep that w mm(2,3) by (fastforce simp: separate_def ovl_def)
    then have "rcount (A @ C) b s = 0" by (intro rcount_zero) blast
    moreover have "rcount (A @ mm # C) b s = rcount (A @ C) b s + ovl mm (rend mm) b s" by (simp add: rcount_def)
    moreover have "ovl mm (rend mm) b s \<le> 1" by (simp add: ovl_def)
    ultimately show ?thesis by simp
  qed
  ultimately show ?thesis
    unfolding unmap_fits_def few using counting_rcount covered_counted by blast
qed

lemma lookup_without:
  assumes sep: "\<forall>c \<in> set (A @ C). separate c mm"
  shows "cut mm v (lookup e regime (A @ mm # C) v) = lookup e regime (A @ C) v"
proof (cases "rbase mm \<le> v \<and> v < rend mm")
  case True
  have "\<not> (rbase c \<le> v \<and> v < rend c)" if "c \<in> set (A @ C)" for c
    using sep that True by (fastforce simp: separate_def)
  then have "List.find (\<lambda>c. rbase c \<le> v \<and> v < rend c) (A @ C) = None" by (simp only: find_None_iff) blast
  then show ?thesis using True by (simp add: cut_def lookup_def)
next
  case False
  then have "List.find (\<lambda>c. rbase c \<le> v \<and> v < rend c) (A @ mm # C) = List.find (\<lambda>c. rbase c \<le> v \<and> v < rend c) (A @ C)"
    by (auto simp: find_append split: option.split)
  then show ?thesis using False by (auto simp: cut_def lookup_def)
qed

text \<open>
  Unmapping the addresses of a region \<open>mm\<close> of the list, which the caller may describe by another
  region with the same addresses.
\<close>

lemma unmap_region_implements:
  assumes imp: "implements e x (A @ mm # C) ctx" and um: "region_ok um" "rbase um = rbase mm" "rend um = rend mm"
    and mm: "region_ok mm" "rend mm \<le> unat (va_max_address ctx) + 1" and sep: "\<forall>c \<in> set (A @ C). separate c mm"
  obtains ctx' where
    "xlat_tables_unmap_region um 0 (base_table ctx) (base_table_entries ctx) (base_level ctx) ctx = (Returned (), ctx')"
    "same_fields ctx ctx'" "implements e x (A @ C) ctx'" "x \<Longrightarrow> pool_ok ctx \<Longrightarrow> pool_ok ctx'"
proof -
  let ?h = "base_height ctx" and ?t = "base_table ctx" and ?n = "base_table_entries ctx"
  let ?Q = "covered (A @ mm # C)" and ?K = "rcount (A @ mm # C)"
  have g: "base_level ctx \<le> 3" "0 < ?n" "?n \<le> 512" "?n * bsz ?h = unat (va_max_address ctx) + 1" "unat (va_max_address ctx) < 2 ^ 48"
    and tok: "table_ok ?Q ctx ?h ?t ?n 0" and pool: "pool_base ctx"
    and ec: "\<And>i. i < ?n \<Longrightarrow> ecnt x ?K (cnt ctx) (xlat_mem ctx) ?h (xlat_mem ctx ?t i) (0 + i * bsz ?h)"
    and tr: "\<And>v. v \<le> unat (va_max_address ctx) \<Longrightarrow> table_trans ctx v = lookup e (xlat_regime ctx) (A @ mm # C) v"
    using imp by (simp_all add: implements_def geometry_ok_def)
  have lvl: "3 - ?h = base_level ctx" using g(1) by simp
  have pos: "rbase um < rend um" using um(1) by (simp add: region_ok_def rend_def)
  obtain i v where st: "map_subtable_start um 0 (3 - ?h) = (i, v)" "i < ?n" "unat v = unat (0 :: uintptr_t) + i * bsz ?h" "unat v < rend um"
      "rbase um < unat v + bsz ?h" "\<And>y. y < unat (0 :: uintptr_t) + i * bsz ?h \<Longrightarrow> i = 0 \<or> y < rbase um"
    by (rule subtable_start [of ?h 0 ?n um]) (use g mm um pos in auto)
  have fits: "unmap_fits um ?Q ?K" using unmap_fits_covered [OF mm(1) um(2,3) [symmetric] sep] .
  have weak: "ecnt False ?K (cnt ctx) (xlat_mem ctx) ?h (xlat_mem ctx ?t j) (0 + j * bsz ?h)" if "j < ?n" for j
    using ec [OF that] ecnt_weaken by (cases x) auto
  have "unmap_pre um ?Q ?K ?h ?t ?n 0 i v ctx"
    using pool tok st g weak by (simp add: unmap_pre_def)
  moreover have "unmap_spec um ?Q ?K ?h" by (rule unmap_all_levels [OF um(1) fits]) simp
  ultimately obtain ctx' where r: "unmap_region_loop um (3 - ?h) ?t ?n i v ctx = (Returned (), ctx')"
      "table_unpost um ?Q ?K ?h ?t ?n 0 i ctx ctx'"
    unfolding unmap_spec_def by blast
  have post: "table_unpost um ?Q ?K ?h ?t ?n 0 0 ctx ctx'"
    by (rule table_unpost_zero [OF r(2) tok]) (use st(6) in auto)
  have fr: "release_frame ?t (tsub (xlat_mem ctx) ?h ?t ?n) ctx ctx'" and tok': "table_ok ?Q ctx' ?h ?t ?n 0"
    and lf: "\<And>i. i < ?n \<Longrightarrow> eleaf (rest um ?Q) (xlat_mem ctx') ?h (xlat_mem ctx' ?t i) (0 + i * bsz ?h)"
    and tr': "\<And>off. off < ?n * bsz ?h \<Longrightarrow> ttrans (xlat_mem ctx') ?h ?t ?n off = cut um (0 + off) (ttrans (xlat_mem ctx) ?h ?t ?n off)"
    and ec': "\<And>i. i < ?n \<Longrightarrow> ecnt x (fewer um ?K) (cnt ctx') (xlat_mem ctx') ?h (xlat_mem ctx' ?t i) (0 + i * bsz ?h)"
    and bl: "x \<Longrightarrow> \<forall>s \<in> free_tables ctx' - free_tables ctx. blank (xlat_mem ctx') s"
    using post ec unfolding table_unpost_def Let_def by auto
  have sf: "same_fields ctx ctx'" and pool': "pool_base ctx'" using fr by (simp_all add: release_frame_def)
  have run: "xlat_tables_unmap_region um 0 ?t ?n (base_level ctx) ctx = (Returned (), ctx')"
    using r(1) st(1) g(1) same_fields_simps(5) [OF sf] by (simp add: xlat_tables_unmap_region_def lvl)
  have cutum: "cut um v y = cut mm v y" for v y using um by (simp add: cut_def)
  have few: "fewer um ?K = rcount (A @ C)" using um by (simp add: fewer_def rcount_def ovl_def fun_eq_iff)
  have "eleaf (covered (A @ C)) (xlat_mem ctx') ?h (xlat_mem ctx' ?t i) (0 + i * bsz ?h)" if "i < ?n" for i
    by (rule eleaf_mono [OF lf [OF that]]) (use um in \<open>auto simp: rest_def covered_def meets_def\<close>)
  then have "table_ok (covered (A @ C)) ctx' ?h ?t ?n 0" using tok' by (simp add: table_ok_def)
  moreover have "table_trans ctx' v = lookup e (xlat_regime ctx) (A @ C) v" if "v \<le> unat (va_max_address ctx)" for v
  proof -
    have "v < ?n * bsz ?h" using that g(4) by simp
    from tr' [OF this] have "table_trans ctx' v = cut mm v (table_trans ctx v)"
      by (simp add: table_trans_def same_fields_simps [OF sf] cutum)
    then show ?thesis using tr [OF that] lookup_without [OF sep] by simp
  qed
  ultimately have im: "implements e x (A @ C) ctx'"
    using imp pool' ec' geometry_fields [OF sf] unfolding implements_def few by (simp add: same_fields_simps [OF sf])
  have "pool_ok ctx'" if x: x and ok: "pool_ok ctx"
  proof -
    have "xlat_mem ctx' s = xlat_mem ctx s" if "s \<in> free_tables ctx" for s
    proof -
      have "s \<notin> insert ?t (tsub (xlat_mem ctx) ?h ?t ?n)" using tok that by (auto simp: table_ok_def)
      then show ?thesis using fr unfolding release_frame_def by blast
    qed
    then show ?thesis using pool' bl [OF x] ok unfolding pool_ok_def blank_def by fastforce
  qed
  then show ?thesis using that run sf im by blast
qed

end
