(* ===== verification/Xlat_Dynamic.thy ===== *)
theory Xlat_Dynamic
  imports Xlat_Top
begin

text \<open>
  Adding a dynamic region: it is mapped, or the pool was too small and what had been mapped of it is
  unmapped again, so that every address translates as before.
\<close>

text \<open>Every address of a leaf translates.\<close>

lemma eleaf_translates:
  "eleaf Q m h d base \<Longrightarrow> (\<And>off. off < bsz h \<Longrightarrow> T (base + off) = etrans m h d off) \<Longrightarrow>
     eleaf (\<lambda>b s. Q b s \<and> (\<forall>v. b \<le> v \<and> v < b + s \<longrightarrow> T v \<noteq> None)) m h d base"
proof (induction h arbitrary: d base)
  case 0
  have "T v \<noteq> None" if "d AND DESC_MASK = PAGE_DESC" "base \<le> v" "v < base + bsz 0" for v
    using 0(2) [of "v - base"] that by simp
  then show ?case using 0(1) by auto
next
  case (Suc h)
  have block: "T v \<noteq> None" if "d AND DESC_MASK = BLOCK_DESC" "base \<le> v" "v < base + bsz (Suc h)" for v
    using Suc.prems(2) [of "v - base"] that by simp
  have "eleaf (\<lambda>b s. Q b s \<and> (\<forall>v. b \<le> v \<and> v < b + s \<longrightarrow> T v \<noteq> None)) m h (m (sub_of d) i) (base + i * bsz h)"
    if i: "i < 512" and d: "d AND DESC_MASK = TABLE_DESC" for i
  proof (rule Suc.IH)
    show "eleaf Q m h (m (sub_of d) i) (base + i * bsz h)" using Suc.prems(1) i d by auto
    fix off assume off: "off < bsz h"
    have "i * bsz h + off < bsz (Suc h)" using sub_range [OF i, of 0 h] off by simp
    then have "T (base + (i * bsz h + off)) = etrans m (Suc h) d (i * bsz h + off)" by (rule Suc.prems(2))
    also have "\<dots> = etrans m h (m (sub_of d) i) off" using d off by simp
    finally show "T (base + i * bsz h + off) = etrans m h (m (sub_of d) i) off" by (simp add: add.assoc)
  qed
  then show ?case using Suc.prems(1) block by auto
qed

text \<open>The part of a region below an address.\<close>

definition region_upto :: "mmap_region_t \<Rightarrow> uintptr_t \<Rightarrow> mmap_region_t" where
  "region_upto mm r = mm\<lparr>mm_size := r - base_va mm\<rparr>"

lemma region_upto_props:
  assumes mm: "region_ok mm" and r: "4096 dvd unat r" "rbase mm < unat r" "unat r < rend mm"
  shows "rbase (region_upto mm r) = rbase mm" "rend (region_upto mm r) = unat r" "region_ok (region_upto mm r)"
    "region_ok \<lparr>base_pa = 0, base_va = base_va mm, mm_size = r - base_va mm, mm_attr = 0, granularity = 0\<rparr>"
proof -
  have size: "unat (r - base_va mm) = unat r - rbase mm" using r(2) by (simp add: unat_sub word_le_nat_alt)
  show b: "rbase (region_upto mm r) = rbase mm" by (simp add: region_upto_def)
  show e: "rend (region_upto mm r) = unat r" using r(2) size by (simp add: region_upto_def rend_def)
  have al: "4096 dvd unat r - rbase mm" using mm r(1) by (intro dvd_diff_nat) (simp_all add: region_ok_def)
  have fits: "unat (base_pa mm) + (unat r - rbase mm) \<le> 2 ^ 48" "unat r \<le> 2 ^ 48"
    using mm r(3) by (auto simp: region_ok_def rend_def)
  show "region_ok (region_upto mm r)"
    using mm al fits r(2) size e by (simp add: region_ok_def region_upto_def)
  show "region_ok \<lparr>base_pa = 0, base_va = base_va mm, mm_size = r - base_va mm, mm_attr = 0, granularity = 0\<rparr>"
    using mm al fits r(2) size by (simp add: region_ok_def rend_def)
qed

text \<open>The tables do not depend on the list of regions that the context records.\<close>

lemma mmap_update_simps [simp]:
  "cnt (ctx\<lparr>mmap := l\<rparr>) = cnt ctx" "free_tables (ctx\<lparr>mmap := l\<rparr>) = free_tables ctx" "pool_base (ctx\<lparr>mmap := l\<rparr>) = pool_base ctx"
  "pool_ok (ctx\<lparr>mmap := l\<rparr>) = pool_ok ctx" "table_trans (ctx\<lparr>mmap := l\<rparr>) = table_trans ctx"
  "geometry_ok (ctx\<lparr>mmap := l\<rparr>) = geometry_ok ctx" "regime_ok (ctx\<lparr>mmap := l\<rparr>) = regime_ok ctx"
  by (simp_all add: cnt_def free_tables_def pool_base_def pool_ok_def table_trans_def geometry_ok_def regime_ok_def fun_eq_iff split: option.split)

lemma implements_mmap [simp]: "implements e x ms (ctx\<lparr>mmap := l\<rparr>) = implements e x ms ctx"
  by (simp add: implements_def table_ok_def)

lemma same_fields_mmap: "same_fields ctx ctx' \<Longrightarrow> same_fields (ctx\<lparr>mmap := l\<rparr>) (ctx'\<lparr>mmap := l\<rparr>)"
  by (cases ctx; cases ctx'; simp add: same_fields_def)

text \<open>A mapping that stopped early has mapped the part of the region below the address it returned.\<close>

lemma partial_mapping:
  assumes imp: "implements e x ms ctx" and mm: "region_ok mm" "rend mm \<le> unat (va_max_address ctx) + 1"
    and sep: "\<forall>c \<in> set ms. separate c mm" and ok: "\<forall>c \<in> set ms. attr_ok c"
    and a: "attr_word e (xlat_regime ctx) (mm_attr mm) = Some a"
    and r: "4096 dvd unat r" "rbase mm < unat r" "unat r < rend mm" and sf: "same_fields ctx ctx'" and pool': "pool_ok ctx'"
    and tok: "table_ok (covered (ms @ [mm])) ctx' (base_height ctx) (base_table ctx) (base_table_entries ctx) 0"
    and tr: "\<And>v. v \<le> unat (va_max_address ctx) \<Longrightarrow> table_trans ctx' v = fill mm a (unat r) v (table_trans ctx v)"
    and cn: "\<And>i. i < base_table_entries ctx \<Longrightarrow>
       ecnt y (\<lambda>b s. rcount ms b s + ovl mm (unat r) b s) (cnt ctx') (xlat_mem ctx') (base_height ctx)
         (xlat_mem ctx' (base_table ctx) i) (i * bsz (base_height ctx))"
  shows "implements e False (ms @ [region_upto mm r]) ctx'"
proof -
  let ?mm = "region_upto mm r" and ?h = "base_height ctx" and ?t = "base_table ctx" and ?n = "base_table_entries ctx"
  note up = region_upto_props [OF mm(1) r]
  have g: "?n * bsz ?h = unat (va_max_address ctx) + 1"
    and old: "\<And>v. v \<le> unat (va_max_address ctx) \<Longrightarrow> table_trans ctx v = lookup e (xlat_regime ctx) ms v"
    using imp by (simp_all add: implements_def geometry_ok_def)
  have ov: "(\<lambda>b s. rcount ms b s + ovl mm (unat r) b s) = rcount (ms @ [?mm])"
    using r(3) up(1,2) by (auto simp: rcount_append ovl_def fun_eq_iff)
  have at: "attr_word e (xlat_regime ctx) (mm_attr ?mm) = Some a" using a by (simp add: region_upto_def)
  have fl: "fill ?mm a (rend ?mm) v y = fill mm a (unat r) v y" for v y
    using r(3) up(1,2) by (auto simp: fill_def region_upto_def split: option.split)
  have trans: "table_trans ctx' v = lookup e (xlat_regime ctx) (ms @ [?mm]) v" if "v \<le> unat (va_max_address ctx)" for v
    using tr [OF that] old [OF that] lookup_snoc [OF at ok, of v] fl by simp
  have beyond: "table_trans ctx' v = None" if v: "rbase mm \<le> v" "v < rend mm" "unat r \<le> v" for v
  proof -
    have "\<not> (rbase c \<le> v \<and> v < rend c)" if "c \<in> set ms" for c
      using sep that v by (fastforce simp: separate_def)
    then have "find (\<lambda>c. rbase c \<le> v \<and> v < rend c) ms = None" by (simp add: find_None_iff)
    then have "lookup e (xlat_regime ctx) ms v = None" by (simp add: lookup_def)
    then show ?thesis using tr [of v] old [of v] v mm(2) by (simp add: fill_beyond)
  qed
  have leaf: "eleaf (covered (ms @ [?mm])) (xlat_mem ctx') ?h (xlat_mem ctx' ?t i) (0 + i * bsz ?h)" if i: "i < ?n" for i
  proof -
    have "eleaf (\<lambda>b s. covered (ms @ [mm]) b s \<and> (\<forall>v. b \<le> v \<and> v < b + s \<longrightarrow> table_trans ctx' v \<noteq> None))
        (xlat_mem ctx') ?h (xlat_mem ctx' ?t i) (0 + i * bsz ?h)"
    proof (rule eleaf_translates)
      show "eleaf (covered (ms @ [mm])) (xlat_mem ctx') ?h (xlat_mem ctx' ?t i) (0 + i * bsz ?h)"
        using tok i unfolding table_ok_def by blast
      show "table_trans ctx' (0 + i * bsz ?h + off) = etrans (xlat_mem ctx') ?h (xlat_mem ctx' ?t i) off" if "off < bsz ?h" for off
        using that i by (simp add: table_trans_def ttrans_def same_fields_simps [OF sf])
    qed
    then show ?thesis
    proof (rule eleaf_mono)
      fix b s assume q: "covered (ms @ [mm]) b s \<and> (\<forall>v. b \<le> v \<and> v < b + s \<longrightarrow> table_trans ctx' v \<noteq> None)"
      then obtain c where c: "c \<in> set ms \<or> c = mm" "rbase c \<le> b" "b + s \<le> rend c" "0 < s" by (auto simp: covered_def)
      show "covered (ms @ [?mm]) b s"
      proof (cases "c \<in> set ms")
        case True
        then show ?thesis using c by (auto simp: covered_def)
      next
        case False
        then have "c = mm" using c(1) by simp
        then have "rbase mm \<le> b + s - 1" "b + s - 1 < rend mm" "b \<le> b + s - 1 \<and> b + s - 1 < b + s" using c by auto
        then have "b + s - 1 < unat r" using q beyond [of "b + s - 1"] leI by blast
        then show ?thesis using c \<open>c = mm\<close> up(1,2) by (auto simp: covered_def)
      qed
    qed
  qed
  have "table_ok (covered (ms @ [?mm])) ctx' ?h ?t ?n 0" using tok leaf by (simp add: table_ok_def)
  moreover have "ecnt False (rcount (ms @ [?mm])) (cnt ctx') (xlat_mem ctx') ?h (xlat_mem ctx' ?t i) (i * bsz ?h)" if "i < ?n" for i
    using cn [OF that] ecnt_weaken unfolding ov by (cases y) auto
  ultimately show ?thesis
    using imp trans pool_ok_base [OF pool'] geometry_fields [OF sf] unfolding implements_def by (simp add: same_fields_simps [OF sf])
qed

lemma map_dynamic_outcome:
  assumes imp: "implements e x ms ctx" and pool: "pool_ok ctx" and mm: "region_ok mm" "rend mm \<le> unat (va_max_address ctx) + 1"
    and sep: "\<forall>c \<in> set ms. separate c mm" and ok: "attr_ok mm" "\<forall>c \<in> set ms. attr_ok c"
  obtains (mapped) ctx' where "map_dynamic_region e mm old ctx = (Returned 0, ctx')" "same_fields ctx ctx'" "pool_ok ctx'"
      "implements e x (ms @ [mm]) ctx'"
    | (undone) ctx' where "map_dynamic_region e mm old ctx = (Returned (- XLAT_ENOMEM), ctx')" "same_fields (ctx\<lparr>mmap := old\<rparr>) ctx'"
      "\<And>v. v \<le> unat (va_max_address ctx) \<Longrightarrow> table_trans ctx' v = table_trans ctx v"
proof -
  have fit: "may_map mm ms" using sep by (auto simp: may_map_def)
  obtain a where a: "attr_word e (xlat_regime ctx) (mm_attr mm) = Some a" using attr_ok_word [OF ok(1)] by blast
  obtain r ctx1 lim where top: "xlat_tables_map_region e mm 0 (base_table ctx) (base_table_entries ctx) (base_level ctx) ctx = (Returned r, ctx1)"
    "same_fields ctx ctx1" "pool_ok ctx1" "mapped_to mm r lim ctx1"
    "table_ok (covered (ms @ [mm])) ctx1 (base_height ctx) (base_table ctx) (base_table_entries ctx) 0"
    "\<And>v. v \<le> unat (va_max_address ctx) \<Longrightarrow> table_trans ctx1 v = fill mm a lim v (table_trans ctx v)"
    "\<And>i. i < base_table_entries ctx \<Longrightarrow>
       ecnt (x \<and> lim = rend mm) (\<lambda>b s. rcount ms b s + ovl mm lim b s) (cnt ctx1) (xlat_mem ctx1) (base_height ctx)
         (xlat_mem ctx1 (base_table ctx) i) (i * bsz (base_height ctx))"
    using map_region_top [OF imp pool mm fit a] by blast
  note sf = same_fields_simps [OF top(2)]
  show ?thesis
  proof (cases "r = region_end_va mm")
    case True
    have "implements e x (ms @ [mm]) ctx1"
      using map_region_implements [OF imp pool mm fit ok] top(1) True by (metis prod.inject outcome.inject)
    then show ?thesis using top(1-3) True by (intro mapped) (simp_all add: map_dynamic_region_def)
  next
    case False
    then have lim: "4096 dvd unat r" "unat r < rend mm" "lim = unat r" using top(4) by (auto simp: mapped_to_def)
    show ?thesis
    proof (cases "base_va mm \<ge> r")
      case True
      have "table_trans (ctx1\<lparr>mmap := old\<rparr>) v = table_trans ctx v" if "v \<le> unat (va_max_address ctx)" for v
      proof -
        have "fill mm a lim v y = y" for y
          using True lim(3) by (auto simp: fill_def word_le_nat_alt split: option.split)
        then show ?thesis using top(6) [OF that] by simp
      qed
      moreover have "map_dynamic_region e mm old ctx = (Returned (- XLAT_ENOMEM), ctx1\<lparr>mmap := old\<rparr>)"
        using top(1) False True by (simp add: map_dynamic_region_def)
      ultimately show ?thesis using same_fields_mmap [OF top(2)] by (intro undone)
    next
      case low: False
      then have gt: "rbase mm < unat r" by (simp add: word_le_nat_alt)
      note up = region_upto_props [OF mm(1) lim(1) gt lim(2)]
      let ?um = "\<lparr>base_pa = 0, base_va = base_va mm, mm_size = r - base_va mm, mm_attr = 0, granularity = 0\<rparr>"
      have im: "implements e False (ms @ region_upto mm r # []) (ctx1\<lparr>mmap := old\<rparr>)"
        using partial_mapping [OF imp mm sep ok(2) a lim(1) gt lim(2) top(2,3,5) top(6) [unfolded lim(3)] top(7) [unfolded lim(3)]] by simp
      have um: "rbase ?um = rbase (region_upto mm r)" "rend ?um = rend (region_upto mm r)"
        by (simp_all add: region_upto_def rend_def)
      have sep': "\<forall>c \<in> set (ms @ []). separate c (region_upto mm r)"
        using sep up(1,2) lim(2) by (auto simp: separate_def)
      have top': "rend (region_upto mm r) \<le> unat (va_max_address (ctx1\<lparr>mmap := old\<rparr>)) + 1"
        using up(2) lim(2) mm(2) sf by simp
      obtain ctx2 where u: "xlat_tables_unmap_region ?um 0 (base_table (ctx1\<lparr>mmap := old\<rparr>)) (base_table_entries (ctx1\<lparr>mmap := old\<rparr>))
            (base_level (ctx1\<lparr>mmap := old\<rparr>)) (ctx1\<lparr>mmap := old\<rparr>) = (Returned (), ctx2)"
          "same_fields (ctx1\<lparr>mmap := old\<rparr>) ctx2" "implements e False (ms @ []) ctx2"
        using unmap_region_implements [OF im up(4) um up(3) top' sep'] by blast
      have "map_dynamic_region e mm old ctx = (Returned (- XLAT_ENOMEM), ctx2)"
        using top(1) False low u(1) by (simp add: map_dynamic_region_def Let_def)
      moreover have "same_fields (ctx\<lparr>mmap := old\<rparr>) ctx2"
        by (rule same_fields_trans [OF same_fields_mmap [OF top(2)] u(2)])
      moreover have "table_trans ctx2 v = table_trans ctx v" if "v \<le> unat (va_max_address ctx)" for v
        using u(3) imp that same_fields_simps [OF u(2)] sf by (simp add: implements_def)
      ultimately show ?thesis by (rule undone)
    qed
  qed
qed

end
