(* ===== verification/Xlat_System.thy ===== *)
theory Xlat_System
  imports Xlat_Dynamic
begin

text \<open>
  What initialisation rests on: the checks on a new region, the number of entries and the level of the
  base table for the size of the address space, empty tables, and the mapping of the whole list.
\<close>

section \<open>The checks on a new region\<close>

lemma page_aligned: "IS_PAGE_ALIGNED x \<longleftrightarrow> 4096 dvd unat x"
  using and_block_mask [of 0 x] by (simp add: IS_PAGE_ALIGNED_def bsz_0 XLAT_BLOCK_MASK_def XLAT_BLOCK_SIZE_def XLAT_ADDR_SHIFT_def)

lemma end_no_wrap:
  fixes b s :: uint64_t
  assumes "s \<noteq> 0" "b \<le> b + s - 1"
  shows "unat (b + s - 1) + 1 = unat b + unat s"
proof -
  have "b \<le> b + (s - 1)" using assms(2) by (simp add: algebra_simps)
  then have "unat (b + (s - 1)) = unat b + unat (s - 1)" by (simp add: no_olen_add_nat unat_word_ariths(1))
  moreover have "unat (s - 1) = unat s - 1" using assms(1) by (simp add: unat_minus_one)
  moreover have "0 < unat s" using assms(1) by (simp add: unat_gt_0)
  ultimately show ?thesis by (simp add: algebra_simps)
qed

definition limits_ok :: "xlat_ctx_t \<Rightarrow> bool" where
  "limits_ok ctx \<longleftrightarrow> unat (va_max_address ctx) < 2 ^ 48 \<and> unat (pa_max_address ctx) < 2 ^ 48"

definition within :: "xlat_ctx_t \<Rightarrow> mmap_region_t \<Rightarrow> bool" where
  "within ctx mm \<longleftrightarrow> rend mm \<le> unat (va_max_address ctx) + 1 \<and> unat (base_pa mm) + unat (mm_size mm) \<le> unat (pa_max_address ctx) + 1"

lemma add_region_check:
  assumes chk: "mmap_add_region_check mm ctx = 0" and sz: "mm_size mm \<noteq> 0" and lim: "limits_ok ctx"
  shows "region_ok mm" "within ctx mm" "length (mmap ctx) < mmap_num ctx" "overlap_check_loop mm (mmap ctx) = 0"
proof -
  have c: "IS_PAGE_ALIGNED (base_pa mm)" "IS_PAGE_ALIGNED (base_va mm)" "IS_PAGE_ALIGNED (mm_size mm)"
    "base_pa mm \<le> region_end_pa mm" "base_va mm \<le> region_end_va mm" "region_end_va mm \<le> va_max_address ctx"
    "region_end_pa mm \<le> pa_max_address ctx"
    using chk by (auto simp: mmap_add_region_check_def Let_def not_less split: if_splits)
  show "length (mmap ctx) < mmap_num ctx" "overlap_check_loop mm (mmap ctx) = 0"
    using chk by (auto simp: mmap_add_region_check_def Let_def not_less split: if_splits)
  have va: "unat (region_end_va mm) + 1 = rend mm" and pa: "unat (region_end_pa mm) + 1 = unat (base_pa mm) + unat (mm_size mm)"
    using end_no_wrap [OF sz, of "base_va mm"] end_no_wrap [OF sz, of "base_pa mm"] c(4,5)
    by (simp_all add: region_end_va_def region_end_pa_def rend_def)
  show w: "within ctx mm" using va pa c(6,7) by (simp add: within_def word_le_nat_alt)
  have "0 < unat (mm_size mm)" using sz by (simp add: unat_gt_0)
  then show "region_ok mm" using c(1-3) w lim by (simp add: region_ok_def within_def limits_ok_def page_aligned)
qed

section \<open>The geometry of the tables\<close>

lemma power_of_two_dvd:
  fixes n :: nat
  assumes "n AND (n - 1) = 0" "2 ^ m \<le> n"
  shows "2 ^ m dvd n"
proof (rule ccontr)
  assume "\<not> 2 ^ m dvd n"
  then have r: "n mod 2 ^ m \<noteq> 0" by (simp add: dvd_eq_mod_eq_0)
  have n: "n = 2 ^ m * (n div 2 ^ m) + n mod 2 ^ m" by simp
  have "n - 1 = 2 ^ m * (n div 2 ^ m) + (n mod 2 ^ m - 1)" using n r by linarith
  moreover have "n mod 2 ^ m - 1 < 2 ^ m" by (simp add: less_imp_diff_less)
  ultimately have "(n - 1) div 2 ^ m = n div 2 ^ m" by simp
  then have "drop_bit m (n - 1) = drop_bit m n" by (simp add: drop_bit_eq_div)
  then have "drop_bit m (n AND (n - 1)) = drop_bit m n" by (simp only: drop_bit_and and.idem)
  then have "n div 2 ^ m = 0" using assms(1) by (simp add: drop_bit_eq_div)
  then show False using assms(2) by (simp add: div_eq_0_iff)
qed

lemma level_base_cases:
  assumes "unat w \<le> 2 ^ 48" "2 ^ 16 \<le> unat w"
  obtains (l0) "GET_XLAT_TABLE_LEVEL_BASE w = 0" "bsz 3 \<le> unat w" | (l1) "GET_XLAT_TABLE_LEVEL_BASE w = 1" "bsz 2 \<le> unat w" "unat w \<le> 2 ^ 39"
    | (l2) "GET_XLAT_TABLE_LEVEL_BASE w = 2" "bsz 1 \<le> unat w" "unat w \<le> 2 ^ 30" | (l3) "GET_XLAT_TABLE_LEVEL_BASE w = 3" "bsz 0 \<le> unat w" "unat w \<le> 2 ^ 21"
proof -
  have l: "GET_XLAT_TABLE_LEVEL_BASE w = (if 2 ^ 39 < unat w then 0 else if 2 ^ 30 < unat w then 1 else if 2 ^ 21 < unat w then 2 else 3)"
    by (simp add: GET_XLAT_TABLE_LEVEL_BASE_def word_less_nat_alt)
  consider "2 ^ 39 < unat w" | "unat w \<le> 2 ^ 39" "2 ^ 30 < unat w" | "unat w \<le> 2 ^ 30" "2 ^ 21 < unat w" | "unat w \<le> 2 ^ 21" by linarith
  then show thesis by cases (use assms that l in \<open>simp_all add: bsz_def\<close>)
qed

definition size_ok :: "uintptr_t \<Rightarrow> bool" where
  "size_ok va_max \<longleftrightarrow> 0xFFFF \<le> va_max \<and> va_max \<le> 0xFFFFFFFFFFFF \<and> (va_max + 1) AND va_max = 0"

lemma geometry:
  assumes sz: "size_ok (va_max_address ctx)" and b: "base_level ctx = GET_XLAT_TABLE_LEVEL_BASE (va_max_address ctx + 1)"
    "base_table_entries ctx = GET_NUM_BASE_LEVEL_ENTRIES (va_max_address ctx + 1)"
  shows "geometry_ok ctx"
proof -
  let ?w = "va_max_address ctx + 1"
  have v: "2 ^ 16 - 1 \<le> unat (va_max_address ctx)" "unat (va_max_address ctx) < 2 ^ 48"
    using sz by (simp_all add: size_ok_def word_le_nat_alt)
  then have w: "unat ?w = unat (va_max_address ctx) + 1" by (simp add: unat_word_ariths(1))
  then have lim: "unat ?w \<le> 2 ^ 48" "2 ^ 16 \<le> unat ?w" using v by simp_all
  have "unat ?w AND (unat ?w - 1) = unat (?w AND va_max_address ctx)" using w by (simp add: unsigned_and_eq)
  then have two: "unat ?w AND (unat ?w - 1) = 0" using sz by (simp add: size_ok_def)
  have fits: "base_table_entries ctx * bsz h = unat (va_max_address ctx) + 1 \<and> 0 < base_table_entries ctx"
    if h: "h \<le> 3" "base_level ctx = 3 - h" "bsz h \<le> unat ?w" for h
  proof -
    have "bsz h dvd unat ?w" unfolding bsz_def by (rule power_of_two_dvd [OF two]) (use h in \<open>simp add: bsz_def\<close>)
    moreover have "XLAT_ADDR_SHIFT (3 - h) = 12 + 9 * h" using h(1) by (simp add: XLAT_ADDR_SHIFT_def)
    then have "base_table_entries ctx = unat ?w div bsz h"
      using h b unat_drop_bit_eq [of "12 + 9 * h" ?w] by (simp add: GET_NUM_BASE_LEVEL_ENTRIES_def drop_bit_eq_div [where 'a = nat] bsz_def)
    ultimately show ?thesis using w h(3) by (simp add: div_greater_zero_iff)
  qed
  from lim have "base_level ctx \<le> 3 \<and> bsz (base_height ctx) \<le> unat ?w \<and> unat ?w \<le> 512 * bsz (base_height ctx)"
    by (cases rule: level_base_cases) (use b lim in \<open>simp_all add: bsz_def\<close>)
  moreover from this have f: "base_table_entries ctx * bsz (base_height ctx) = unat ?w \<and> 0 < base_table_entries ctx"
    using fits [of "base_height ctx"] w by simp
  moreover have "base_table_entries ctx \<le> 512" using calculation by (metis bsz_pos mult_le_cancel2)
  ultimately show ?thesis using b(1) v(2) w by (simp add: geometry_ok_def)
qed

section \<open>Empty tables\<close>

definition memory_ok :: "xlat_ctx_t \<Rightarrow> bool" where
  "memory_ok ctx \<longleftrightarrow>
     distinct (xlat_tables ctx) \<and> (\<forall>t \<in> set (xlat_tables ctx). sub_of t = t) \<and> base_table ctx \<notin> set (xlat_tables ctx)"

lemma clear_tables_fields: "same_fields ctx (clear_tables ctx)"
  by (simp add: clear_tables_def same_fields_def)

lemma clear_tables_implements:
  assumes "geometry_ok ctx" "regime_ok ctx" "memory_ok ctx"
  shows "implements e True [] (clear_tables ctx)" "pool_ok (clear_tables ctx)"
proof -
  let ?c = "clear_tables ctx"
  note f = same_fields_simps [OF clear_tables_fields [of ctx]]
  have z: "xlat_mem ?c (base_table ctx) i = 0" if "i < base_table_entries ctx" for i using that by (simp add: clear_tables_def)
  have pb: "pool_base ?c" using assms(3) by (simp add: clear_tables_def pool_base_def memory_ok_def)
  have "table_ok (covered []) ?c (base_height ctx) (base_table ctx) (base_table_entries ctx) 0"
    using z assms(3) free_tables_subset [of ?c] by (auto simp: table_ok_def tok_def tsub_def memory_ok_def f)
  moreover have "table_trans ?c v = None" for v using z by (simp add: table_trans_def ttrans_def f)
  moreover have "ecnt True (rcount []) (cnt ?c) (xlat_mem ?c) (base_height ctx) (xlat_mem ?c (base_table ctx) i) (i * bsz (base_height ctx))"
    if "i < base_table_entries ctx" for i using z [OF that] by (simp add: ecnt_invalid)
  moreover have "geometry_ok ?c" "regime_ok ?c" using assms(1,2) by (simp_all add: geometry_ok_def regime_ok_def f)
  ultimately show "implements e True [] ?c" using pb by (simp add: implements_def lookup_def f)
  show "pool_ok ?c" using pb free_tables_subset [of ?c] by (auto simp: pool_ok_def clear_tables_def)
qed

section \<open>Mapping the list\<close>

lemma init_loop:
  assumes "implements e x ds ctx" "pool_ok ctx"
    and "\<forall>c \<in> set ms. region_ok c \<and> rend c \<le> unat (va_max_address ctx) + 1 \<and> attr_ok c \<and> may_map c ds" "\<forall>c \<in> set ds. attr_ok c"
    and "sorted_wrt (\<lambda>c d. nested c d \<or> separate c d) ms"
  obtains (filled) ctx' where "init_regions_loop e ms ctx = (Returned (), ctx')" "same_fields ctx ctx'" "implements e x (ds @ ms) ctx'" "pool_ok ctx'"
    | (exhausted) ctx' where "init_regions_loop e ms ctx = (Panicked, ctx')" "free_tables ctx' = {}"
  using assms
proof (induction ms arbitrary: ds ctx thesis)
  case Nil
  then show ?case by simp
next
  case (Cons mm ms)
  have mm: "region_ok mm" "rend mm \<le> unat (va_max_address ctx) + 1" "may_map mm ds" "attr_ok mm" using Cons.prems(5) by simp_all
  obtain r ctx1 where map: "xlat_tables_map_region e mm 0 (base_table ctx) (base_table_entries ctx) (base_level ctx) ctx = (Returned r, ctx1)"
    "same_fields ctx ctx1" "pool_ok ctx1"
    "r = region_end_va mm \<Longrightarrow> implements e x (ds @ [mm]) ctx1" "r \<noteq> region_end_va mm \<Longrightarrow> free_tables ctx1 = {}"
    using map_region_implements [OF Cons.prems(3,4) mm Cons.prems(6)] by blast
  show ?case
  proof (cases "r = region_end_va mm")
    case True
    have rest: "\<forall>c \<in> set ms. region_ok c \<and> rend c \<le> unat (va_max_address ctx1) + 1 \<and> attr_ok c \<and> may_map c (ds @ [mm])"
      using Cons.prems(5,7) same_fields_simps [OF map(2)] by (auto simp: may_map_def)
    have ds: "\<forall>c \<in> set (ds @ [mm]). attr_ok c" using Cons.prems(6) mm(4) by simp
    have srt: "sorted_wrt (\<lambda>c d. nested c d \<or> separate c d) ms" using Cons.prems(7) by simp
    have step: "init_regions_loop e (mm # ms) ctx = init_regions_loop e ms ctx1" using map(1) True by simp
    show ?thesis
    proof (rule Cons.IH [OF _ _ map(4) [OF True] map(3) rest ds srt])
      fix ctx' assume "init_regions_loop e ms ctx1 = (Returned (), ctx')" "same_fields ctx1 ctx'" "implements e x ((ds @ [mm]) @ ms) ctx'" "pool_ok ctx'"
      then show thesis using Cons.prems(1) step same_fields_trans [OF map(2)] by simp
    next
      fix ctx' assume "init_regions_loop e ms ctx1 = (Panicked, ctx')" "free_tables ctx' = {}"
      then show thesis using Cons.prems(2) step by simp
    qed
  next
    case False
    then show ?thesis using map(1,5) by (intro Cons.prems(2)) simp_all
  qed
qed

lemma regions_sorted: "regions_ok ms \<Longrightarrow> sorted_wrt (\<lambda>c d. nested c d \<or> separate c d) ms"
  unfolding regions_ok_def
proof (elim conjE)
  assume ms: "\<forall>c \<in> set ms. region_ok c" "sorted_wrt before ms" "\<forall>c \<in> set ms. \<forall>d \<in> set ms. c \<noteq> d \<longrightarrow> compatible c d"
  have "nested c d \<or> separate c d" if "c \<in> set ms" "d \<in> set ms" "before c d" for c d
  proof -
    have "c \<noteq> d" using that(3) by (auto simp: before_def)
    then have "compatible c d" using ms(3) that by blast
    moreover have "\<not> nested d c" using nested_before that ms(1) by blast
    ultimately show ?thesis by (auto simp: compatible_def)
  qed
  then show ?thesis by (rule sorted_wrt_mono_rel [OF _ ms(2)])
qed

end
