(* ===== verification/Xlat_Ops.thy ===== *)
theory Xlat_Ops
  imports Xlat_System
begin

text \<open>
  The invariant of a context and its preservation by the operations of the library; the contexts
  reachable through them.
\<close>

section \<open>The largest address\<close>

lemma max_of_Max: "max_of f ms = Max (insert 0 (f ` set ms))"
proof -
  have "(\<lambda>mm m. if f mm > m then f mm else m) = (\<lambda>mm. max (f mm))" by (auto simp: fun_eq_iff max_def)
  then have "max_of f ms = fold max (map f ms) 0" by (simp add: max_of_def fold_map comp_def)
  then show ?thesis using Max.set_eq_fold [of 0 "map f ms"] by simp
qed

lemma max_of_insert: "set ms' = insert mm (set ms) \<Longrightarrow> max_of f ms' = max (f mm) (max_of f ms)"
  by (simp add: max_of_Max insert_commute [of 0])

lemma max_of_bound: "c \<in> set ms \<Longrightarrow> f c \<le> max_of f ms"
  by (simp add: max_of_Max)

lemma max_of_le: "(\<And>c. c \<in> set ms \<Longrightarrow> f c \<le> b) \<Longrightarrow> max_of f ms \<le> b"
  by (auto simp: max_of_Max)

section \<open>The invariant\<close>

definition list_ok :: "xlat_ctx_t \<Rightarrow> bool" where
  "list_ok ctx \<longleftrightarrow>
     regions_ok (mmap ctx) \<and> (\<forall>c \<in> set (mmap ctx). within ctx c \<and> attr_ok c) \<and> length (mmap ctx) \<le> mmap_num ctx
     \<and> max_va ctx = max_of region_end_va (mmap ctx) \<and> max_pa ctx = max_of region_end_pa (mmap ctx)"

definition setup_ok :: "xlat_ctx_t \<Rightarrow> bool" where
  "setup_ok ctx \<longleftrightarrow>
     limits_ok ctx \<and> memory_ok ctx \<and> base_level ctx = GET_XLAT_TABLE_LEVEL_BASE (va_max_address ctx + 1)
     \<and> base_table_entries ctx = GET_NUM_BASE_LEVEL_ENTRIES (va_max_address ctx + 1)"

definition xlat_inv :: "xlat_env \<Rightarrow> xlat_ctx_t \<Rightarrow> bool" where
  "xlat_inv e ctx \<longleftrightarrow>
     setup_ok ctx \<and> list_ok ctx \<and> (initialized ctx \<longrightarrow> implements e True (mmap ctx) ctx \<and> pool_ok ctx)"

text \<open>Operations change the list, the largest addresses, the tables and the flag.\<close>

lemma setup_ok_cong:
  "va_max_address c' = va_max_address c \<Longrightarrow> pa_max_address c' = pa_max_address c \<Longrightarrow> xlat_tables c' = xlat_tables c \<Longrightarrow>
   base_table c' = base_table c \<Longrightarrow> base_level c' = base_level c \<Longrightarrow> base_table_entries c' = base_table_entries c \<Longrightarrow>
   setup_ok c' = setup_ok c"
  by (simp add: setup_ok_def limits_ok_def memory_ok_def)

lemma within_cong: "va_max_address c' = va_max_address c \<Longrightarrow> pa_max_address c' = pa_max_address c \<Longrightarrow> within c' = within c"
  by (simp add: within_def fun_eq_iff)

lemma max_update_simps [simp]:
  "implements e x ms (ctx\<lparr>max_pa := p, max_va := v\<rparr>) = implements e x ms ctx" "pool_ok (ctx\<lparr>max_pa := p, max_va := v\<rparr>) = pool_ok ctx"
  "implements e x ms (ctx\<lparr>max_va := v\<rparr>) = implements e x ms ctx" "pool_ok (ctx\<lparr>max_va := v\<rparr>) = pool_ok ctx"
  "implements e x ms (ctx\<lparr>max_pa := p\<rparr>) = implements e x ms ctx" "pool_ok (ctx\<lparr>max_pa := p\<rparr>) = pool_ok ctx"
  "implements e x ms (ctx\<lparr>initialized := b\<rparr>) = implements e x ms ctx" "pool_ok (ctx\<lparr>initialized := b\<rparr>) = pool_ok ctx"
proof -
  have c: "cnt (ctx\<lparr>max_pa := p, max_va := v\<rparr>) = cnt ctx" "cnt (ctx\<lparr>max_va := v\<rparr>) = cnt ctx" "cnt (ctx\<lparr>max_pa := p\<rparr>) = cnt ctx"
    "cnt (ctx\<lparr>initialized := b\<rparr>) = cnt ctx" by (simp_all add: cnt_def fun_eq_iff split: option.split)
  show "implements e x ms (ctx\<lparr>max_pa := p, max_va := v\<rparr>) = implements e x ms ctx" "implements e x ms (ctx\<lparr>max_va := v\<rparr>) = implements e x ms ctx"
    "implements e x ms (ctx\<lparr>max_pa := p\<rparr>) = implements e x ms ctx" "implements e x ms (ctx\<lparr>initialized := b\<rparr>) = implements e x ms ctx"
    by (simp_all add: implements_def table_ok_def free_tables_def pool_base_def table_trans_def geometry_ok_def regime_ok_def c)
qed (simp_all add: pool_ok_def free_tables_def pool_base_def)

section \<open>The order of the list does not matter to a region apart from the others\<close>

lemma insert_split: obtains A C where "mmap_insert mm ms = A @ mm # C" "ms = A @ C"
proof -
  let ?p = "\<lambda>c. region_end_va c < region_end_va mm" and ?q = "\<lambda>c. region_end_va c = region_end_va mm \<and> mm_size c < mm_size mm"
  have "mmap_insert mm ms = (takeWhile ?p ms @ takeWhile ?q (dropWhile ?p ms)) @ mm # dropWhile ?q (dropWhile ?p ms)"
    by (simp add: mmap_insert_def Let_def)
  then show thesis by (rule that) simp
qed

lemma find_separate:
  assumes "\<forall>c \<in> set ms. separate c mm" "rbase mm \<le> v" "v < rend mm"
  shows "List.find (\<lambda>c. rbase c \<le> v \<and> v < rend c) ms = None"
proof -
  have "\<not> (rbase c \<le> v \<and> v < rend c)" if "c \<in> set ms" for c using assms that by (fastforce simp: separate_def)
  then show ?thesis by (simp only: find_None_iff) blast
qed

lemma lookup_moved:
  assumes "\<forall>c \<in> set (A @ C). separate c mm"
  shows "lookup e r (A @ mm # C) v = lookup e r ((A @ C) @ [mm]) v"
proof -
  have none: "List.find (\<lambda>c. rbase c \<le> v \<and> v < rend c) C = None" if "rbase mm \<le> v" "v < rend mm"
    using assms that by (intro find_separate) auto
  show ?thesis by (auto simp: lookup_def find_append none split: option.split)
qed

lemma implements_moved:
  assumes "implements e x ((A @ C) @ [mm]) ctx" "\<forall>c \<in> set (A @ C). separate c mm"
  shows "implements e x (A @ mm # C) ctx"
proof -
  have "covered (A @ mm # C) = covered ((A @ C) @ [mm])" by (auto simp: covered_def fun_eq_iff)
  moreover have "rcount (A @ mm # C) = rcount ((A @ C) @ [mm])" by (simp add: fun_eq_iff rcount_def)
  ultimately show ?thesis using assms(1) lookup_moved [OF assms(2)] by (simp add: implements_def)
qed

lemma dynamic_separate: "compatible mm c \<Longrightarrow> \<not> static mm \<Longrightarrow> separate c mm"
  by (auto simp: compatible_def separate_def)

section \<open>Static regions\<close>

lemma list_add:
  assumes "list_ok ctx" "limits_ok ctx" "attr_ok mm" "mm_size mm \<noteq> 0" "mmap_add_region_check mm ctx = 0"
    and "same_fields (ctx\<lparr>mmap := mmap_insert mm (mmap ctx)\<rparr>) ctx'"
  shows "list_ok (update_max mm ctx')"
proof -
  note f = same_fields_simps [OF assms(6), simplified]
  note chk = add_region_check [OF assms(5,4,2)]
  have "regions_ok (mmap_insert mm (mmap ctx))" by (rule mmap_insert_regions) (use assms(1) chk in \<open>simp_all add: list_ok_def\<close>)
  moreover have "length (mmap_insert mm (mmap ctx)) = Suc (length (mmap ctx))" by (rule insert_split [of mm "mmap ctx"]) simp
  moreover have "within (update_max mm ctx') = within ctx" by (rule within_cong) (simp_all add: update_max_def f)
  moreover have "max_va (update_max mm ctx') = max (region_end_va mm) (max_va ctx)" "max_pa (update_max mm ctx') = max (region_end_pa mm) (max_pa ctx)"
    by (auto simp: update_max_def f max_def)
  moreover have "mmap (update_max mm ctx') = mmap_insert mm (mmap ctx)" "mmap_num (update_max mm ctx') = mmap_num ctx"
    by (simp_all add: update_max_def f)
  ultimately show ?thesis
    using assms(1,3) chk(2,3) max_of_insert [OF mmap_insert_set [of mm "mmap ctx"]]
    by (simp add: list_ok_def mmap_insert_set)
qed

lemma same_fields_setup: "same_fields c c' \<Longrightarrow> setup_ok c' = setup_ok c"
  using same_fields_simps by (intro setup_ok_cong) blast+

lemma setup_update [simp]: "setup_ok (update_max mm ctx) = setup_ok ctx" "setup_ok (ctx\<lparr>mmap := l\<rparr>) = setup_ok ctx"
  "setup_ok (ctx\<lparr>max_va := v\<rparr>) = setup_ok ctx" "setup_ok (ctx\<lparr>max_pa := p\<rparr>) = setup_ok ctx" "setup_ok (ctx\<lparr>initialized := b\<rparr>) = setup_ok ctx"
  by (simp_all add: setup_ok_def limits_ok_def memory_ok_def update_max_def)

lemma update_max_fields [simp]: "mmap (update_max mm c) = mmap c" "initialized (update_max mm c) = initialized c"
  "va_max_address (update_max mm c) = va_max_address c" "xlat_regime (update_max mm c) = xlat_regime c"
  by (simp_all add: update_max_def)

lemma add_region_inv:
  assumes "xlat_inv e ctx" "attr_ok mm" "mmap_add_region_ctx mm ctx = (Returned (), ctx')"
  shows "xlat_inv e ctx'"
proof (cases "mm_size mm = 0")
  case True
  then show ?thesis using assms by (simp add: mmap_add_region_ctx_def)
next
  case False
  then have c: "\<not> initialized ctx" "mmap_add_region_check mm ctx = 0" "ctx' = update_max mm (ctx\<lparr>mmap := mmap_insert mm (mmap ctx)\<rparr>)"
    using assms(3) by (auto simp: mmap_add_region_ctx_def split: if_splits)
  have "list_ok ctx'" unfolding c(3) by (rule list_add [OF _ _ assms(2) False c(2)]) (use assms(1) in \<open>simp_all add: xlat_inv_def setup_ok_def\<close>)
  then show ?thesis using assms(1) c by (simp add: xlat_inv_def update_max_def)
qed

lemma add_regions_inv:
  "xlat_inv e ctx \<Longrightarrow> \<forall>mm \<in> set mms. attr_ok mm \<Longrightarrow> mmap_add_ctx mms ctx = (Returned (), ctx') \<Longrightarrow> xlat_inv e ctx'"
proof (induction mms arbitrary: ctx)
  case (Cons mm mms)
  then show ?case
    by (auto split: if_splits prod.splits outcome.splits unit.splits intro: add_region_inv)
qed simp

lemma alloc_align_attr: "mm_attr (alloc_va_align_loop ls a mm) = mm_attr mm"
  by (induction ls) auto

lemma add_region_alloc_inv:
  assumes "xlat_inv e ctx" "attr_ok mm" "mmap_add_region_alloc_va_ctx mm ctx = (Returned (), mm', ctx')"
  shows "xlat_inv e ctx'"
proof -
  let ?mm = "mmap_alloc_va_align_ctx ctx (mm\<lparr>base_va := max_va ctx + 1\<rparr>)"
  have "attr_ok ?mm" using assms(2) by (simp add: attr_ok_def mmap_alloc_va_align_ctx_def alloc_align_attr)
  moreover have "mmap_add_region_ctx ?mm ctx = (Returned (), ctx')"
    using assms(3) by (auto simp: mmap_add_region_alloc_va_ctx_def Let_def split: if_splits prod.splits)
  ultimately show ?thesis by (rule add_region_inv [OF assms(1)])
qed

section \<open>Dynamic regions\<close>

lemma dynamic_attr: "attr_ok (mm\<lparr>mm_attr := mm_attr mm OR MT_DYNAMIC\<rparr>) = attr_ok mm" "\<not> static (mm\<lparr>mm_attr := mm_attr mm OR MT_DYNAMIC\<rparr>)"
proof -
  have "(a OR MT_DYNAMIC) AND MT_TYPE_MASK = a AND MT_TYPE_MASK" for a :: uint32_t
    by (simp add: bit.conj_disj_distrib2)
  then show "attr_ok (mm\<lparr>mm_attr := mm_attr mm OR MT_DYNAMIC\<rparr>) = attr_ok mm" by (simp add: attr_ok_def)
  show "\<not> static (mm\<lparr>mm_attr := mm_attr mm OR MT_DYNAMIC\<rparr>)" by (simp add: bit.conj_disj_distrib2)
qed

text \<open>The three ways the addition of a dynamic region ends: refused, done, and undone because the pool was exhausted.\<close>

lemma add_dynamic_cases:
  assumes inv: "xlat_inv e ctx" and ok: "attr_ok mm"
  obtains (unchanged) r mm' where "mmap_add_dynamic_region_ctx e mm ctx = (Returned r, mm', ctx)" "r = 0 \<longrightarrow> mm_size mm = 0"
    | (added) A C mm' ctx' where "mmap_add_dynamic_region_ctx e mm ctx = (Returned 0, mm', ctx')" "xlat_inv e ctx'"
        "mm' = mm\<lparr>mm_attr := mm_attr mm OR MT_DYNAMIC\<rparr>" "mmap ctx = A @ C" "mmap ctx' = A @ mm' # C" "\<forall>c \<in> set (A @ C). separate c mm'"
        "va_max_address ctx' = va_max_address ctx" "initialized ctx' = initialized ctx" "xlat_regime ctx' = xlat_regime ctx"
    | (undone) mm' ctx' where "mmap_add_dynamic_region_ctx e mm ctx = (Returned (- XLAT_ENOMEM), mm', ctx')" "same_fields ctx ctx'" "initialized ctx"
        "\<And>v. v \<le> unat (va_max_address ctx) \<Longrightarrow> table_trans ctx' v = table_trans ctx v"
proof (cases "mm_size mm = 0 \<or> mmap_add_region_check (mm\<lparr>mm_attr := mm_attr mm OR MT_DYNAMIC\<rparr>) ctx \<noteq> 0")
  case True
  then have "\<exists>r mm'. mmap_add_dynamic_region_ctx e mm ctx = (Returned r, mm', ctx) \<and> (r = 0 \<longrightarrow> mm_size mm = 0)"
    by (auto simp: mmap_add_dynamic_region_ctx_def Let_def)
  then show ?thesis using unchanged by blast
next
  case False
  let ?mm = "mm\<lparr>mm_attr := mm_attr mm OR MT_DYNAMIC\<rparr>" and ?old = "mmap ctx"
  let ?ctx = "ctx\<lparr>mmap := mmap_insert ?mm ?old\<rparr>"
  have chk: "mm_size ?mm \<noteq> 0" "mmap_add_region_check ?mm ctx = 0" using False by simp_all
  have st: "setup_ok ctx" "list_ok ctx" "limits_ok ctx" using inv by (simp_all add: xlat_inv_def setup_ok_def)
  note c = add_region_check [OF chk(2,1) st(3)]
  have okm: "attr_ok ?mm" using ok dynamic_attr(1) by simp
  have oks: "\<forall>c \<in> set ?old. attr_ok c" using st(2) by (simp add: list_ok_def)
  have sep: "\<forall>c \<in> set ?old. separate c ?mm"
    using overlap_check [OF c(4,1)] st(2) dynamic_separate dynamic_attr(2) by (simp add: list_ok_def regions_ok_def)
  have eq: "mmap_add_dynamic_region_ctx e mm ctx =
     (let (r, ctx) = (if initialized ctx then map_dynamic_region e ?mm ?old ?ctx else (Returned 0, ?ctx))
      in if r = Returned 0 then (Returned 0, ?mm, update_max ?mm ctx) else (r, ?mm, ctx))"
    using chk by (simp add: mmap_add_dynamic_region_ctx_def Let_def)
  obtain A C where ins: "mmap_insert ?mm ?old = A @ ?mm # C" "?old = A @ C" by (rule insert_split)
  have sep': "\<forall>c \<in> set (A @ C). separate c ?mm" using sep unfolding ins(2) .
  show ?thesis
  proof (cases "initialized ctx")
    case off: False
    have "list_ok (update_max ?mm ?ctx)" by (rule list_add [OF st(2,3) okm chk]) simp
    then have "xlat_inv e (update_max ?mm ?ctx)" using off st(1) by (simp add: xlat_inv_def update_max_def)
    moreover have "mmap_add_dynamic_region_ctx e mm ctx = (Returned 0, ?mm, update_max ?mm ?ctx)" using eq off by (simp add: Let_def)
    moreover note ins sep'
    ultimately show ?thesis using added [of ?mm "update_max ?mm ?ctx" A C] by simp
  next
    case True
    then have imp: "implements e True ?old ?ctx" "pool_ok ?ctx" using inv by (simp_all add: xlat_inv_def)
    have top: "rend ?mm \<le> unat (va_max_address ?ctx) + 1" using c(2) by (simp add: within_def)
    show ?thesis
    proof (rule map_dynamic_outcome [OF imp c(1) top sep okm oks, of ?old])
      fix ctx' assume m: "map_dynamic_region e ?mm ?old ?ctx = (Returned 0, ctx')" "same_fields ?ctx ctx'" "pool_ok ctx'"
        "implements e True (?old @ [?mm]) ctx'"
      have "implements e True (A @ ?mm # C) ctx'" by (rule implements_moved) (use m(4) sep ins in simp_all)
      moreover have "list_ok (update_max ?mm ctx')" by (rule list_add [OF st(2,3) okm chk m(2)])
      moreover have "setup_ok ctx'" using same_fields_setup [OF m(2)] st(1) by simp
      moreover have "mmap ctx' = A @ ?mm # C" using same_fields_simps [OF m(2)] ins(1) by simp
      ultimately have "xlat_inv e (update_max ?mm ctx')" using m(3) by (simp add: xlat_inv_def update_max_def)
      moreover have "mmap_add_dynamic_region_ctx e mm ctx = (Returned 0, ?mm, update_max ?mm ctx')" using eq True m(1) by (simp add: Let_def)
      moreover note ins sep'
      ultimately show ?thesis using added [of ?mm "update_max ?mm ctx'" A C] same_fields_simps [OF m(2)] by simp
    next
      fix ctx' assume m: "map_dynamic_region e ?mm ?old ?ctx = (Returned (- XLAT_ENOMEM), ctx')" "same_fields (?ctx\<lparr>mmap := ?old\<rparr>) ctx'"
        "\<And>v. v \<le> unat (va_max_address ?ctx) \<Longrightarrow> table_trans ctx' v = table_trans ?ctx v"
      have "mmap_add_dynamic_region_ctx e mm ctx = (Returned (- XLAT_ENOMEM), ?mm, ctx')" using eq True m(1) by (simp add: Let_def)
      then show ?thesis using undone [of ?mm ctx'] m(2,3) True by simp
    qed
  qed
qed

section \<open>Removing a dynamic region\<close>

lemma find_split:
  "List.find p ms = Some mm \<Longrightarrow>
     \<exists>C. dropWhile (\<lambda>x. \<not> p x) ms = mm # C \<and> ms = takeWhile (\<lambda>x. \<not> p x) ms @ mm # C \<and> p mm"
  by (induction ms) (auto split: if_splits)

lemma regions_remove:
  assumes "regions_ok (A @ mm # C)"
  shows "regions_ok (A @ C)" "\<forall>c \<in> set (A @ C). compatible mm c"
proof -
  show "regions_ok (A @ C)" using assms by (auto simp: regions_ok_def sorted_wrt_append)
  have "mm \<notin> set (A @ C)" using assms by (auto simp: regions_ok_def sorted_wrt_append before_def)
  then show "\<forall>c \<in> set (A @ C). compatible mm c" using assms by (auto simp: regions_ok_def)
qed

lemma max_of_remove: "f mm \<noteq> max_of f (A @ mm # C) \<Longrightarrow> max_of f (A @ C) = max_of f (A @ mm # C)"
  using max_of_insert [of "A @ mm # C" mm "A @ C" f] by (simp add: max_def split: if_splits)

lemma remove_dynamic_cases:
  assumes inv: "xlat_inv e ctx"
  obtains (unchanged) r where "mmap_remove_dynamic_region_ctx va sz ctx = (Returned r, ctx)" "r \<noteq> 0"
    | (removed) A mm C ctx' where "mmap_remove_dynamic_region_ctx va sz ctx = (Returned 0, ctx')" "xlat_inv e ctx'"
        "mmap ctx = A @ mm # C" "mmap ctx' = A @ C" "base_va mm = va" "mm_size mm = sz" "\<forall>c \<in> set (A @ C). separate c mm"
        "va_max_address ctx' = va_max_address ctx" "initialized ctx' = initialized ctx" "xlat_regime ctx' = xlat_regime ctx"
proof -
  let ?p = "\<lambda>mm. base_va mm = va \<and> mm_size mm = sz"
  show ?thesis
  proof (cases "List.find ?p (mmap ctx)")
    case None
    then show ?thesis by (intro unchanged [of "- XLAT_EINVAL"]) (simp_all add: mmap_remove_dynamic_region_ctx_def Let_def)
  next
    case (Some mm)
    define A where "A = takeWhile (\<lambda>x. \<not> ?p x) (mmap ctx)"
    obtain C where ms: "A = takeWhile (\<lambda>x. \<not> ?p x) (mmap ctx)" "dropWhile (\<lambda>x. \<not> ?p x) (mmap ctx) = mm # C" "mmap ctx = A @ mm # C" "?p mm"
      using find_split [OF Some] unfolding A_def by blast
    show ?thesis
    proof (cases "static mm")
      case True
      then show ?thesis using Some by (intro unchanged [of "- XLAT_EPERM"]) (simp_all add: mmap_remove_dynamic_region_ctx_def Let_def)
    next
      case dyn: False
      have st: "setup_ok ctx" "list_ok ctx" using inv by (simp_all add: xlat_inv_def)
      then have reg: "regions_ok (A @ mm # C)" by (simp add: list_ok_def ms(3))
      note rm = regions_remove [OF reg]
      have sep: "\<forall>c \<in> set (A @ C). separate c mm" using rm(2) dynamic_separate dyn by blast
      have mm: "region_ok mm" "rend mm \<le> unat (va_max_address ctx) + 1"
        using st(2) by (simp_all add: list_ok_def within_def regions_ok_def ms(3))
      define T where "T = (if initialized ctx then xlat_tables_unmap_region mm 0 (base_table ctx) (base_table_entries ctx) (base_level ctx) ctx
          else (Returned (), ctx))"
      obtain ctx1 where un: "T = (Returned (), ctx1)" "same_fields ctx ctx1"
        "initialized ctx \<Longrightarrow> implements e True (A @ C) ctx1 \<and> pool_ok ctx1"
      proof (cases "initialized ctx")
        case True
        then have imp: "implements e True (A @ mm # C) ctx" "pool_ok ctx" using inv ms(3) by (simp_all add: xlat_inv_def)
        show thesis
          using unmap_region_implements [OF imp(1) mm(1) refl refl mm sep] imp(2) True that unfolding T_def by auto
      qed (use that in \<open>simp add: T_def\<close>)
      note f = same_fields_simps [OF un(2)]
      define ctx2 where "ctx2 = (if region_end_va mm = max_va ctx then (ctx1\<lparr>mmap := A @ C\<rparr>)\<lparr>max_va := max_of region_end_va (A @ C)\<rparr> else ctx1\<lparr>mmap := A @ C\<rparr>)"
      define ctx3 where "ctx3 = (if region_end_pa mm = max_pa ctx then ctx2\<lparr>max_pa := max_of region_end_pa (A @ C)\<rparr> else ctx2)"
      have call: "mmap_remove_dynamic_region_ctx va sz ctx = (Returned 0, ctx3)"
        using Some dyn un(1) ms(2) f unfolding mmap_remove_dynamic_region_ctx_def Let_def T_def ctx2_def ctx3_def A_def by simp
      have g: "mmap ctx3 = A @ C" "mmap_num ctx3 = mmap_num ctx" "va_max_address ctx3 = va_max_address ctx" "pa_max_address ctx3 = pa_max_address ctx"
        "initialized ctx3 = initialized ctx" "xlat_regime ctx3 = xlat_regime ctx"
        by (simp_all add: ctx3_def ctx2_def f)
      have mx: "max_va ctx = max_of region_end_va (A @ mm # C)" "max_pa ctx = max_of region_end_pa (A @ mm # C)"
        using st(2) by (simp_all add: list_ok_def ms(3))
      have "max_va ctx3 = max_of region_end_va (A @ C)" "max_pa ctx3 = max_of region_end_pa (A @ C)"
        using max_of_remove [of region_end_va mm A C] max_of_remove [of region_end_pa mm A C] mx by (simp_all add: ctx3_def ctx2_def f)
      moreover have "within ctx3 = within ctx" by (rule within_cong) (simp_all add: g)
      ultimately have "list_ok ctx3" using st(2) rm(1) g by (simp add: list_ok_def ms(3))
      moreover have "setup_ok ctx3" using same_fields_setup [OF un(2)] st(1) by (simp add: ctx3_def ctx2_def)
      moreover have "implements e True (A @ C) ctx3 = implements e True (A @ C) ctx1" "pool_ok ctx3 = pool_ok ctx1"
        by (simp_all add: ctx3_def ctx2_def)
      ultimately have "xlat_inv e ctx3" using un(3) g(1,5) by (simp add: xlat_inv_def)
      then show ?thesis using removed [OF call _ ms(3) g(1) _ _ sep g(3,5,6)] ms(4) by blast
    qed
  qed
qed

end
