(* ===== verification/Xlat_Reach.thy ===== *)
theory Xlat_Reach
  imports Xlat_Ops
begin

text \<open>
  Initialisation, and the contexts that any sequence of calls of the library can reach.
\<close>

section \<open>Initialisation\<close>

text \<open>The assertions before the tables are filled, and the one on the physical address range after.\<close>

definition init_checked :: "xlat_env \<Rightarrow> xlat_ctx_t \<Rightarrow> bool" where
  "init_checked e ctx \<longleftrightarrow>
     \<not> initialized ctx \<and> regime_ok ctx \<and> va_max_address ctx \<ge> xlat_get_min_virt_addr_space_size e - 1
     \<and> va_max_address ctx \<le> 0xFFFFFFFFFFFF \<and> (va_max_address ctx + 1) AND va_max_address ctx = 0"

definition pa_supported :: "xlat_env \<Rightarrow> xlat_ctx_t \<Rightarrow> bool" where
  "pa_supported e ctx \<longleftrightarrow> (case xlat_arch_get_max_supported_pa e of None \<Rightarrow> False | Some m \<Rightarrow> pa_max_address ctx \<le> m)"

lemma size_allowed: "init_checked e ctx \<Longrightarrow> size_ok (va_max_address ctx)"
  by (auto simp: init_checked_def size_ok_def xlat_get_min_virt_addr_space_size_def word_le_nat_alt split: if_splits)

lemma end_within:
  assumes "region_ok c" "within ctx c"
  shows "region_end_va c \<le> va_max_address ctx" "region_end_pa c \<le> pa_max_address ctx"
  using assms region_end_unat [of c] region_end_pa_unat [of c] region_size_pos [of c] by (auto simp: word_le_nat_alt within_def)

lemma max_within:
  assumes "list_ok ctx"
  shows "max_va ctx \<le> va_max_address ctx" "max_pa ctx \<le> pa_max_address ctx"
proof -
  have "region_end_va c \<le> va_max_address ctx" "region_end_pa c \<le> pa_max_address ctx" if "c \<in> set (mmap ctx)" for c
    using end_within [of c ctx] assms that by (simp_all add: list_ok_def regions_ok_def)
  then show "max_va ctx \<le> va_max_address ctx" "max_pa ctx \<le> pa_max_address ctx"
    using assms max_of_le [of "mmap ctx"] by (simp_all add: list_ok_def)
qed

lemma init_cases:
  assumes inv: "xlat_inv e ctx" and allow: "init_checked e ctx"
  obtains (filled) ctx' where "init_xlat_tables_ctx e ctx = (if pa_supported e ctx then (Returned (), ctx'\<lparr>initialized := True\<rparr>) else (Assert_failed, ctx'))"
      "xlat_inv e (ctx'\<lparr>initialized := True\<rparr>)" "same_fields ctx ctx'"
    | (exhausted) ctx' where "init_xlat_tables_ctx e ctx = (Panicked, ctx')" "free_tables ctx' = {}"
proof -
  have st: "setup_ok ctx" "list_ok ctx" "regime_ok ctx" "\<not> initialized ctx" using inv allow by (simp_all add: xlat_inv_def init_checked_def)
  have geo: "geometry_ok ctx" by (rule geometry [OF size_allowed [OF allow]]) (use st in \<open>simp_all add: setup_ok_def\<close>)
  have mem: "memory_ok ctx" using st(1) by (simp add: setup_ok_def)
  let ?c = "clear_tables ctx"
  note cl = clear_tables_implements(1) [OF geo st(3) mem, of e] clear_tables_implements(2) [OF geo st(3) mem] same_fields_simps [OF clear_tables_fields [of ctx]]
  have reg: "\<forall>c \<in> set (mmap ctx). region_ok c \<and> rend c \<le> unat (va_max_address ?c) + 1 \<and> attr_ok c \<and> may_map c []"
    using st(2) by (simp add: list_ok_def regions_ok_def within_def may_map_def cl)
  have srt: "sorted_wrt (\<lambda>c d. nested c d \<or> separate c d) (mmap ctx)" using regions_sorted st(2) by (simp add: list_ok_def)
  have call: "init_xlat_tables_ctx e ctx = (case init_regions_loop e (mmap ctx) ?c of
     (Returned _, ctx) \<Rightarrow>
       (case xlat_arch_get_max_supported_pa e of None \<Rightarrow> (Assert_failed, ctx)
        | Some m \<Rightarrow> if \<not> pa_max_address ctx \<le> m \<or> \<not> max_va ctx \<le> va_max_address ctx \<or> \<not> max_pa ctx \<le> pa_max_address ctx
            then (Assert_failed, ctx) else (Returned (), ctx\<lparr>initialized := True\<rparr>)) | r \<Rightarrow> r)"
    using allow by (simp add: init_xlat_tables_ctx_def init_checked_def)
  have mx: "max_va ctx \<le> va_max_address ctx" "max_pa ctx \<le> pa_max_address ctx" using max_within [OF st(2)] .
  show ?thesis
  proof (rule init_loop [OF cl(1,2) reg _ srt])
    fix ctx' assume l: "init_regions_loop e (mmap ctx) ?c = (Returned (), ctx')" "same_fields ?c ctx'" "implements e True ([] @ mmap ctx) ctx'" "pool_ok ctx'"
    have sf: "same_fields ctx ctx'" by (rule same_fields_trans [OF clear_tables_fields l(2)])
    note f = same_fields_simps [OF sf]
    have "within ctx' = within ctx" by (rule within_cong) (simp_all add: f)
    then have "list_ok (ctx'\<lparr>initialized := True\<rparr>)" using st(2) f within_cong [of "ctx'\<lparr>initialized := True\<rparr>" ctx] by (simp add: list_ok_def)
    then have "xlat_inv e (ctx'\<lparr>initialized := True\<rparr>)" using st(1) same_fields_setup [OF sf] l(3,4) f by (simp add: xlat_inv_def)
    moreover have "init_xlat_tables_ctx e ctx = (if pa_supported e ctx then (Returned (), ctx'\<lparr>initialized := True\<rparr>) else (Assert_failed, ctx'))"
      using l(1) mx f by (simp add: call pa_supported_def split: option.split)
    ultimately show thesis using filled sf by blast
  next
    fix ctx' assume "init_regions_loop e (mmap ctx) ?c = (Panicked, ctx')" "free_tables ctx' = {}"
    then show thesis by (intro exhausted) (simp_all add: call)
  qed simp
qed

section \<open>Reachable contexts\<close>

definition xlat_start :: "xlat_env \<times> xlat_ctx_t \<Rightarrow> bool" where
  "xlat_start x \<longleftrightarrow>
     (\<exists>pa_max va_max num tables base regime c.
        snd x = xlat_setup_dynamic_ctx pa_max va_max num tables base regime c
        \<and> pa_max \<le> 0xFFFFFFFFFFFF \<and> va_max \<le> 0xFFFFFFFFFFFF
        \<and> distinct tables \<and> (\<forall>t \<in> set tables. t AND TABLE_ADDR_MASK = t) \<and> base \<notin> set tables)"

text \<open>
  The memory type of every region is one the library knows. A dynamic region that does not fit the
  tables left is a last step: see \<open>add_dynamic_cases\<close> for what it leaves.
\<close>

inductive xlat_step :: "xlat_env \<times> xlat_ctx_t \<Rightarrow> xlat_env \<times> xlat_ctx_t \<Rightarrow> bool" where
  step_add: "attr_ok mm \<Longrightarrow> mmap_add_region_ctx mm ctx = (Returned (), ctx') \<Longrightarrow> xlat_step (e, ctx) (e, ctx')"
| step_add_list: "\<forall>mm \<in> set mms. attr_ok mm \<Longrightarrow> mmap_add_ctx mms ctx = (Returned (), ctx') \<Longrightarrow> xlat_step (e, ctx) (e, ctx')"
| step_add_alloc: "attr_ok mm \<Longrightarrow> mmap_add_region_alloc_va_ctx mm ctx = (Returned (), mm', ctx') \<Longrightarrow> xlat_step (e, ctx) (e, ctx')"
| step_init: "init_xlat_tables_ctx e ctx = (Returned (), ctx') \<Longrightarrow> xlat_step (e, ctx) (e, ctx')"
| step_dynamic: "attr_ok mm \<Longrightarrow> mmap_add_dynamic_region_ctx e mm ctx = (r, mm', ctx') \<Longrightarrow> r \<noteq> Returned (- XLAT_ENOMEM) \<Longrightarrow>
     xlat_step (e, ctx) (e, ctx')"
| step_dynamic_alloc: "attr_ok mm \<Longrightarrow> mmap_add_dynamic_region_alloc_va_ctx e mm ctx = (r, mm', ctx') \<Longrightarrow> r \<noteq> Returned (- XLAT_ENOMEM) \<Longrightarrow>
     xlat_step (e, ctx) (e, ctx')"
| step_remove: "mmap_remove_dynamic_region_ctx va sz ctx = (r, ctx') \<Longrightarrow> xlat_step (e, ctx) (e, ctx')"

definition xlat_good :: "xlat_env \<times> xlat_ctx_t \<Rightarrow> bool" where
  "xlat_good x \<longleftrightarrow> xlat_inv (fst x) (snd x)"

lemma xlat_start_good: "xlat_start x \<Longrightarrow> xlat_good x"
  by (auto simp: xlat_start_def xlat_good_def xlat_inv_def setup_ok_def list_ok_def limits_ok_def memory_ok_def regions_ok_def
      xlat_setup_dynamic_ctx_def word_le_nat_alt max_of_def)

lemma dynamic_inv:
  assumes "xlat_inv e ctx" "attr_ok mm" "mmap_add_dynamic_region_ctx e mm ctx = (r, mm', ctx')" "r \<noteq> Returned (- XLAT_ENOMEM)"
  shows "xlat_inv e ctx'"
  by (rule add_dynamic_cases [OF assms(1,2)]) (use assms in auto)

lemma dynamic_alloc_inv:
  assumes "xlat_inv e ctx" "attr_ok mm" "mmap_add_dynamic_region_alloc_va_ctx e mm ctx = (r, mm', ctx')" "r \<noteq> Returned (- XLAT_ENOMEM)"
  shows "xlat_inv e ctx'"
proof -
  let ?mm = "mmap_alloc_va_align_ctx ctx (mm\<lparr>base_va := max_va ctx + 1\<rparr>)"
  have "attr_ok ?mm" using assms(2) by (simp add: attr_ok_def mmap_alloc_va_align_ctx_def alloc_align_attr)
  moreover have "ctx' = ctx \<or> mmap_add_dynamic_region_ctx e ?mm ctx = (r, mm', ctx')"
    using assms(3) by (auto simp: mmap_add_dynamic_region_alloc_va_ctx_def Let_def split: if_splits)
  ultimately show ?thesis using dynamic_inv [OF assms(1) _ _ assms(4)] assms(1) by blast
qed

lemma init_inv:
  assumes inv: "xlat_inv e ctx" and i: "init_xlat_tables_ctx e ctx = (Returned (), ctx')"
  shows "xlat_inv e ctx'"
proof -
  have "init_checked e ctx" using i by (simp add: init_xlat_tables_ctx_def init_checked_def split: if_splits)
  then show ?thesis by (rule init_cases [OF inv]) (use i in \<open>auto split: if_splits\<close>)
qed

interpretation xlat_sys: inductive_invariant xlat_start xlat_step xlat_good
proof
  show "xlat_good x" if "xlat_start x" for x using xlat_start_good that .
  show "xlat_good y" if "xlat_good x" "xlat_step x y" for x y
    using that(2,1)
  proof cases
    case (step_remove va sz ctx r ctx' e)
    then have inv: "xlat_inv e ctx" using that(1) by (simp add: xlat_good_def)
    then have "xlat_inv e ctx'" by (rule remove_dynamic_cases [of e ctx va sz]) (use step_remove inv in auto)
    then show ?thesis using step_remove by (simp add: xlat_good_def)
  qed (auto simp: xlat_good_def intro: add_region_inv add_regions_inv add_region_alloc_inv init_inv dynamic_inv dynamic_alloc_inv)
qed

lemma reach_xlat_inv: "reach xlat_start xlat_step (e, ctx) \<Longrightarrow> xlat_inv e ctx"
  using xlat_sys.reach_inv by (force simp: xlat_good_def)

end
