(* ===== verification/Xlat_Spec.thy ===== *)
theory Xlat_Spec
  imports Xlat_Reach
begin

text \<open>
  What the list of regions means to the program that runs under the tables, and the translation of
  an address in a context that keeps the invariant.
\<close>

section \<open>The region of an address\<close>

definition region_has :: "mmap_region_t \<Rightarrow> uintptr_t \<Rightarrow> bool" where
  "region_has mm va \<longleftrightarrow> base_va mm \<le> va \<and> va \<le> region_end_va mm"

text \<open>The smallest of the regions that contain the address.\<close>

definition innermost :: "mmap_region_t list \<Rightarrow> uintptr_t \<Rightarrow> mmap_region_t option" where
  "innermost ms va =
     (case filter (\<lambda>c. region_has c va) ms of
        [] \<Rightarrow> None
      | c # cs \<Rightarrow> Some (fold (\<lambda>d best. if mm_size d < mm_size best then d else best) cs c))"

text \<open>The attribute bits of the descriptors the library makes for a region.\<close>

definition region_attr :: "xlat_env \<Rightarrow> xlat_ctx_t \<Rightarrow> mmap_region_t \<Rightarrow> uint64_t" where
  "region_attr e ctx mm = (case xlat_desc e ctx (mm_attr mm) 0 3 of Returned d \<Rightarrow> attr_bits d | _ \<Rightarrow> 0)"

definition region_value :: "xlat_env \<Rightarrow> xlat_ctx_t \<Rightarrow> uintptr_t \<Rightarrow> mmap_region_t \<Rightarrow> uint64_t \<times> uint64_t" where
  "region_value e ctx va mm = (base_pa mm + (va - base_va mm), region_attr e ctx mm)"

lemma region_has_nat: "region_ok c \<Longrightarrow> region_has c va \<longleftrightarrow> rbase c \<le> unat va \<and> unat va < rend c"
  using region_end_unat [of c] region_size_pos [of c] by (auto simp: region_has_def word_le_nat_alt)

lemma region_attr_word:
  assumes "attr_ok mm" "regime_ok ctx"
  shows "attr_word e (xlat_regime ctx) (mm_attr mm) = Some (region_attr e ctx mm)"
proof -
  obtain a where "attr_word e (xlat_regime ctx) (mm_attr mm) = Some a" using attr_ok_word [OF assms(1)] by blast
  then have d: "xlat_desc e ctx (mm_attr mm) 0 3 = Returned (0 OR PAGE_DESC OR a)"
    using assms(2) by (simp add: xlat_desc_fields)
  then show ?thesis using mapped_desc(3) [OF d] by (simp add: region_attr_def)
qed

lemma overlapping_nested:
  assumes ms: "regions_ok ms" and cd: "c \<in> set ms" "d \<in> set ms" "region_has c va" "region_has d va" "c \<noteq> d"
  shows "nested c d \<or> nested d c" "base_va c - base_pa c = base_va d - base_pa d"
proof -
  have "region_ok c" "region_ok d" "compatible c d" using ms cd by (auto simp: regions_ok_def)
  then have "\<not> separate c d" using cd(3,4) by (auto simp: region_has_nat separate_def)
  then show "nested c d \<or> nested d c" "base_va c - base_pa c = base_va d - base_pa d"
    using \<open>compatible c d\<close> by (auto simp: compatible_def)
qed

lemma before_size:
  assumes "region_ok c" "region_ok d" "before c d" "nested c d \<or> nested d c"
  shows "mm_size c \<le> mm_size d"
proof -
  have "nested c d" using assms nested_before by blast
  then show ?thesis by (auto simp: nested_def rend_def word_le_nat_alt)
qed

lemma fold_smallest: "\<forall>d \<in> set cs. mm_size c \<le> mm_size d \<Longrightarrow> fold (\<lambda>d best. if mm_size d < mm_size best then d else best) cs c = c"
  by (induction cs) auto

lemma innermost_find:
  assumes ms: "regions_ok ms"
  shows "innermost ms va = List.find (\<lambda>c. rbase c \<le> unat va \<and> unat va < rend c) ms"
proof -
  have ok: "region_ok c" if "c \<in> set ms" for c using ms that by (simp add: regions_ok_def)
  have "List.find (\<lambda>c. rbase c \<le> unat va \<and> unat va < rend c) ms = List.find (\<lambda>c. region_has c va) ms"
    by (rule find_cong [OF refl]) (use ok region_has_nat in blast)
  moreover have "innermost ms va = List.find (\<lambda>c. region_has c va) ms"
  proof (cases "filter (\<lambda>c. region_has c va) ms")
    case Nil
    then have "List.find (\<lambda>c. region_has c va) ms = None" by (simp add: find_None_iff filter_empty_conv)
    then show ?thesis using Nil by (simp add: innermost_def)
  next
    case (Cons c cs)
    have srt: "sorted_wrt before (c # cs)" using ms sorted_wrt_filter unfolding regions_ok_def Cons [symmetric] by blast
    have mem: "d \<in> set ms \<and> region_has d va" if "d \<in> set (c # cs)" for d using that unfolding Cons [symmetric] by simp
    have "mm_size c \<le> mm_size d" if d: "d \<in> set cs" for d
    proof (rule before_size)
      show b: "before c d" using srt d by simp
      show "nested c d \<or> nested d c" using overlapping_nested(1) [OF ms, of c d va] mem d b by (auto simp: before_def)
    qed (use mem d ok in auto)
    then have "innermost ms va = Some c" using Cons fold_smallest [of cs c] by (simp add: innermost_def)
    moreover have "List.find (\<lambda>c. region_has c va) ms = Some c"
      using Cons by (induction ms) (auto split: if_splits)
    ultimately show ?thesis by simp
  qed
  ultimately show ?thesis by simp
qed

section \<open>The translation\<close>

lemma inv_lookup:
  assumes "xlat_inv e ctx" "initialized ctx" "va \<le> va_max_address ctx"
  shows "xlat_translate ctx va = lookup e (xlat_regime ctx) (mmap ctx) (unat va)"
  using assms translate_table_trans [of ctx va] by (simp add: xlat_inv_def implements_def word_le_nat_alt)

lemma lookup_value:
  assumes "region_ok c" "region_has c va" "attr_ok c" "regime_ok ctx"
  shows "map_option (\<lambda>a. (base_pa c + of_nat (unat va - rbase c), a)) (attr_word e (xlat_regime ctx) (mm_attr c)) = Some (region_value e ctx va c)"
proof -
  have "(of_nat (unat va - rbase c) :: uint64_t) = va - base_va c" using assms(2) by (simp add: region_has_def word_le_nat_alt of_nat_diff)
  then show ?thesis using region_attr_word [OF assms(3,4), of e] by (simp add: region_value_def)
qed

lemma inv_translate:
  assumes inv: "xlat_inv e ctx" and i: "initialized ctx" and va: "va \<le> va_max_address ctx"
  shows "xlat_translate ctx va = map_option (region_value e ctx va) (innermost (mmap ctx) va)"
proof -
  have st: "regions_ok (mmap ctx)" "\<forall>c \<in> set (mmap ctx). attr_ok c" "regime_ok ctx"
    using inv i by (auto simp: xlat_inv_def list_ok_def implements_def)
  show ?thesis
  proof (cases "List.find (\<lambda>c. rbase c \<le> unat va \<and> unat va < rend c) (mmap ctx)")
    case None
    then show ?thesis using inv_lookup [OF inv i va] innermost_find [OF st(1), of va] by (simp add: lookup_def)
  next
    case (Some c)
    then have c: "c \<in> set (mmap ctx)" "rbase c \<le> unat va" "unat va < rend c" by (auto simp: find_Some_iff)
    then have "region_ok c" using st(1) by (simp add: regions_ok_def)
    then show ?thesis
      using inv_lookup [OF inv i va] innermost_find [OF st(1), of va] Some lookup_value [of c va ctx e] c st region_has_nat [of c va]
      by (simp add: lookup_def)
  qed
qed

lemma innermost_Some:
  assumes "regions_ok ms" "innermost ms va = Some c"
  shows "c \<in> set ms" "region_has c va"
proof -
  have "List.find (\<lambda>c. rbase c \<le> unat va \<and> unat va < rend c) ms = Some c" using innermost_find [OF assms(1)] assms(2) by simp
  then have c: "c \<in> set ms" "rbase c \<le> unat va" "unat va < rend c" by (auto simp: find_Some_iff)
  then show "c \<in> set ms" "region_has c va" using assms(1) region_has_nat [of c va] by (simp_all add: regions_ok_def)
qed

text \<open>Every region that contains the address agrees on the physical address.\<close>

lemma inv_translate_pa:
  assumes inv: "xlat_inv e ctx" and i: "initialized ctx" and va: "va \<le> va_max_address ctx"
    and c: "c \<in> set (mmap ctx)" "region_has c va"
  shows "\<exists>a. xlat_translate ctx va = Some (base_pa c + (va - base_va c), a)"
proof -
  have ms: "regions_ok (mmap ctx)" using inv by (simp add: xlat_inv_def list_ok_def)
  obtain d where d: "innermost (mmap ctx) va = Some d" using c by (cases "filter (\<lambda>c. region_has c va) (mmap ctx)") (auto simp: innermost_def filter_empty_conv)
  note m = innermost_Some [OF ms d]
  have "base_pa d + (va - base_va d) = base_pa c + (va - base_va c)"
  proof (cases "c = d")
    case False
    have "base_va c - base_pa c = base_va d - base_pa d" using overlapping_nested(2) [OF ms c(1) m(1) c(2) m(2) False] .
    then show ?thesis by (simp add: algebra_simps)
  qed simp
  then show ?thesis using inv_translate [OF inv i va] d by (simp add: region_value_def)
qed

end
