(* ===== verification/Xlat_Demo.thy ===== *)
theory Xlat_Demo
  imports Xlat_Spec
begin

text \<open>
  Concrete contexts: an address space of 4 MB with two nested static regions, initialised, given a
  dynamic region and deprived of it; and one whose pool is too small for a second table.
\<close>

definition demo_options :: xlat_env where
  "demo_options = \<lparr>ENABLE_RME = False, bti_present = False, ttst_present = True, parange = 5\<rparr>"

definition zero_ctx :: xlat_ctx_t where
  "zero_ctx = \<lparr>pa_max_address = 0, va_max_address = 0, mmap = [], mmap_num = 0, xlat_tables = [], tables_mapped_regions = (\<lambda>_. 0),
     base_table = 0, base_table_entries = 0, max_pa = 0, max_va = 0, base_level = 0, initialized = False, xlat_regime = 0,
     xlat_mem = (\<lambda>_ _. 0)\<rparr>"

definition demo_code :: mmap_region_t where
  "demo_code = \<lparr>base_pa = 0x80000000, base_va = 0x1000, mm_size = 0x2000, mm_attr = MT_MEMORY, granularity = 0x1000\<rparr>"

definition demo_data :: mmap_region_t where
  "demo_data = \<lparr>base_pa = 0x80001000, base_va = 0x2000, mm_size = 0x1000, mm_attr = 0x4A, granularity = 0x1000\<rparr>"

definition demo_uart :: mmap_region_t where
  "demo_uart = \<lparr>base_pa = 0x40000000, base_va = 0x200000, mm_size = 0x1000, mm_attr = MT_RW, granularity = 0x1000\<rparr>"

definition demo_setup :: "uint64_t list \<Rightarrow> xlat_ctx_t" where
  "demo_setup tables = xlat_setup_dynamic_ctx 0xFFFFFFFF 0x3FFFFF 4 tables 0x20000 EL3_REGIME zero_ctx"

definition demo_listed :: "uint64_t list \<Rightarrow> xlat_ctx_t" where
  "demo_listed tables = snd (mmap_add_ctx [demo_code, demo_data] (demo_setup tables))"

definition demo_ready :: "uint64_t list \<Rightarrow> xlat_ctx_t" where
  "demo_ready tables = snd (init_xlat_tables_ctx demo_options (demo_listed tables))"

definition demo_mapped :: xlat_ctx_t where
  "demo_mapped = snd (snd (mmap_add_dynamic_region_ctx demo_options demo_uart (demo_ready [0x10000, 0x11000])))"

lemmas region_eval = demo_code_def demo_data_def demo_uart_def region_end_pa_def region_end_va_def

lemmas size_eval = XLAT_BLOCK_SIZE_def XLAT_BLOCK_MASK_def XLAT_ADDR_SHIFT_def GET_NUM_BASE_LEVEL_ENTRIES_def GET_XLAT_TABLE_LEVEL_BASE_def
  IS_PAGE_ALIGNED_def

lemmas list_eval = mmap_add_region_ctx_def mmap_add_region_check_def mmap_insert_def update_max_def size_eval region_eval

lemmas desc_eval = xlat_desc_def regime_ok_def xlat_arch_get_pas_def LOWER_ATTRS_def UPPER_ATTRS_def xlat_arch_regime_get_xn_desc_def demo_options_def

lemmas table_eval = xlat_table_get_empty_def write_entry_def xlat_table_inc_regions_count_def xlat_table_add_regions_count_def
  xlat_table_get_index_def

lemmas map_eval = xlat_tables_map_region_def map_subtable_start_def map_region_loop.simps xlat_tables_find_start_va_def
  xlat_tables_va_to_index_def xlat_tables_map_region_action_def table_eval desc_eval size_eval region_eval Let_def

lemmas init_eval = init_xlat_tables_ctx_def clear_tables_def xlat_get_min_virt_addr_space_size_def xlat_arch_get_max_supported_pa_def
  pa_range_bits_arr_def map_eval

lemma demo_setup_eval:
  "demo_setup tables = \<lparr>pa_max_address = 0xFFFFFFFF, va_max_address = 0x3FFFFF, mmap = [], mmap_num = 4, xlat_tables = tables,
     tables_mapped_regions = (\<lambda>_. 0), base_table = 0x20000, base_table_entries = 2, max_pa = 0, max_va = 0, base_level = 2,
     initialized = False, xlat_regime = EL3_REGIME, xlat_mem = (\<lambda>_ _. 0)\<rparr>"
  by (simp add: demo_setup_def xlat_setup_dynamic_ctx_def zero_ctx_def size_eval)

lemma demo_list_added:
  "mmap_add_ctx [demo_code, demo_data] (demo_setup tables) =
     (Returned (), demo_setup tables\<lparr>mmap := [demo_data, demo_code], max_pa := 0x80001FFF, max_va := 0x2FFF\<rparr>)"
  by (simp add: demo_setup_eval list_eval)

lemma demo_listed_eval:
  "demo_listed tables = demo_setup tables\<lparr>mmap := [demo_data, demo_code], max_pa := 0x80001FFF, max_va := 0x2FFF\<rparr>"
  by (simp add: demo_listed_def demo_list_added del: mmap_add_ctx.simps)

text \<open>The tables after initialisation, with one or two tables in the pool.\<close>

lemma demo_init:
  "init_xlat_tables_ctx demo_options (demo_listed [0x10000]) = (Returned (), demo_ready [0x10000])"
  "init_xlat_tables_ctx demo_options (demo_listed [0x10000, 0x11000]) = (Returned (), demo_ready [0x10000, 0x11000])"
  unfolding demo_ready_def by (simp_all add: demo_listed_eval demo_setup_eval init_eval prod_eq_iff)

lemma demo_attr: "attr_ok demo_code" "attr_ok demo_data" "attr_ok demo_uart"
  by (simp_all add: attr_ok_def region_eval)

lemma demo_start: "xlat_start (demo_options, demo_setup [0x10000])" "xlat_start (demo_options, demo_setup [0x10000, 0x11000])"
  unfolding xlat_start_def demo_setup_def snd_conv by (rule exI conjI refl | simp)+

lemma demo_listed_reach:
  assumes "xlat_start (demo_options, demo_setup tables)"
  shows "reach xlat_start xlat_step (demo_options, demo_listed tables)"
proof (rule reach_step [OF reach_init [of xlat_start, OF assms]])
  show "xlat_step (demo_options, demo_setup tables) (demo_options, demo_listed tables)"
    by (rule step_add_list [of "[demo_code, demo_data]"]) (simp_all add: demo_attr demo_list_added demo_listed_eval del: mmap_add_ctx.simps)
qed

lemma demo_ready_reach:
  "reach xlat_start xlat_step (demo_options, demo_ready [0x10000])" "reach xlat_start xlat_step (demo_options, demo_ready [0x10000, 0x11000])"
  using demo_listed_reach [OF demo_start(1)] demo_listed_reach [OF demo_start(2)] step_init [OF demo_init(1)] step_init [OF demo_init(2)]
  by (blast intro: reach_step)+

lemma demo_ready_fields:
  "initialized (demo_ready [0x10000])" "va_max_address (demo_ready [0x10000]) = 0x3FFFFF" "mmap (demo_ready [0x10000]) = [demo_data, demo_code]"
  "initialized (demo_ready [0x10000, 0x11000])" "va_max_address (demo_ready [0x10000, 0x11000]) = 0x3FFFFF"
  "mmap (demo_ready [0x10000, 0x11000]) = [demo_data, demo_code]"
  unfolding demo_ready_def by (simp_all add: demo_listed_eval demo_setup_eval init_eval)

text \<open>A dynamic region: with a second table, and without.\<close>

definition demo_dynamic :: mmap_region_t where
  "demo_dynamic = demo_uart\<lparr>mm_attr := mm_attr demo_uart OR MT_DYNAMIC\<rparr>"

lemma demo_add:
  "mmap_add_dynamic_region_ctx demo_options demo_uart (demo_ready [0x10000, 0x11000]) = (Returned 0, demo_dynamic, demo_mapped)"
  unfolding demo_mapped_def demo_ready_def demo_dynamic_def
  by (simp add: demo_listed_eval demo_setup_eval init_eval mmap_add_dynamic_region_ctx_def map_dynamic_region_def list_eval prod_eq_iff)

lemma demo_no_table:
  "fst (mmap_add_dynamic_region_ctx demo_options demo_uart (demo_ready [0x10000])) = Returned (- XLAT_ENOMEM)"
  unfolding demo_ready_def
  by (simp add: demo_listed_eval demo_setup_eval init_eval mmap_add_dynamic_region_ctx_def map_dynamic_region_def list_eval)

lemma demo_mapped_fields:
  "initialized demo_mapped" "va_max_address demo_mapped = 0x3FFFFF" "mmap demo_mapped = [demo_data, demo_code, demo_dynamic]"
  unfolding demo_mapped_def demo_ready_def demo_dynamic_def
  by (simp_all add: demo_listed_eval demo_setup_eval init_eval mmap_add_dynamic_region_ctx_def map_dynamic_region_def list_eval)

lemma demo_mapped_reach: "reach xlat_start xlat_step (demo_options, demo_mapped)"
  by (rule reach_step [OF demo_ready_reach(2)]) (rule step_dynamic [OF demo_attr(3) demo_add], simp)

lemma demo_remove: "fst (mmap_remove_dynamic_region_ctx 0x200000 0x1000 demo_mapped) = Returned 0"
  unfolding demo_mapped_def demo_ready_def
  by (simp add: demo_listed_eval demo_setup_eval init_eval mmap_add_dynamic_region_ctx_def map_dynamic_region_def list_eval
      mmap_remove_dynamic_region_ctx_def xlat_tables_unmap_region_def unmap_region_loop.simps xlat_tables_unmap_region_action_def
      xlat_table_dec_regions_count_def xlat_table_is_empty_def)

end
