(* ===== verification/Xlat_Correct.thy ===== *)
theory Xlat_Correct
  imports Xlat_Demo
begin

text \<open>
  The properties of the translation table library: the tables translate every address as the list of
  regions says, at every moment of any sequence of calls.
\<close>

section \<open>The list and the tables agree\<close>



text \<open>
  C26: initialisation. From any reachable context that satisfies the assertions of
  \<open>init_xlat_tables_ctx\<close>, it either returns, with tables that translate every address as the list of
  regions says, or panics, and then no table of the pool is left; no other assertion can fail.
\<close>

theorem init_implements:
  assumes "reach xlat_start xlat_step (e, ctx)" "init_checked e ctx" "pa_supported e ctx"
  shows "(\<exists>ctx'. init_xlat_tables_ctx e ctx = (Returned (), ctx') \<and> initialized ctx' \<and> mmap ctx' = mmap ctx
            \<and> (\<forall>va. va \<le> va_max_address ctx \<longrightarrow> xlat_translate ctx' va = map_option (region_value e ctx va) (innermost (mmap ctx) va)))
       \<or> (\<exists>ctx'. init_xlat_tables_ctx e ctx = (Panicked, ctx') \<and> xlat_table_get_empty ctx' = None)"
proof (rule init_cases [OF reach_xlat_inv [OF assms(1)] assms(2)])
  fix ctx' assume i: "init_xlat_tables_ctx e ctx = (if pa_supported e ctx then (Returned (), ctx'\<lparr>initialized := True\<rparr>) else (Assert_failed, ctx'))"
    "xlat_inv e (ctx'\<lparr>initialized := True\<rparr>)" "same_fields ctx ctx'"
  note f = same_fields_simps [OF i(3)]
  have "region_value e (ctx'\<lparr>initialized := True\<rparr>) = region_value e ctx"
    by (simp add: region_value_def region_attr_def xlat_desc_def regime_ok_def f fun_eq_iff)
  then show ?thesis using inv_translate [OF i(2)] i(1) assms(3) f by (intro disjI1) simp
next
  fix ctx' assume "init_xlat_tables_ctx e ctx = (Panicked, ctx')" "free_tables ctx' = {}"
  then show ?thesis by (simp add: get_empty_None)
qed

theorem init_implements_witness:
  "(\<exists>ctx'. init_xlat_tables_ctx demo_options (demo_listed [0x10000]) = (Returned (), ctx')
       \<and> xlat_translate ctx' 0x2010 = Some (0x80001010, region_attr demo_options (demo_listed [0x10000]) demo_data))"
proof -
  have c: "init_checked demo_options (demo_listed [0x10000])" "pa_supported demo_options (demo_listed [0x10000])"
    by (simp_all add: init_checked_def pa_supported_def demo_listed_eval demo_setup_eval init_eval)
  have v: "map_option (region_value demo_options (demo_listed [0x10000]) 0x2010) (innermost (mmap (demo_listed [0x10000])) 0x2010)
      = Some (0x80001010, region_attr demo_options (demo_listed [0x10000]) demo_data)" "0x2010 \<le> va_max_address (demo_listed [0x10000])"
    by (simp_all add: demo_listed_eval demo_setup_eval innermost_def region_has_def region_value_def region_eval)
  show ?thesis using init_implements [OF demo_listed_reach [OF demo_start(1)] c] v by (auto simp: demo_init(1))
qed




text \<open>
  C28: the list of regions. In every reachable context the list is ordered by end address and then by
  size, no two of its regions overlap in virtual or physical addresses unless both are static and one
  encloses the other at the same offset, every region is a non-empty sequence of pages within the
  limits, the list fits its array, and the largest addresses in use are those recorded.
\<close>

theorem region_list_invariant:
  assumes "reach xlat_start xlat_step (e, ctx)"
  shows "sorted_wrt (\<lambda>c d. region_end_va c < region_end_va d \<or> region_end_va c = region_end_va d \<and> mm_size c < mm_size d) (mmap ctx)
     \<and> (\<forall>c \<in> set (mmap ctx). \<forall>d \<in> set (mmap ctx). c \<noteq> d \<longrightarrow> compatible c d)
     \<and> (\<forall>c \<in> set (mmap ctx). region_ok c \<and> region_end_va c \<le> va_max_address ctx \<and> region_end_pa c \<le> pa_max_address ctx)
     \<and> length (mmap ctx) \<le> mmap_num ctx
     \<and> max_va ctx = max_of region_end_va (mmap ctx) \<and> max_pa ctx = max_of region_end_pa (mmap ctx)"
proof -
  have l: "list_ok ctx" "regions_ok (mmap ctx)" "\<forall>c \<in> set (mmap ctx). region_ok c \<and> within ctx c"
    using reach_xlat_inv [OF assms] by (auto simp: xlat_inv_def list_ok_def regions_ok_def)
  have "region_end_va c < region_end_va d \<or> region_end_va c = region_end_va d \<and> mm_size c < mm_size d"
    if "c \<in> set (mmap ctx)" "d \<in> set (mmap ctx)" "before c d" for c d
    using that l(3) end_le [of d c] end_eq [of c d] by (auto simp: before_def word_less_nat_alt not_le simp flip: not_less)
  then have "sorted_wrt (\<lambda>c d. region_end_va c < region_end_va d \<or> region_end_va c = region_end_va d \<and> mm_size c < mm_size d) (mmap ctx)"
    by (rule sorted_wrt_mono_rel) (use l(2) in \<open>auto simp: regions_ok_def\<close>)
  moreover have "\<forall>c \<in> set (mmap ctx). region_ok c \<and> region_end_va c \<le> va_max_address ctx \<and> region_end_pa c \<le> pa_max_address ctx"
    using l(3) end_within by blast
  ultimately show ?thesis using l(1,2) by (simp add: list_ok_def regions_ok_def)
qed

theorem region_list_invariant_witness:
  "compatible demo_data demo_code \<and> compatible demo_code demo_dynamic \<and> max_va demo_mapped = max_of region_end_va [demo_data, demo_code, demo_dynamic]"
  using region_list_invariant [OF demo_mapped_reach] by (simp add: demo_mapped_fields) (simp add: demo_dynamic_def region_eval)

section \<open>Dynamic regions\<close>

text \<open>Two contexts whose lists differ by one region apart from the others.\<close>

lemma one_more_region:
  assumes inv: "xlat_inv e c1" "xlat_inv e c2" and i: "initialized c1" "initialized c2"
    and ms: "mmap c1 = A @ C" "mmap c2 = A @ mm # C" and sep: "\<forall>c \<in> set (A @ C). separate c mm"
    and eq: "va_max_address c2 = va_max_address c1" "xlat_regime c2 = xlat_regime c1" and va: "va \<le> va_max_address c1"
  shows "xlat_translate c2 va = (if region_has mm va then Some (region_value e c1 va mm) else xlat_translate c1 va)"
proof -
  have mm: "region_ok mm" "attr_ok mm" "regime_ok c1"
    using inv i ms(2) by (auto simp: xlat_inv_def list_ok_def regions_ok_def implements_def)
  note has = region_has_nat [OF mm(1), of va]
  have l: "xlat_translate c1 va = lookup e (xlat_regime c1) (A @ C) (unat va)" "xlat_translate c2 va = lookup e (xlat_regime c1) (A @ mm # C) (unat va)"
    using inv_lookup [OF inv(1) i(1) va] inv_lookup [OF inv(2) i(2)] va eq ms by simp_all
  show ?thesis
  proof (cases "region_has mm va")
    case True
    then have "List.find (\<lambda>c. rbase c \<le> unat va \<and> unat va < rend c) A = None" using sep has by (intro find_separate) auto
    then show ?thesis using l(2) True has lookup_value [OF mm(1) True mm(2,3), of e] by (simp add: lookup_def find_append)
  next
    case False
    then show ?thesis using l lookup_without [OF sep, of "unat va" e "xlat_regime c1"] unfolding cut_def has [symmetric] by simp
  qed
qed

lemma one_less_region:
  assumes inv: "xlat_inv e c1" "xlat_inv e c2" and i: "initialized c1" "initialized c2"
    and ms: "mmap c1 = A @ C" "mmap c2 = A @ mm # C" and sep: "\<forall>c \<in> set (A @ C). separate c mm"
    and eq: "va_max_address c2 = va_max_address c1" "xlat_regime c2 = xlat_regime c1" and va: "va \<le> va_max_address c1"
  shows "xlat_translate c1 va = (if region_has mm va then None else xlat_translate c2 va)"
proof -
  have mm: "region_ok mm" using inv(2) ms(2) by (simp add: xlat_inv_def list_ok_def regions_ok_def)
  have "xlat_translate c1 va = None" if h: "region_has mm va"
  proof -
    have "List.find (\<lambda>c. rbase c \<le> unat va \<and> unat va < rend c) (A @ C) = None"
      using sep h region_has_nat [OF mm, of va] by (intro find_separate) auto
    then show ?thesis using inv_lookup [OF inv(1) i(1) va] ms(1) by (simp add: lookup_def)
  qed
  then show ?thesis using one_more_region [OF assms] by simp
qed

text \<open>
  C29: adding a dynamic region. When \<open>mmap_add_dynamic_region_ctx\<close> returns 0 for a non-empty region,
  in any reachable context with initialised tables, the region is in the list, marked dynamic, its
  addresses now translate to its physical addresses with its attributes, and the translation of
  every other address is as it was.
\<close>

theorem add_dynamic_region_maps:
  assumes "reach xlat_start xlat_step (e, ctx)" "initialized ctx" "attr_ok mm" "mm_size mm \<noteq> 0"
    and "mmap_add_dynamic_region_ctx e mm ctx = (Returned 0, mm', ctx')" and "va \<le> va_max_address ctx"
  shows "mm' = mm\<lparr>mm_attr := mm_attr mm OR MT_DYNAMIC\<rparr> \<and> set (mmap ctx') = insert mm' (set (mmap ctx))
     \<and> xlat_translate ctx' va = (if region_has mm' va then Some (region_value e ctx va mm') else xlat_translate ctx va)"
proof -
  note inv = reach_xlat_inv [OF assms(1)]
  show ?thesis
  proof (rule add_dynamic_cases [OF inv assms(3)])
    fix A C mm1 ctx1 assume a: "mmap_add_dynamic_region_ctx e mm ctx = (Returned 0, mm1, ctx1)" "xlat_inv e ctx1"
      "mm1 = mm\<lparr>mm_attr := mm_attr mm OR MT_DYNAMIC\<rparr>" "mmap ctx = A @ C" "mmap ctx1 = A @ mm1 # C" "\<forall>c \<in> set (A @ C). separate c mm1"
      "va_max_address ctx1 = va_max_address ctx" "initialized ctx1 = initialized ctx" "xlat_regime ctx1 = xlat_regime ctx"
    have i: "initialized ctx1" using a(8) assms(2) by simp
    have "xlat_translate ctx1 va = (if region_has mm1 va then Some (region_value e ctx va mm1) else xlat_translate ctx va)"
      by (rule one_more_region [OF inv a(2) assms(2) i a(4,5,6,7,9) assms(6)])
    then show ?thesis using a assms(5) by simp
  qed (use assms in auto)
qed

theorem add_dynamic_region_maps_witness:
  "xlat_translate demo_mapped 0x200010 = Some (region_value demo_options (demo_ready [0x10000, 0x11000]) 0x200010 demo_dynamic)
   \<and> xlat_translate demo_mapped 0x2010 = xlat_translate (demo_ready [0x10000, 0x11000]) 0x2010"
proof -
  have s: "mm_size demo_uart \<noteq> 0" "region_has demo_dynamic 0x200010" "\<not> region_has demo_dynamic 0x2010"
    by (simp_all add: demo_dynamic_def region_has_def region_eval)
  note add = add_dynamic_region_maps [OF demo_ready_reach(2) demo_ready_fields(4) demo_attr(3) s(1) demo_add]
  show ?thesis using add [of "0x200010"] add [of "0x2010"] s(2,3) by (simp add: demo_ready_fields)
qed

text \<open>
  C30: a dynamic region that cannot be added. In any reachable context
  \<open>mmap_add_dynamic_region_ctx\<close> returns a code, without a failed assertion; when the code is not 0,
  the list of regions and the recorded addresses are as they were, and so is the translation of every
  address, even when tables had already been written before the pool was exhausted.
\<close>

theorem add_dynamic_region_error:
  assumes "reach xlat_start xlat_step (e, ctx)" "attr_ok mm"
  shows "\<exists>r mm' ctx'. mmap_add_dynamic_region_ctx e mm ctx = (Returned r, mm', ctx')
     \<and> (r \<noteq> 0 \<longrightarrow> mmap ctx' = mmap ctx \<and> max_va ctx' = max_va ctx \<and> max_pa ctx' = max_pa ctx
          \<and> (\<forall>va. va \<le> va_max_address ctx \<longrightarrow> xlat_translate ctx' va = xlat_translate ctx va))"
proof -
  note inv = reach_xlat_inv [OF assms(1)]
  show ?thesis
  proof (rule add_dynamic_cases [OF inv assms(2)])
    fix mm' ctx' assume a: "mmap_add_dynamic_region_ctx e mm ctx = (Returned (- XLAT_ENOMEM), mm', ctx')" "same_fields ctx ctx'" "initialized ctx"
      "\<And>v. v \<le> unat (va_max_address ctx) \<Longrightarrow> table_trans ctx' v = table_trans ctx v"
    note f = same_fields_simps [OF a(2)]
    have geo: "geometry_ok ctx" using inv a(3) by (simp add: xlat_inv_def implements_def)
    then have geo': "geometry_ok ctx'" by (simp add: geometry_ok_def f)
    have "xlat_translate ctx' va = xlat_translate ctx va" if "va \<le> va_max_address ctx" for va
      using translate_table_trans [OF geo that] translate_table_trans [OF geo', of va] a(4) [of "unat va"] that f by (simp add: word_le_nat_alt)
    then show ?thesis using a(1) f by simp
  qed auto
qed

theorem add_dynamic_region_error_witness:
  "\<exists>mm' ctx'. mmap_add_dynamic_region_ctx demo_options demo_uart (demo_ready [0x10000]) = (Returned (- XLAT_ENOMEM), mm', ctx')
     \<and> mmap ctx' = [demo_data, demo_code]"
proof -
  obtain r mm' ctx' where "mmap_add_dynamic_region_ctx demo_options demo_uart (demo_ready [0x10000]) = (Returned r, mm', ctx')"
      "r \<noteq> 0 \<longrightarrow> mmap ctx' = mmap (demo_ready [0x10000])"
    using add_dynamic_region_error [OF demo_ready_reach(1) demo_attr(3)] by blast
  then show ?thesis using demo_no_table by (auto simp: demo_ready_fields)
qed

text \<open>
  C31: removing a dynamic region. In any reachable context the call of \<open>mmap_remove_dynamic_region_ctx\<close> returns a
  code, without a failed assertion; when it is not 0 nothing has changed, and when it is 0 exactly one
  region has left the list, of the address and size asked for, none of its addresses translates any
  more, and the translation of every other address is as it was.
\<close>

theorem remove_dynamic_region_unmaps:
  assumes "reach xlat_start xlat_step (e, ctx)"
  shows "\<exists>r ctx'. mmap_remove_dynamic_region_ctx va sz ctx = (Returned r, ctx')
     \<and> (r \<noteq> 0 \<longrightarrow> ctx' = ctx)
     \<and> (r = 0 \<longrightarrow> (\<exists>A mm C. mmap ctx = A @ mm # C \<and> mmap ctx' = A @ C \<and> base_va mm = va \<and> mm_size mm = sz
          \<and> (initialized ctx \<longrightarrow> (\<forall>x. x \<le> va_max_address ctx \<longrightarrow> xlat_translate ctx' x = (if region_has mm x then None else xlat_translate ctx x)))))"
proof -
  note inv = reach_xlat_inv [OF assms]
  show ?thesis
  proof (rule remove_dynamic_cases [OF inv, of va sz])
    fix A mm C ctx' assume a: "mmap_remove_dynamic_region_ctx va sz ctx = (Returned 0, ctx')" "xlat_inv e ctx'"
        "mmap ctx = A @ mm # C" "mmap ctx' = A @ C" "base_va mm = va" "mm_size mm = sz" "\<forall>c \<in> set (A @ C). separate c mm"
        "va_max_address ctx' = va_max_address ctx" "initialized ctx' = initialized ctx" "xlat_regime ctx' = xlat_regime ctx"
    have "xlat_translate ctx' x = (if region_has mm x then None else xlat_translate ctx x)" if "initialized ctx" "x \<le> va_max_address ctx" for x
      by (rule one_less_region [OF a(2) inv _ that(1) a(4,3,7) a(8) [symmetric] a(10) [symmetric]]) (use a(8,9) that in simp_all)
    then show ?thesis using a by blast
  qed auto
qed

theorem remove_dynamic_region_unmaps_witness:
  "\<exists>ctx'. mmap_remove_dynamic_region_ctx 0x200000 0x1000 demo_mapped = (Returned 0, ctx')
     \<and> xlat_translate ctx' 0x200010 = None \<and> xlat_translate ctx' 0x2010 = xlat_translate demo_mapped 0x2010"
proof -
  obtain ctx' A mm C where "mmap_remove_dynamic_region_ctx 0x200000 0x1000 demo_mapped = (Returned 0, ctx')" "base_va mm = 0x200000" "mm_size mm = 0x1000"
      and tr: "\<forall>x. x \<le> va_max_address demo_mapped \<longrightarrow> xlat_translate ctx' x = (if region_has mm x then None else xlat_translate demo_mapped x)"
    using remove_dynamic_region_unmaps [OF demo_mapped_reach, of "0x200000" "0x1000"] demo_remove demo_mapped_fields(1) by auto
  moreover from this have "region_has mm 0x200010" "\<not> region_has mm 0x2010" by (simp_all add: region_has_def region_end_va_def)
  ultimately show ?thesis using tr [rule_format, of "0x200010"] tr [rule_format, of "0x2010"] by (simp add: demo_mapped_fields)
qed

end
