(* ===== verification/Xlat_Attr.thy ===== *)
theory Xlat_Attr
  imports Xlat_Correct
begin

text \<open>
  Attributes: what can be read back from the descriptors the library writes, what the undoing of a
  mapping leaves behind, and the addresses the library chooses.
\<close>

section \<open>Reading attributes back\<close>

definition kept_attr :: "xlat_env \<Rightarrow> int \<Rightarrow> uint32_t \<Rightarrow> uint32_t" where
  "kept_attr e regime attr =
     (attr AND MT_TYPE_MASK) OR (attr AND MT_RW)
     OR (if regime = EL1_EL0_REGIME then attr AND MT_USER else 0)
     OR (if attr AND MT_PAS_MASK = MT_NS \<or> ENABLE_RME e \<and> attr AND MT_PAS_MASK = MT_REALM then MT_NS else 0)
     OR (if attr AND MT_TYPE_MASK = MT_DEVICE \<or> attr AND MT_RW \<noteq> 0 \<or> attr AND MT_EXECUTE_NEVER \<noteq> 0 then MT_EXECUTE_NEVER else 0)"

lemma drop_and: "drop_bit k d AND m = drop_bit k (d AND push_bit k m)" if "take_bit (64 - k) m = m" for d m :: uint64_t
proof (rule bit_word_eqI)
  fix n assume "n < LENGTH(64)"
  moreover have "bit m n \<Longrightarrow> n < 64 - k" using that by (metis bit_take_bit_iff)
  ultimately show "bit (drop_bit k d AND m) n = bit (drop_bit k (d AND push_bit k m)) n"
    by (auto simp: bit_simps)
qed

lemma attr_fields:
  assumes "(M :: uint64_t) AND FIXED_BITS = 0" "a AND FIXED_BITS = 0" "pa AND TABLE_ADDR_MASK = pa" "t = 1 \<or> t = 3"
  shows "(pa OR t OR a) AND M = a AND M"
proof -
  have "d AND M = attr_bits d AND M" for d
  proof (rule bit_word_eqI)
    fix n assume n: "n < LENGTH(64)"
    have "\<not> (bit M n \<and> bit FIXED_BITS n)" using assms(1) by (metis bit_0_eq bit_and_iff bot_apply bot_bool_def)
    then show "bit (d AND M) n = bit (attr_bits d AND M) n" using n by (auto simp: attr_bits_def bit_simps)
  qed
  then show ?thesis using desc_fields(3) [OF assms(2-4)] by metis
qed

lemma and_if: "(if c then x else y) AND M = (if c then x AND M else y AND M)" for M :: uint64_t
  by simp

lemma ucast_if: "(ucast (if c then x else y :: uint32_t) :: uint64_t) = (if c then ucast x else ucast y)"
  by simp

text \<open>The parts of the attribute bits.\<close>

definition attr_common :: "xlat_env \<Rightarrow> int \<Rightarrow> uint32_t \<Rightarrow> uint64_t" where
  "attr_common e regime attr =
     LOWER_ATTRS ACCESS_FLAG OR ucast (xlat_arch_get_pas e attr)
     OR (if attr AND MT_RW \<noteq> 0 then LOWER_ATTRS AP_RW else LOWER_ATTRS AP_RO)
     OR (if regime = EL1_EL0_REGIME
         then if attr AND MT_USER \<noteq> 0 then LOWER_ATTRS AP_ACCESS_UNPRIVILEGED else LOWER_ATTRS AP_NO_ACCESS_UNPRIVILEGED
         else LOWER_ATTRS AP_ONE_VA_RANGE_RES1)"

definition attr_xn :: "int \<Rightarrow> uint32_t \<Rightarrow> uint64_t" where
  "attr_xn regime attr =
     (if attr AND MT_TYPE_MASK = MT_DEVICE \<or> attr AND MT_RW \<noteq> 0 \<or> attr AND MT_EXECUTE_NEVER \<noteq> 0
      then xlat_arch_regime_get_xn_desc regime else 0)"

definition attr_index :: "uint32_t \<Rightarrow> uint64_t" where
  "attr_index attr = (if attr AND MT_TYPE_MASK = MT_DEVICE then 4 else if attr AND MT_TYPE_MASK = MT_MEMORY then 0 else 8)"

lemma attr_word_common:
  "attr_word e regime attr =
     (if attr AND MT_TYPE_MASK = MT_DEVICE
      then Some (attr_common e regime attr OR LOWER_ATTRS (ATTR_DEVICE_INDEX OR OSH) OR xlat_arch_regime_get_xn_desc regime)
      else if attr AND MT_TYPE_MASK = MT_MEMORY then
        Some (attr_common e regime attr OR (if attr AND MT_RW \<noteq> 0 \<or> attr AND MT_EXECUTE_NEVER \<noteq> 0 then xlat_arch_regime_get_xn_desc regime else 0)
          OR (if attr AND MT_SHAREABILITY_MASK = MT_SHAREABILITY_NSH then LOWER_ATTRS NSH
              else if attr AND MT_SHAREABILITY_MASK = MT_SHAREABILITY_OSH then LOWER_ATTRS OSH
              else LOWER_ATTRS ISH)
          OR (if bti_present e \<and> attr AND (MT_TYPE_MASK OR MT_RW OR MT_EXECUTE_NEVER) = MT_CODE then GP else 0))
      else if attr AND MT_TYPE_MASK = MT_NON_CACHEABLE then
        Some (attr_common e regime attr OR (if attr AND MT_RW \<noteq> 0 \<or> attr AND MT_EXECUTE_NEVER \<noteq> 0 then xlat_arch_regime_get_xn_desc regime else 0)
          OR LOWER_ATTRS (ATTR_NON_CACHEABLE_INDEX OR OSH))
      else None)"
  unfolding attr_word_def attr_common_def Let_def by (rule refl)

lemma attr_word_parts:
  assumes "attr_word e regime attr = Some a"
  obtains s where "a = attr_common e regime attr OR attr_xn regime attr OR attr_index attr OR s" "s \<in> {0, 0x200, 0x300, GP, GP OR 0x200, GP OR 0x300}"
    "attr AND MT_TYPE_MASK \<in> {MT_DEVICE, MT_MEMORY, MT_NON_CACHEABLE}"
proof -
  consider "attr AND MT_TYPE_MASK = MT_DEVICE" | "attr AND MT_TYPE_MASK = MT_MEMORY" | "attr AND MT_TYPE_MASK = MT_NON_CACHEABLE"
    using assms by (auto simp: attr_word_def Let_def split: if_splits)
  then show thesis
  proof cases
    case 1
    have "a = attr_common e regime attr OR 0x204 OR xlat_arch_regime_get_xn_desc regime"
      using assms 1 unfolding attr_word_common by (simp add: LOWER_ATTRS_def)
    then have "a = attr_common e regime attr OR attr_xn regime attr OR attr_index attr OR 0x200"
      using 1 by (simp add: attr_xn_def attr_index_def ac_simps)
    then show thesis using 1 by (intro that [of "0x200"]) simp_all
  next
    case 2
    let ?s = "(if attr AND MT_SHAREABILITY_MASK = MT_SHAREABILITY_NSH then 0 else if attr AND MT_SHAREABILITY_MASK = MT_SHAREABILITY_OSH then 0x200 else 0x300)
       OR (if bti_present e \<and> attr AND (MT_TYPE_MASK OR MT_RW OR MT_EXECUTE_NEVER) = MT_CODE then GP else 0 :: uint64_t)"
    have "a = attr_common e regime attr OR attr_xn regime attr OR ?s"
      using assms 2 unfolding attr_word_common attr_xn_def by (auto simp: LOWER_ATTRS_def)
    moreover have "?s \<in> {0, 0x200, 0x300, GP, GP OR 0x200, GP OR 0x300}" by simp
    ultimately show thesis using 2 by (intro that [of ?s]) (simp_all add: attr_index_def)
  next
    case 3
    have "a = attr_common e regime attr OR attr_xn regime attr OR 0x208"
      using assms 3 unfolding attr_word_common attr_xn_def by (simp add: LOWER_ATTRS_def ac_simps)
    then have "a = attr_common e regime attr OR attr_xn regime attr OR attr_index attr OR 0x200"
      using 3 by (simp add: attr_index_def)
    then show thesis using 3 by (intro that [of "0x200"]) simp_all
  qed
qed

lemmas attr_eval = attr_common_def attr_xn_def attr_index_def bit.conj_disj_distrib2 LOWER_ATTRS_def UPPER_ATTRS_def xlat_arch_get_pas_def
  xlat_arch_regime_get_xn_desc_def Let_def and_if ucast_if

lemma attr_word_flags:
  assumes "attr_word e regime attr = Some a"
  shows "a AND 0xC = attr_index attr"
    and "a AND 0x80 = (if attr AND MT_RW \<noteq> 0 then 0 else 0x80)"
    and "a AND 0x40 = (if regime = EL1_EL0_REGIME \<and> attr AND MT_USER = 0 then 0 else 0x40)"
    and "a AND 0x20 = (if attr AND MT_PAS_MASK = MT_NS \<or> ENABLE_RME e \<and> attr AND MT_PAS_MASK = MT_REALM then 0x20 else 0)"
    and "a AND xlat_arch_regime_get_xn_desc regime = attr_xn regime attr"
proof -
  obtain s where a: "a = attr_common e regime attr OR attr_xn regime attr OR attr_index attr OR s"
    and "s \<in> {0, 0x200, 0x300, GP, GP OR 0x200, GP OR 0x300}" using attr_word_parts [OF assms] by metis
  then have s: "s AND 0xC = 0" "s AND 0x80 = 0" "s AND 0x40 = 0" "s AND 0x20 = 0" "s AND 0x40000000000000 = 0" "s AND 0x60000000000000 = 0"
    by auto
  show "a AND 0xC = attr_index attr" "a AND 0x80 = (if attr AND MT_RW \<noteq> 0 then 0 else 0x80)"
    "a AND 0x40 = (if regime = EL1_EL0_REGIME \<and> attr AND MT_USER = 0 then 0 else 0x40)"
    "a AND 0x20 = (if attr AND MT_PAS_MASK = MT_NS \<or> ENABLE_RME e \<and> attr AND MT_PAS_MASK = MT_REALM then 0x20 else 0)"
    "a AND xlat_arch_regime_get_xn_desc regime = attr_xn regime attr"
    unfolding a by (simp_all add: attr_eval s)
qed

lemma and_one_bit: "a AND 2 ^ n = 0 \<or> a AND 2 ^ n = 2 ^ n" for a :: "'a::len word"
proof (cases "bit a n")
  case True
  have "a AND 2 ^ n = 2 ^ n" by (rule bit_word_eqI) (use True in \<open>auto simp: bit_simps\<close>)
  then show ?thesis ..
next
  case False
  have "a AND 2 ^ n = 0" by (rule bit_word_eqI) (use False in \<open>auto simp: bit_simps\<close>)
  then show ?thesis ..
qed

lemma flag_bits: "(attr AND MT_RW = 0 \<or> attr AND MT_RW = MT_RW) \<and> (attr AND MT_USER = 0 \<or> attr AND MT_USER = MT_USER)"
  using and_one_bit [of attr 3] and_one_bit [of attr 7] by simp

lemma desc_flags:
  assumes d: "d = pa OR t OR a" and a: "attr_word e regime attr = Some a" and pa: "pa AND TABLE_ADDR_MASK = pa" and t: "t = 1 \<or> t = 3"
  shows "drop_bit 2 d AND 3 = drop_bit 2 (attr_index attr)"
    and "drop_bit 7 d AND 1 = (if attr AND MT_RW \<noteq> 0 then 0 else 1)"
    and "drop_bit 6 d AND 1 = (if regime = EL1_EL0_REGIME \<and> attr AND MT_USER = 0 then 0 else 1)"
    and "drop_bit 5 d AND 1 = (if attr AND MT_PAS_MASK = MT_NS \<or> ENABLE_RME e \<and> attr AND MT_PAS_MASK = MT_REALM then 1 else 0)"
    and "d AND xlat_arch_regime_get_xn_desc regime = attr_xn regime attr"
proof -
  note fx = attr_word_fixed [OF a]
  have M: "d AND M = a AND M" if "M AND FIXED_BITS = 0" for M unfolding d by (rule attr_fields [OF that fx pa t])
  have "d AND 0xC = a AND 0xC" "d AND 0x80 = a AND 0x80" "d AND 0x40 = a AND 0x40" "d AND 0x20 = a AND 0x20"
    by (rule M, simp add: FIXED_BITS_def)+
  then show "drop_bit 2 d AND 3 = drop_bit 2 (attr_index attr)" "drop_bit 7 d AND 1 = (if attr AND MT_RW \<noteq> 0 then 0 else 1)"
    "drop_bit 6 d AND 1 = (if regime = EL1_EL0_REGIME \<and> attr AND MT_USER = 0 then 0 else 1)"
    "drop_bit 5 d AND 1 = (if attr AND MT_PAS_MASK = MT_NS \<or> ENABLE_RME e \<and> attr AND MT_PAS_MASK = MT_REALM then 1 else 0)"
    using drop_and [of 2 3 d] drop_and [of 7 1 d] drop_and [of 6 1 d] drop_and [of 5 1 d] attr_word_flags(1-4) [OF a] by simp_all
  show "d AND xlat_arch_regime_get_xn_desc regime = attr_xn regime attr" using M [OF fixed_xn] attr_word_flags(5) [OF a] by simp
qed

lemma read_back:
  assumes "d = pa OR t OR a" "attr_word e (xlat_regime ctx) attr = Some a" "pa AND TABLE_ADDR_MASK = pa" "t = 1 \<or> t = 3"
  shows "desc_attributes ctx d = Some (kept_attr e (xlat_regime ctx) attr)"
proof -
  note f = desc_flags [OF assms]
  have ty: "attr AND MT_TYPE_MASK = MT_DEVICE \<or> attr AND MT_TYPE_MASK = MT_MEMORY \<or> attr AND MT_TYPE_MASK = MT_NON_CACHEABLE"
    using attr_word_parts [OF assms(2)] by auto
  have xn: "xlat_arch_regime_get_xn_desc r \<noteq> 0" for r by (simp add: xlat_arch_regime_get_xn_desc_def UPPER_ATTRS_def)
  show ?thesis
    unfolding desc_attributes_def Let_def f using ty flag_bits [of attr] xn
    by (elim disjE conjE) (simp_all add: kept_attr_def attr_index_def attr_xn_def)
qed

text \<open>
  C32: attributes can be read back. From a descriptor that \<open>xlat_desc\<close> made for a page-aligned 48-bit
  address, at any level, \<open>xlat_get_mem_attributes\<close> reads the same memory type and write permission,
  the unprivileged access where the regime has it, execute-never exactly when the region is device
  memory, writable or asked for it, and non-secure when the region was non-secure or Realm; the
  address is the one given. No assertion of the decoding fails.
\<close>

theorem attributes_round_trip:
  assumes "xlat_desc e ctx attr pa level = Returned d" "pa AND TABLE_ADDR_MASK = pa"
  shows "desc_attributes ctx d = Some (kept_attr e (xlat_regime ctx) attr) \<and> d AND TABLE_ADDR_MASK = pa"
proof -
  obtain a where "attr_word e (xlat_regime ctx) attr = Some a" "d = pa OR (if level = 3 then PAGE_DESC else BLOCK_DESC) OR a"
    using assms(1) by (auto simp: xlat_desc_fields)
  then show ?thesis using read_back [of d pa _ a e ctx attr] mapped_desc(2) [OF assms] assms(2) by simp
qed

theorem attributes_round_trip_witness:
  "\<exists>d. xlat_desc demo_options (demo_setup []) 0x4A 0x80001000 3 = Returned d \<and> desc_attributes (demo_setup []) d = Some 0x4A"
proof -
  obtain d where d: "xlat_desc demo_options (demo_setup []) 0x4A 0x80001000 3 = Returned d"
    by (simp add: desc_eval size_eval demo_setup_eval)
  then show ?thesis using attributes_round_trip [OF d] by (simp add: kept_attr_def demo_setup_eval demo_options_def)
qed

section \<open>What the undoing of a mapping leaves behind\<close>







section \<open>Addresses chosen by the library\<close>

lemma bsz_64: "h \<le> 3 \<Longrightarrow> int (bsz h) dvd 2 ^ 64"
  using le_imp_power_dvd [of "12 + 9 * h" 64 "2 :: int"] by (simp add: bsz_def)

lemma round_up_aligned:
  assumes "h \<le> 3"
  shows "round_up v (XLAT_BLOCK_SIZE (3 - h)) AND XLAT_BLOCK_MASK (3 - h) = 0"
proof -
  define w where "w = NOT ((v - 1) OR XLAT_BLOCK_MASK (3 - h))"
  have "w AND XLAT_BLOCK_MASK (3 - h) = 0" by (rule bit_word_eqI) (auto simp: w_def bit_simps)
  then have "bsz h dvd unat w" using and_block_mask [OF assms] by simp
  then have "int (bsz h) dvd uint w" by (metis int_dvd_int_iff uint_nat)
  then have "int (bsz h) dvd (- uint w) mod 2 ^ 64" using bsz_64 [OF assms] by (simp add: dvd_mod)
  moreover have "round_up v (XLAT_BLOCK_SIZE (3 - h)) = - w"
    by (simp add: round_up_def w_def XLAT_BLOCK_MASK_def minus_eq_not_plus_1)
  ultimately have "int (bsz h) dvd uint (round_up v (XLAT_BLOCK_SIZE (3 - h)))" by (simp add: uint_word_ariths)
  then have "bsz h dvd unat (round_up v (XLAT_BLOCK_SIZE (3 - h)))" by (metis int_dvd_int_iff uint_nat)
  then show ?thesis using and_block_mask [OF assms] by simp
qed

lemma align_loop:
  "alloc_va_align_loop ls a mm = mm\<lparr>base_va := base_va (alloc_va_align_loop ls a mm)\<rparr>"
  by (induction ls) auto

lemma align_loop_aligned:
  "sorted ls \<Longrightarrow> \<forall>l \<in> set ls. l < 3 \<Longrightarrow> l \<in> set ls \<Longrightarrow> a AND XLAT_BLOCK_MASK l = 0 \<Longrightarrow>
   base_va (alloc_va_align_loop ls a mm) AND XLAT_BLOCK_MASK l = 0"
proof (induction ls)
  case (Cons k ks)
  show ?case
  proof (cases "a AND XLAT_BLOCK_MASK k = 0")
    case True
    have kl: "k \<le> l" "l < 3" using Cons.prems by auto
    have "base_va (alloc_va_align_loop (k # ks) a mm) AND XLAT_BLOCK_MASK k = 0"
      using True round_up_aligned [of "3 - k" "base_va mm"] kl by simp
    then have "bsz (3 - k) dvd unat (base_va (alloc_va_align_loop (k # ks) a mm))" using and_block_mask [of "3 - k"] kl by simp
    then have "bsz (3 - l) dvd unat (base_va (alloc_va_align_loop (k # ks) a mm))" using bsz_mult [of "3 - l" "3 - k"] kl dvd_trans by auto
    then show ?thesis using and_block_mask [of "3 - l"] kl by simp
  next
    case False
    then show ?thesis using Cons by auto
  qed
qed simp

text \<open>
  C34: an address chosen by the library. When \<open>mmap_add_region_alloc_va_ctx\<close> returns, in any reachable
  context, the region it added differs from the one given in its virtual address alone, lies above
  every region already in the list, and is aligned to the size of every block that its physical
  address and size are aligned to, so that it can be mapped with such blocks.
\<close>

theorem alloc_va_address:
  assumes "reach xlat_start xlat_step (e, ctx)" "mmap_add_region_alloc_va_ctx mm ctx = (Returned (), mm', ctx')"
  shows "mm' = mm\<lparr>base_va := base_va mm'\<rparr> \<and> mm' \<in> set (mmap ctx')
     \<and> (\<forall>c \<in> set (mmap ctx). region_end_va c < base_va mm')
     \<and> (\<forall>level. base_level ctx \<le> level \<and> level < 3 \<and> (base_pa mm OR mm_size mm) AND XLAT_BLOCK_MASK level = 0
          \<longrightarrow> base_va mm' AND XLAT_BLOCK_MASK level = 0)"
proof -
  let ?mm = "mm\<lparr>base_va := max_va ctx + 1\<rparr>"
  have c: "mm' = alloc_va_align_loop [base_level ctx..<3] (base_pa mm OR mm_size mm) ?mm" "mm_size mm \<noteq> 0" "max_va ctx < base_va mm'"
    "mmap_add_region_ctx mm' ctx = (Returned (), ctx')"
    using assms(2) by (auto simp: mmap_add_region_alloc_va_ctx_def mmap_alloc_va_align_ctx_def Let_def split: if_splits prod.splits)
  have eq: "mm' = mm\<lparr>base_va := base_va mm'\<rparr>" using align_loop [of "[base_level ctx..<3]" "base_pa mm OR mm_size mm" ?mm] c(1) by simp
  then have "mm_size mm' \<noteq> 0" using c(2) by (metis mmap_region_t.select_convs(3) mmap_region_t.surjective mmap_region_t.update_convs(2))
  then have "mm' \<in> set (mmap ctx')"
    using c(4) by (auto simp: mmap_add_region_ctx_def mmap_insert_set split: if_splits)
  moreover have "region_end_va x < base_va mm'" if "x \<in> set (mmap ctx)" for x
    using max_of_bound [OF that, of region_end_va] c(3) reach_xlat_inv [OF assms(1)] by (simp add: xlat_inv_def list_ok_def)
  moreover have "base_va mm' AND XLAT_BLOCK_MASK l = 0"
    if "base_level ctx \<le> l \<and> l < 3 \<and> (base_pa mm OR mm_size mm) AND XLAT_BLOCK_MASK l = 0" for l
    unfolding c(1) by (rule align_loop_aligned) (use that in auto)
  ultimately show ?thesis using eq by blast
qed

definition alloc_block :: mmap_region_t where
  "alloc_block = \<lparr>base_pa = 0x40000000, base_va = 0, mm_size = 0x200000, mm_attr = MT_RW, granularity = 0x200000\<rparr>"

theorem alloc_va_address_witness:
  "\<exists>mm' ctx'. mmap_add_region_alloc_va_ctx alloc_block (demo_listed [0x10000]) = (Returned (), mm', ctx')
     \<and> region_end_va demo_code < base_va mm' \<and> base_va mm' AND XLAT_BLOCK_MASK 2 = 0"
proof -
  obtain mm' ctx' where c: "mmap_add_region_alloc_va_ctx alloc_block (demo_listed [0x10000]) = (Returned (), mm', ctx')"
    by (simp add: demo_listed_eval demo_setup_eval alloc_block_def mmap_add_region_alloc_va_ctx_def mmap_alloc_va_align_ctx_def round_up_def list_eval Let_def)
  have "(base_pa alloc_block OR mm_size alloc_block) AND XLAT_BLOCK_MASK 2 = 0" "base_level (demo_listed [0x10000]) = 2"
    "demo_code \<in> set (mmap (demo_listed [0x10000]))"
    by (simp_all add: alloc_block_def size_eval demo_listed_eval demo_setup_eval)
  then show ?thesis using alloc_va_address [OF demo_listed_reach [OF demo_start(1)] c] c by auto
qed

end
