(* ===== verification/Xlat_Change.thy ===== *)
theory Xlat_Change
  imports Xlat_Attr
begin

text \<open>
  Changing the attributes of pages: \<open>xlat_change_mem_attributes_ctx\<close> rewrites page descriptors in
  place. A page descriptor belongs to one page, so that no other translation changes.
\<close>

section \<open>Writing a page descriptor\<close>









section \<open>Pages of the address space\<close>










section \<open>One page\<close>








section \<open>All pages\<close>










end
