(* ===== verification/Xlat_Client.thy ===== *)
theory Xlat_Client
  imports Xlat_Change
begin

text \<open>
  Dynamic regions as a client sees them: an interface with the laws a client relies on, what follows
  from the laws alone, and the proof that the library satisfies them.
\<close>

section \<open>The interface\<close>

locale dynamic_mapping =
  fixes good :: "'s \<Rightarrow> bool"
    and allowed :: "'r \<Rightarrow> bool"
    and add :: "'r \<Rightarrow> 's \<Rightarrow> 's option"
    and remove :: "'r \<Rightarrow> 's \<Rightarrow> 's option"
    and value_at :: "'s \<Rightarrow> 'v \<Rightarrow> 'p option"
    and inside :: "'r \<Rightarrow> 'v \<Rightarrow> bool"
    and in_space :: "'s \<Rightarrow> 'v \<Rightarrow> bool"
  assumes add_good: "good s \<Longrightarrow> allowed r \<Longrightarrow> add r s = Some t \<Longrightarrow> good t"
    and add_space: "good s \<Longrightarrow> allowed r \<Longrightarrow> add r s = Some t \<Longrightarrow> in_space t v = in_space s v"
    and add_fresh: "good s \<Longrightarrow> allowed r \<Longrightarrow> add r s = Some t \<Longrightarrow> in_space s v \<Longrightarrow> inside r v \<Longrightarrow> value_at s v = None \<and> value_at t v \<noteq> None"
    and add_elsewhere: "good s \<Longrightarrow> allowed r \<Longrightarrow> add r s = Some t \<Longrightarrow> in_space s v \<Longrightarrow> \<not> inside r v \<Longrightarrow> value_at t v = value_at s v"
    and remove_added: "good s \<Longrightarrow> allowed r \<Longrightarrow> add r s = Some t \<Longrightarrow> \<exists>u. remove r t = Some u"
    and remove_good: "good t \<Longrightarrow> allowed r \<Longrightarrow> remove r t = Some u \<Longrightarrow> good u"
    and remove_inside: "good t \<Longrightarrow> allowed r \<Longrightarrow> remove r t = Some u \<Longrightarrow> in_space t v \<Longrightarrow> inside r v \<Longrightarrow> value_at u v = None"
    and remove_elsewhere: "good t \<Longrightarrow> allowed r \<Longrightarrow> remove r t = Some u \<Longrightarrow> in_space t v \<Longrightarrow> \<not> inside r v \<Longrightarrow> value_at u v = value_at t v"
begin

text \<open>A region that was added can be removed, and then nothing has changed.\<close>

lemma restored:
  assumes "good s" "allowed r" "add r s = Some t"
  shows "\<exists>u. remove r t = Some u \<and> good u \<and> (\<forall>v. in_space s v \<longrightarrow> value_at u v = value_at s v)"
proof -
  obtain u where u: "remove r t = Some u" using remove_added [OF assms] by blast
  note t = add_good [OF assms]
  have "value_at u v = value_at s v" if v: "in_space s v" for v
  proof (cases "inside r v")
    case True
    then show ?thesis using remove_inside [OF t assms(2) u] add_fresh [OF assms v] add_space [OF assms] v by simp
  next
    case False
    then show ?thesis using remove_elsewhere [OF t assms(2) u] add_elsewhere [OF assms v] add_space [OF assms] v by simp
  qed
  then show ?thesis using u remove_good [OF t assms(2) u] by blast
qed

text \<open>Two regions present at once do not share an address.\<close>

lemma exclusive:
  assumes "good s" "allowed r" "allowed q" "add r s = Some t" "add q t = Some u" "in_space s v"
  shows "\<not> (inside r v \<and> inside q v)"
  using add_fresh [OF assms(1,2,4,6)] add_fresh [OF add_good [OF assms(1,2,4)] assms(3,5)] add_space [OF assms(1,2,4)] assms(6) by auto

end

section \<open>The library\<close>

definition client_good :: "xlat_env \<times> xlat_ctx_t \<Rightarrow> bool" where
  "client_good s \<longleftrightarrow> reach xlat_start xlat_step s \<and> initialized (snd s)"

definition client_region :: "mmap_region_t \<Rightarrow> bool" where
  "client_region mm \<longleftrightarrow> attr_ok mm \<and> mm_size mm \<noteq> 0"

definition client_add :: "mmap_region_t \<Rightarrow> xlat_env \<times> xlat_ctx_t \<Rightarrow> (xlat_env \<times> xlat_ctx_t) option" where
  "client_add mm s =
     (case mmap_add_dynamic_region_ctx (fst s) mm (snd s) of
        (Returned r, mm', ctx') \<Rightarrow> if r = 0 then Some (fst s, ctx') else None
      | _ \<Rightarrow> None)"

definition client_remove :: "mmap_region_t \<Rightarrow> xlat_env \<times> xlat_ctx_t \<Rightarrow> (xlat_env \<times> xlat_ctx_t) option" where
  "client_remove mm s =
     (case mmap_remove_dynamic_region_ctx (base_va mm) (mm_size mm) (snd s) of
        (Returned r, ctx') \<Rightarrow> if r = 0 then Some (fst s, ctx') else None
      | _ \<Rightarrow> None)"

definition client_space :: "xlat_env \<times> xlat_ctx_t \<Rightarrow> uintptr_t \<Rightarrow> bool" where
  "client_space s va \<longleftrightarrow> va \<le> va_max_address (snd s)"

definition client_value :: "xlat_env \<times> xlat_ctx_t \<Rightarrow> uintptr_t \<Rightarrow> (uint64_t \<times> uint64_t) option" where
  "client_value s va = xlat_translate (snd s) va"

lemma client_add_outcome:
  assumes "client_good s" "client_region mm" "client_add mm s = Some t"
  obtains A C mm' where "xlat_inv (fst s) (snd s)" "xlat_inv (fst s) (snd t)" "fst t = fst s" "xlat_step s t"
    "mm' = mm\<lparr>mm_attr := mm_attr mm OR MT_DYNAMIC\<rparr>"
    "mmap (snd s) = A @ C" "mmap (snd t) = A @ mm' # C" "\<forall>c \<in> set (A @ C). separate c mm'"
    "va_max_address (snd t) = va_max_address (snd s)" "initialized (snd s)" "initialized (snd t)" "xlat_regime (snd t) = xlat_regime (snd s)"
proof -
  obtain e ctx where s: "s = (e, ctx)" by (cases s)
  have i: "xlat_inv e ctx" "initialized ctx" "attr_ok mm" "mm_size mm \<noteq> 0"
    using assms(1,2) reach_xlat_inv s by (auto simp: client_good_def client_region_def)
  obtain mm1 ctx1 where c: "mmap_add_dynamic_region_ctx e mm ctx = (Returned 0, mm1, ctx1)" "t = (e, ctx1)"
    using assms(3) s by (auto simp: client_add_def split: prod.splits outcome.splits if_splits)
  show thesis
  proof (rule add_dynamic_cases [OF i(1,3)])
    fix A C mm' ctx' assume a: "mmap_add_dynamic_region_ctx e mm ctx = (Returned 0, mm', ctx')" "xlat_inv e ctx'"
        "mm' = mm\<lparr>mm_attr := mm_attr mm OR MT_DYNAMIC\<rparr>" "mmap ctx = A @ C" "mmap ctx' = A @ mm' # C" "\<forall>c \<in> set (A @ C). separate c mm'"
        "va_max_address ctx' = va_max_address ctx" "initialized ctx' = initialized ctx" "xlat_regime ctx' = xlat_regime ctx"
    have "xlat_step (e, ctx) (e, ctx')" by (rule step_dynamic [OF i(3) a(1)]) simp
    then show thesis using that [of mm' A C] a c i s by simp
  qed (use c(1) i in auto)
qed

lemma region_has_attr: "region_has (mm\<lparr>mm_attr := a\<rparr>) = region_has mm"
  by (simp add: region_has_def region_end_va_def fun_eq_iff)

lemma client_remove_outcome:
  assumes "client_good t" "client_remove mm t = Some u"
  shows "client_good u" "client_space t v \<Longrightarrow> client_value u v = (if region_has mm v then None else client_value t v)"
proof -
  obtain e ctx where t: "t = (e, ctx)" by (cases t)
  have i: "reach xlat_start xlat_step (e, ctx)" "initialized ctx" using assms(1) t by (auto simp: client_good_def)
  obtain ctx' where c: "mmap_remove_dynamic_region_ctx (base_va mm) (mm_size mm) ctx = (Returned 0, ctx')" "u = (e, ctx')"
    using assms(2) t by (auto simp: client_remove_def split: prod.splits outcome.splits if_splits)
  note inv = reach_xlat_inv [OF i(1)]
  have "initialized ctx' \<and> (client_space t v \<longrightarrow> client_value u v = (if region_has mm v then None else client_value t v))"
  proof (rule remove_dynamic_cases [OF inv, of "base_va mm" "mm_size mm"])
    fix A m C c1 assume a: "mmap_remove_dynamic_region_ctx (base_va mm) (mm_size mm) ctx = (Returned 0, c1)" "xlat_inv e c1"
        "mmap ctx = A @ m # C" "mmap c1 = A @ C" "base_va m = base_va mm" "mm_size m = mm_size mm" "\<forall>c \<in> set (A @ C). separate c m"
        "va_max_address c1 = va_max_address ctx" "initialized c1 = initialized ctx" "xlat_regime c1 = xlat_regime ctx"
    have i1: "initialized c1" using a(9) i(2) by simp
    have "xlat_translate c1 v = (if region_has m v then None else xlat_translate ctx v)" if "v \<le> va_max_address c1"
      by (rule one_less_region [OF a(2) inv i1 i(2) a(4,3,7) a(8) [symmetric] a(10) [symmetric] that])
    moreover have "region_has m = region_has mm" using a(5,6) by (simp add: region_has_def region_end_va_def fun_eq_iff)
    ultimately show ?thesis using a(1,8) c t i1 by (simp add: client_space_def client_value_def)
  qed (use c(1) in auto)
  then show "client_good u" "client_space t v \<Longrightarrow> client_value u v = (if region_has mm v then None else client_value t v)"
    using reach_step [OF i(1) step_remove [OF c(1), of e]] c(2) by (simp_all add: client_good_def)
qed

text \<open>The region that was added is the one found by its address and size.\<close>

lemma find_added:
  assumes "region_ok mm" "\<forall>c \<in> set (A @ C). separate c mm"
  shows "List.find (\<lambda>c. base_va c = base_va mm \<and> mm_size c = mm_size mm) (A @ mm # C) = Some mm"
proof -
  have "\<not> (base_va c = base_va mm \<and> mm_size c = mm_size mm)" if "c \<in> set A" for c
  proof
    assume "base_va c = base_va mm \<and> mm_size c = mm_size mm"
    moreover have "separate c mm" using assms(2) that by simp
    ultimately show False using region_size_pos [OF assms(1)] by (auto simp: separate_def rend_def)
  qed
  then have "List.find (\<lambda>c. base_va c = base_va mm \<and> mm_size c = mm_size mm) A = None" by (simp only: find_None_iff) blast
  then show ?thesis by (simp add: find_append)
qed

lemma client_remove_added:
  assumes "client_good s" "client_region mm" "client_add mm s = Some t"
  shows "\<exists>u. client_remove mm t = Some u"
proof -
  obtain A C mm' where o: "xlat_inv (fst s) (snd t)" "fst t = fst s" "mm' = mm\<lparr>mm_attr := mm_attr mm OR MT_DYNAMIC\<rparr>"
    "mmap (snd t) = A @ mm' # C" "\<forall>c \<in> set (A @ C). separate c mm'" using client_add_outcome [OF assms] by metis
  have "region_ok mm'" using o(1,4) by (simp add: xlat_inv_def list_ok_def regions_ok_def)
  then have f: "List.find (\<lambda>c. base_va c = base_va mm \<and> mm_size c = mm_size mm) (mmap (snd t)) = Some mm'" "\<not> static mm'"
    using find_added [of mm' A C] o(3-5) dynamic_attr(2) by simp_all
  show ?thesis
    by (rule remove_dynamic_cases [OF o(1), of "base_va mm" "mm_size mm"])
       (use f in \<open>auto simp: client_remove_def mmap_remove_dynamic_region_ctx_def [of _ _ "snd t"] Let_def split: prod.splits if_splits\<close>)
qed

interpretation dynamic_regions: dynamic_mapping client_good client_region client_add client_remove client_value region_has client_space
proof
  fix s t mm v assume a: "client_good s" "client_region mm" "client_add mm s = Some t"
  obtain A C mm' where o: "xlat_inv (fst s) (snd s)" "xlat_inv (fst s) (snd t)" "fst t = fst s" "xlat_step s t"
    "mm' = mm\<lparr>mm_attr := mm_attr mm OR MT_DYNAMIC\<rparr>" "mmap (snd s) = A @ C" "mmap (snd t) = A @ mm' # C" "\<forall>c \<in> set (A @ C). separate c mm'"
    "va_max_address (snd t) = va_max_address (snd s)" "initialized (snd s)" "initialized (snd t)" "xlat_regime (snd t) = xlat_regime (snd s)"
    by (rule client_add_outcome [OF a])
  show "client_good t" using a(1) o(4,11) reach_step by (auto simp: client_good_def)
  show "client_space t v = client_space s v" using o(9) by (simp add: client_space_def)
  show "\<exists>u. client_remove mm t = Some u" by (rule client_remove_added [OF a])
  have h: "region_has mm' = region_has mm" using o(5) region_has_attr by simp
  show "client_value s v = None \<and> client_value t v \<noteq> None" if "client_space s v" "region_has mm v"
    using one_more_region [OF o(1,2,10,11,6,7,8,9,12)] one_less_region [OF o(1,2,10,11,6,7,8,9,12)] that h
    by (simp add: client_space_def client_value_def)
  show "client_value t v = client_value s v" if "client_space s v" "\<not> region_has mm v"
    using one_more_region [OF o(1,2,10,11,6,7,8,9,12)] that h by (simp add: client_space_def client_value_def)
qed (use client_remove_outcome in simp_all)

text \<open>
  C36: a dynamic region that was added can be removed. In any reachable context with initialised
  tables, after \<open>mmap_add_dynamic_region_ctx\<close> has returned 0 for a non-empty region,
  \<open>mmap_remove_dynamic_region_ctx\<close> for its address and size returns 0, and every address then
  translates as it did before the region was added.
\<close>

theorem dynamic_region_restored:
  assumes "reach xlat_start xlat_step (e, ctx)" "initialized ctx" "attr_ok mm" "mm_size mm \<noteq> 0"
    and "mmap_add_dynamic_region_ctx e mm ctx = (Returned 0, mm', ctx')"
  shows "\<exists>ctx''. mmap_remove_dynamic_region_ctx (base_va mm) (mm_size mm) ctx' = (Returned 0, ctx'')
     \<and> (\<forall>va. va \<le> va_max_address ctx \<longrightarrow> xlat_translate ctx'' va = xlat_translate ctx va)"
proof -
  have a: "client_good (e, ctx)" "client_region mm" "client_add mm (e, ctx) = Some (e, ctx')"
    using assms by (simp_all add: client_good_def client_region_def client_add_def)
  obtain u where "client_remove mm (e, ctx') = Some u" "\<forall>va. client_space (e, ctx) va \<longrightarrow> client_value u va = client_value (e, ctx) va"
    using dynamic_regions.restored [OF a] by blast
  then show ?thesis
    by (auto simp: client_remove_def client_space_def client_value_def split: prod.splits outcome.splits if_splits)
qed

theorem dynamic_region_restored_witness:
  "\<exists>ctx''. mmap_remove_dynamic_region_ctx 0x200000 0x1000 demo_mapped = (Returned 0, ctx'')
     \<and> xlat_translate ctx'' 0x200010 = xlat_translate (demo_ready [0x10000, 0x11000]) 0x200010"
proof -
  have "mm_size demo_uart \<noteq> 0" "base_va demo_uart = 0x200000" "mm_size demo_uart = 0x1000" by (simp_all add: region_eval)
  then obtain ctx'' where "mmap_remove_dynamic_region_ctx 0x200000 0x1000 demo_mapped = (Returned 0, ctx'')"
      "\<forall>va. va \<le> 0x3FFFFF \<longrightarrow> xlat_translate ctx'' va = xlat_translate (demo_ready [0x10000, 0x11000]) va"
    using dynamic_region_restored [OF demo_ready_reach(2) demo_ready_fields(4) demo_attr(3) _ demo_add] by (auto simp: demo_ready_fields)
  then show ?thesis by simp
qed

end
