(* ===== verification/Spec2Isabelle.thy ===== *)
theory Spec2Isabelle
  imports Psci_Correct Psci_Front Fwu_Copy Bakery_Correct Xlat_Client
begin

text \<open>
  Trusted Firmware-A: the PSCI library and the firmware update service of BL1.
\<close>

end
